(* ===== verification/Prelude.thy ===== *)
theory Prelude
  imports Complex_Main "HOL-Library.Word" "HOL-Library.AList" "HOL-Library.Char_ord"
    "HOL-Library.List_Lexorder" "HOL-Library.Multiset"
begin

text \<open>
  Shared vocabulary of the development: Go's scalar types, strings and maps, the error
  values of the store package, the generic contracts (locales) that several components
  promise, and the lemmas their proofs share.

  \<^item> \<open>time.Time\<close> is an \<open>int\<close>: nanoseconds since Go's zero time, so \<open>t.IsZero()\<close> is \<open>t = 0\<close>
    and \<open>t.Truncate(time.Microsecond)\<close> rounds down to a multiple of 1000;
  \<^item> \<open>uint64\<close> is a 64-bit word; \<open>int64\<close> is an \<open>int\<close> and every operation that can leave
    the range is wrapped explicitly by \<open>wrap_i64\<close>;
  \<^item> a Go map is an association list: lookup is \<open>map_of\<close>, an assignment is
    \<open>AList.update\<close>, \<open>delete\<close> is \<open>AList.delete\<close>, \<open>range\<close> visits the list. Go leaves the
    visiting order open; theorems are stated for every list, hence for every order;
  \<^item> a pointer that the code compares with \<open>nil\<close> is an \<open>option\<close>.
\<close>

section \<open>Scalars\<close>

type_synonym time = int
type_synonym duration = int
type_synonym u64 = "64 word"
type_synonym i64 = int

definition max_i64 :: i64 where
  "max_i64 = 2 ^ 63 - 1"

definition wrap_i64 :: "int \<Rightarrow> i64" where
  "wrap_i64 x = (x + 2 ^ 63) mod 2 ^ 64 - 2 ^ 63"

definition in_i64 :: "int \<Rightarrow> bool" where
  "in_i64 x \<longleftrightarrow> - (2 ^ 63) \<le> x \<and> x \<le> max_i64"

definition truncate_us :: "time \<Rightarrow> time" where
  "truncate_us t = t - t mod 1000"

abbreviation (input) millisecond :: duration where "millisecond \<equiv> 1000000"
abbreviation (input) second :: duration where "second \<equiv> 1000000000"

lemma wrap_i64_id [simp]: "in_i64 x \<Longrightarrow> wrap_i64 x = x"
  by (simp add: wrap_i64_def in_i64_def max_i64_def)

lemma in_i64_wrap [simp]: "in_i64 (wrap_i64 x)"
proof -
  have "0 \<le> (x + 2 ^ 63) mod 2 ^ 64" and "(x + 2 ^ 63) mod 2 ^ 64 < 2 ^ 64"
    by simp_all
  then show ?thesis
    by (simp add: wrap_i64_def in_i64_def max_i64_def)
qed

lemma truncate_us_bounds: "truncate_us t \<le> t" "t < truncate_us t + 1000"
  by (simp_all add: truncate_us_def)

lemma word_plus_one_neq [simp]: "(e :: u64) + 1 \<noteq> e" "e \<noteq> e + 1"
  by simp_all

section \<open>Errors\<close>

text \<open>
  The sentinel errors of \<open>internal/store\<close>. An error built with \<open>fmt.Errorf("%w ...")\<close> is
  the sentinel it wraps; one built with \<open>errors.New\<close> or a plain \<open>fmt.Errorf\<close> is
  \<open>Err\<close> with its fixed text (the formatted operands are not kept). \<open>Panic\<close> is a run-time
  panic of the Go code, such as the dereference of a nil pointer.
\<close>

datatype error =
    ErrNotFound
  | ErrAlreadyExists
  | ErrLLMCheckpointConflict
  | ErrLLMDisplacementConflict
  | ErrNodeCommandConflict
  | ErrResidencyTransitionConflict
  | ErrModelResidencyConflict
  | ErrModelResidencyGenerationConflict
  | ErrInterferenceProfileConflict
  | ErrWorkloadConflict
  | ErrAcceleratorLeaseCleanupConflict
  | Err string
  | Panic

text \<open>
  A chain of guards that return early succeeds when every guard lets the input pass. The
  collection \<open>guards\<close> reads such chains off without splitting them.
\<close>

named_theorems guards

lemma guard_if [guards]:
  "(if b then Some x else y) = None \<longleftrightarrow> \<not> b \<and> y = None"
  "(if b then Inl e else r) = Inr v \<longleftrightarrow> \<not> b \<and> r = Inr v"
  "(if b then (s, Inl e) else p) = (t, Inr v) \<longleftrightarrow> \<not> b \<and> p = (t, Inr v)"
  "(if b then r else Inl e) = Inr v \<longleftrightarrow> b \<and> r = Inr v"
  "(if b then p else (s, Inl e)) = (t, Inr v) \<longleftrightarrow> b \<and> p = (t, Inr v)"
  by auto

lemma guard_option [guards]:
  "(case z of None \<Rightarrow> y | Some x \<Rightarrow> Some (f x)) = None \<longleftrightarrow> z = None \<and> y = None"
  "(case z of None \<Rightarrow> r | Some x \<Rightarrow> Inl (g x)) = Inr v \<longleftrightarrow> z = None \<and> r = Inr v"
  "(case z of None \<Rightarrow> p | Some x \<Rightarrow> (s, Inl (h x))) = (t, Inr v) \<longleftrightarrow> z = None \<and> p = (t, Inr v)"
  "(case z of None \<Rightarrow> (s, Inl e) | Some x \<Rightarrow> q x) = (t, Inr v) \<longleftrightarrow>
     (\<exists>x. z = Some x \<and> q x = (t, Inr v))"
  by (auto split: option.splits)

lemma guard_sum [guards]:
  "(case z of Inl x \<Rightarrow> Inl (f x) | Inr y \<Rightarrow> r y) = Inr v \<longleftrightarrow> (\<exists>y. z = Inr y \<and> r y = Inr v)"
  "(case z of Inl x \<Rightarrow> (s, Inl (g x)) | Inr y \<Rightarrow> p y) = (t, Inr v) \<longleftrightarrow>
     (\<exists>y. z = Inr y \<and> p y = (t, Inr v))"
  by (auto split: sum.splits)

section \<open>Strings\<close>

abbreviation NUL :: char where "NUL \<equiv> CHR 0x00"

text \<open>
  \<open>strings.TrimSpace\<close> on UTF-8 bytes: \<open>trim_left\<close> drops the white-space runes at the front,
  \<open>trim_left_rev\<close> those at the front of a reversed string.
\<close>

definition ascii_space :: "char \<Rightarrow> bool" where
  "ascii_space c \<longleftrightarrow> c = CHR 0x09 \<or> c = CHR 0x0A \<or> c = CHR 0x0B \<or> c = CHR 0x0C \<or> c = CHR 0x0D \<or> c = CHR '' ''"

definition space2 :: "char \<Rightarrow> char \<Rightarrow> bool" where
  "space2 a b \<longleftrightarrow> a = CHR 0xC2 \<and> (b = CHR 0x85 \<or> b = CHR 0xA0)"

definition space3 :: "char \<Rightarrow> char \<Rightarrow> char \<Rightarrow> bool" where
  "space3 a b c \<longleftrightarrow>
     a = CHR 0xE1 \<and> b = CHR 0x9A \<and> c = CHR 0x80 \<or>
     a = CHR 0xE2 \<and> b = CHR 0x80 \<and>
       (CHR 0x80 \<le> c \<and> c \<le> CHR 0x8A \<or> c = CHR 0xA8 \<or> c = CHR 0xA9 \<or> c = CHR 0xAF) \<or>
     a = CHR 0xE2 \<and> b = CHR 0x81 \<and> c = CHR 0x9F \<or>
     a = CHR 0xE3 \<and> b = CHR 0x80 \<and> c = CHR 0x80"

fun trim_left :: "string \<Rightarrow> string" where
  "trim_left (a # b # c # s) =
     (if ascii_space a then trim_left (b # c # s)
      else if space2 a b then trim_left (c # s)
      else if space3 a b c then trim_left s
      else a # b # c # s)"
| "trim_left [a, b] =
     (if ascii_space a then trim_left [b] else if space2 a b then [] else [a, b])"
| "trim_left [a] = (if ascii_space a then [] else [a])"
| "trim_left [] = []"

fun trim_left_rev :: "string \<Rightarrow> string" where
  "trim_left_rev (c # b # a # s) =
     (if ascii_space c then trim_left_rev (b # a # s)
      else if space2 b c then trim_left_rev (a # s)
      else if space3 a b c then trim_left_rev s
      else c # b # a # s)"
| "trim_left_rev [c, b] =
     (if ascii_space c then trim_left_rev [b] else if space2 b c then [] else [c, b])"
| "trim_left_rev [c] = (if ascii_space c then [] else [c])"
| "trim_left_rev [] = []"

definition TrimSpace :: "string \<Rightarrow> string" where
  "TrimSpace s = rev (trim_left_rev (rev (trim_left s)))"

abbreviation blank :: "string \<Rightarrow> bool" where
  "blank s \<equiv> TrimSpace s = ''''"

lemma blank_Nil [simp]: "blank ''''"
  by (simp add: TrimSpace_def)

lemma not_blank_nonempty: "\<not> blank s \<Longrightarrow> s \<noteq> ''''"
  by auto

text \<open>
  \<open>strings.ToLower\<close>, exact for the comparisons with ASCII constants that the code makes:
  besides A to Z only U+212A and U+0130 lower to an ASCII letter.
\<close>

fun ToLower :: "string \<Rightarrow> string" where
  "ToLower [] = []"
| "ToLower (c # s) =
     (if CHR ''A'' \<le> c \<and> c \<le> CHR ''Z'' then char_of (of_char c + (32 :: nat)) # ToLower s
      else if c = CHR 0xC4 \<and> take 1 s = [CHR 0xB0] then CHR ''i'' # ToLower (drop 1 s)
      else if c = CHR 0xE2 \<and> take 2 s = [CHR 0x84, CHR 0xAA] then CHR ''k'' # ToLower (drop 2 s)
      else c # ToLower s)"

text \<open>\<open>fmt.Sprint\<close> on integers.\<close>

fun show_nat :: "nat \<Rightarrow> string" where
  "show_nat n =
     (if n < 10 then [char_of (48 + n)] else show_nat (n div 10) @ [char_of (48 + n mod 10)])"

declare show_nat.simps [simp del]

definition show_int :: "int \<Rightarrow> string" where
  "show_int i = (if i < 0 then CHR ''-'' # show_nat (nat (- i)) else show_nat (nat i))"

definition digit_value :: "char \<Rightarrow> nat" where
  "digit_value c = of_char c - 48"

lemma digit_char: "d < 10 \<Longrightarrow> digit_value (char_of (48 + d)) = d"
  by (simp add: digit_value_def)

lemma show_nat_value: "foldl (\<lambda>a c. 10 * a + digit_value c) 0 (show_nat n) = n"
proof (induction n rule: show_nat.induct)
  case (1 n)
  show ?case
  proof (cases "n < 10")
    case True
    then show ?thesis by (simp add: show_nat.simps [of n] digit_char)
  next
    case False
    have "digit_value (char_of (48 + n mod 10)) = n mod 10"
      by (rule digit_char) simp
    with False "1.IH" show ?thesis
      by (simp add: show_nat.simps [of n])
  qed
qed

lemma show_nat_inject [simp]: "show_nat m = show_nat n \<longleftrightarrow> m = n"
  by (metis show_nat_value)

lemma digits_only: "c \<in> set (show_nat n) \<Longrightarrow> (48 :: nat) \<le> of_char c \<and> of_char c \<le> (57 :: nat)"
proof (induction n rule: show_nat.induct)
  case (1 n)
  have m: "(48 + n mod 10) mod 256 = 48 + n mod 10" by simp
  show ?case
  proof (cases "n < 10")
    case True
    with "1.prems" show ?thesis by (auto simp: show_nat.simps [of n])
  next
    case False
    then consider "c \<in> set (show_nat (n div 10))" | "c = char_of (48 + n mod 10)"
      using "1.prems" by (auto simp: show_nat.simps [of n])
    then show ?thesis
    proof cases
      case 1
      with False "1.IH" show ?thesis by blast
    next
      case 2
      then have "(of_char c :: nat) = 48 + n mod 10" using m by simp
      then show ?thesis by presburger
    qed
  qed
qed

lemma digit_codes: "NUL \<notin> set (show_nat n)" "CHR ''-'' \<notin> set (show_nat n)"
  by (auto dest: digits_only)

lemma show_nat_neq_Nil [simp]: "show_nat n \<noteq> ''''"
  by (simp add: show_nat.simps)

lemma show_nat_no_minus [simp]: "show_nat n \<noteq> CHR ''-'' # s" "CHR ''-'' # s \<noteq> show_nat n"
  using digit_codes(2) [of n] by (metis list.set_intros(1))+

lemma show_int_inject [simp]: "show_int i = show_int j \<longleftrightarrow> i = j"
  by (auto simp: show_int_def)

lemma NUL_show_int [simp]: "NUL \<notin> set (show_int i)"
  by (auto simp: show_int_def digit_codes)

text \<open>The composite keys of the store: fields joined by a zero byte.\<close>

definition nul_join :: "string \<Rightarrow> string \<Rightarrow> string" where
  "nul_join a b = a @ NUL # b"

lemma append_sep_inject:
  "x \<notin> set a \<Longrightarrow> x \<notin> set a' \<Longrightarrow> a @ x # b = a' @ x # b' \<longleftrightarrow> a = a' \<and> b = b'"
proof (induction a arbitrary: a')
  case Nil
  then show ?case by (cases a') auto
next
  case (Cons y a)
  then show ?case by (cases a') auto
qed

lemma nul_join_inject:
  "NUL \<notin> set a \<Longrightarrow> NUL \<notin> set a' \<Longrightarrow> nul_join a b = nul_join a' b' \<longleftrightarrow> a = a' \<and> b = b'"
  by (simp add: nul_join_def append_sep_inject)

section \<open>Go maps\<close>

type_synonym ('k, 'v) gomap = "('k \<times> 'v) list"

abbreviation mput :: "'k \<Rightarrow> 'v \<Rightarrow> ('k, 'v) gomap \<Rightarrow> ('k, 'v) gomap" where
  "mput k v m \<equiv> AList.update k v m"

abbreviation mdel :: "'k \<Rightarrow> ('k, 'v) gomap \<Rightarrow> ('k, 'v) gomap" where
  "mdel k m \<equiv> AList.delete k m"

text \<open>Reading a missing key of a map whose values are not pointers gives the zero value.\<close>

definition mget_zero :: "'v \<Rightarrow> ('k, 'v) gomap \<Rightarrow> 'k \<Rightarrow> 'v" where
  "mget_zero z m k = (case map_of m k of None \<Rightarrow> z | Some v \<Rightarrow> v)"

definition mvalues :: "('k, 'v) gomap \<Rightarrow> 'v list" where
  "mvalues m = map snd m"

definition gomap_wf :: "('k, 'v) gomap \<Rightarrow> bool" where
  "gomap_wf m \<longleftrightarrow> distinct (map fst m)"

lemma map_of_mput [simp]: "map_of (mput k v m) = (map_of m)(k \<mapsto> v)"
  by (rule update_conv')

lemma map_of_mdel [simp]: "map_of (mdel k m) = (map_of m)(k := None)"
  by (rule delete_conv')

lemma mput_fresh: "k \<notin> dom (map_of m) \<Longrightarrow> mput k v m = m @ [(k, v)]"
  by (induction m) (auto simp: dom_def split: if_splits)

lemma mget_zero_mput [simp]: "mget_zero z (mput k v m) k' = (if k' = k then v else mget_zero z m k')"
  by (simp add: mget_zero_def)

lemma gomap_wf_Nil [simp]: "gomap_wf []"
  by (simp add: gomap_wf_def)

lemma gomap_wf_mput [simp]: "gomap_wf m \<Longrightarrow> gomap_wf (mput k v m)"
  by (simp add: gomap_wf_def distinct_update)

lemma gomap_wf_mdel [simp]: "gomap_wf m \<Longrightarrow> gomap_wf (mdel k m)"
  by (simp add: gomap_wf_def distinct_delete)

lemma gomap_wf_filter [simp]: "gomap_wf m \<Longrightarrow> gomap_wf (filter P m)"
  by (simp add: gomap_wf_def distinct_map_filter)

lemma mvalues_Nil [simp]: "mvalues [] = []"
  by (simp add: mvalues_def)

lemma map_of_in_mvalues: "map_of m k = Some v \<Longrightarrow> v \<in> set (mvalues m)"
  by (force simp: mvalues_def dest: map_of_SomeD)

lemma mvalues_iff: "gomap_wf m \<Longrightarrow> v \<in> set (mvalues m) \<longleftrightarrow> (\<exists>k. map_of m k = Some v)"
  by (force simp: gomap_wf_def mvalues_def)

lemma mvalues_ran: "gomap_wf m \<Longrightarrow> set (mvalues m) = ran (map_of m)"
  by (auto simp: mvalues_iff ran_def)

lemma gomap_entry: "gomap_wf m \<Longrightarrow> (k, v) \<in> set m \<longleftrightarrow> map_of m k = Some v"
  by (simp add: gomap_wf_def)

section \<open>Listing helpers\<close>

text \<open>
  \<open>sort.Slice\<close> by a time, newest first or oldest first, and the two limit conventions of
  the list endpoints. Entries with equal times come in no fixed order in Go.
\<close>

definition newest_first :: "('a \<Rightarrow> time) \<Rightarrow> 'a list \<Rightarrow> 'a list" where
  "newest_first f xs = sort_key (\<lambda>x. - f x) xs"

definition oldest_first :: "('a \<Rightarrow> time) \<Rightarrow> 'a list \<Rightarrow> 'a list" where
  "oldest_first f xs = sort_key f xs"

definition page_limit :: "int \<Rightarrow> nat" where
  "page_limit limit = (if limit \<le> 0 \<or> limit > 1000 then 100 else nat limit)"

lemma page_limit_bounds: "1 \<le> page_limit l" "page_limit l \<le> 1000"
  by (auto simp: page_limit_def)

lemma mset_newest_first [simp]: "mset (newest_first f xs) = mset xs"
  by (simp add: newest_first_def)

lemma mset_oldest_first [simp]: "mset (oldest_first f xs) = mset xs"
  by (simp add: oldest_first_def)

lemma set_newest_first [simp]: "set (newest_first f xs) = set xs"
  by (simp add: newest_first_def)

lemma set_oldest_first [simp]: "set (oldest_first f xs) = set xs"
  by (simp add: oldest_first_def)

lemma sorted_newest_first: "sorted_wrt (\<lambda>x y. f y \<le> f x) (newest_first f xs)"
proof -
  have "sorted (map (\<lambda>x. - f x) (newest_first f xs))"
    by (simp add: newest_first_def)
  then show ?thesis by (simp add: sorted_wrt_map)
qed

lemma sorted_oldest_first: "sorted_wrt (\<lambda>x y. f x \<le> f y) (oldest_first f xs)"
proof -
  have "sorted (map f (oldest_first f xs))"
    by (simp add: oldest_first_def)
  then show ?thesis by (simp add: sorted_wrt_map)
qed

section \<open>Contracts\<close>

subsection \<open>State machines and their invariants\<close>

inductive reachable :: "('s \<Rightarrow> bool) \<Rightarrow> ('s \<Rightarrow> 's \<Rightarrow> bool) \<Rightarrow> 's \<Rightarrow> bool"
  for init :: "'s \<Rightarrow> bool" and step :: "'s \<Rightarrow> 's \<Rightarrow> bool" where
  reachable_init: "init s \<Longrightarrow> reachable init step s"
| reachable_step: "reachable init step s \<Longrightarrow> step s t \<Longrightarrow> reachable init step t"

locale inductive_invariant =
  fixes init :: "'s \<Rightarrow> bool" and step :: "'s \<Rightarrow> 's \<Rightarrow> bool" and inv :: "'s \<Rightarrow> bool"
  assumes inv_init: "init s \<Longrightarrow> inv s"
    and inv_step: "inv s \<Longrightarrow> step s t \<Longrightarrow> inv t"
begin

lemma reachable_inv: "reachable init step s \<Longrightarrow> inv s"
  by (induction rule: reachable.induct) (auto intro: inv_init inv_step)

end

subsection \<open>Optimistic concurrency\<close>

text \<open>
  The compare-and-swap contract that the versioned rows of the store share: an update
  carries the revision its author read, it is applied only when the row still has that
  revision, and the stored row has the next one. A refused update leaves the rows as they were.
\<close>

fun attempts :: "('s \<Rightarrow> 'a \<Rightarrow> 's \<times> (error + 'v)) \<Rightarrow> 's \<Rightarrow> 'a list \<Rightarrow> 's \<times> 'v list" where
  "attempts f s [] = (s, [])"
| "attempts f s (a # as) =
     (case f s a of
        (s', Inl e) \<Rightarrow> attempts f s' as
      | (s', Inr v) \<Rightarrow> (case attempts f s' as of (t, vs) \<Rightarrow> (t, v # vs)))"

locale cas_row =
  fixes row :: "'s \<Rightarrow> 'k \<Rightarrow> 'v option"
    and rev_of :: "'v \<Rightarrow> u64"
    and key :: "'a \<Rightarrow> 'k"
    and cas :: "u64 \<Rightarrow> 's \<Rightarrow> 'a \<Rightarrow> 's \<times> (error + 'v)"
  assumes cas_ok: "cas e s a = (s', Inr v) \<Longrightarrow>
      (\<exists>old. row s (key a) = Some old \<and> rev_of old = e) \<and> rev_of v = e + 1 \<and>
      row s' = (row s)(key a \<mapsto> v)"
    and cas_err: "cas e s a = (s', Inl x) \<Longrightarrow> row s' = row s"
begin

lemma cas_stale:
  assumes "row s (key a) = Some old" and "rev_of old \<noteq> e"
  shows "\<exists>s' x. cas e s a = (s', Inl x) \<and> row s' = row s"
proof (cases "cas e s a")
  case (Pair s' r)
  with assms show ?thesis by (cases r) (auto dest: cas_ok cas_err)
qed

lemma cas_other_rows: "cas e s a = (s', r) \<Longrightarrow> k \<noteq> key a \<Longrightarrow> row s' k = row s k"
  by (cases r) (auto dest: cas_ok cas_err)

lemma cas_once:
  assumes "cas e s a = (s', Inr v)" and "key b = key a"
  shows "\<exists>t x. cas e s' b = (t, Inl x) \<and> row t = row s'"
proof (rule cas_stale)
  show "row s' (key b) = Some v" using assms by (auto dest: cas_ok)
  show "rev_of v \<noteq> e" using assms by (auto dest: cas_ok)
qed

lemma attempts_stale:
  assumes "\<forall>a \<in> set as. key a = k" and "row s k = Some old" and "rev_of old \<noteq> e"
  shows "snd (attempts (cas e) s as) = []"
  using assms
proof (induction as arbitrary: s)
  case Nil
  then show ?case by simp
next
  case (Cons a as)
  have "row s (key a) = Some old" using Cons.prems by simp
  then obtain s' x where "cas e s a = (s', Inl x)" "row s' = row s"
    using Cons.prems cas_stale by blast
  with Cons show ?case by simp
qed

lemma at_most_one_winner:
  assumes "\<forall>a \<in> set as. key a = k"
  shows "length (snd (attempts (cas e) s as)) \<le> 1"
  using assms
proof (induction as arbitrary: s)
  case Nil
  then show ?case by simp
next
  case (Cons a as)
  obtain s' r where c: "cas e s a = (s', r)" by (cases "cas e s a")
  show ?case
  proof (cases r)
    case (Inl x)
    with c Cons show ?thesis by simp
  next
    case (Inr v)
    with c have "row s' k = Some v" "rev_of v \<noteq> e"
      using Cons.prems by (auto dest: cas_ok)
    then have "snd (attempts (cas e) s' as) = []"
      using Cons.prems attempts_stale by auto
    with c Inr show ?thesis by (auto split: prod.splits)
  qed
qed

end

subsection \<open>Idempotent creation\<close>

text \<open>
  The create-or-replay contract: a create that inserts a row makes every later repetition of
  the same request, at any clock reading, a replay, which returns the stored row, reports that nothing was created
  and leaves the store as it was. A refused create changes nothing.
\<close>

locale idempotent_create =
  fixes row :: "'s \<Rightarrow> 'k \<Rightarrow> 'v option"
    and ident :: "'v \<Rightarrow> 'k"
    and create :: "'n \<Rightarrow> 's \<Rightarrow> 'a \<Rightarrow> 's \<times> (error + 'v \<times> bool)"
  assumes create_new: "create t s a = (s', Inr (v, True)) \<Longrightarrow>
      row s (ident v) = None \<and> row s' = (row s)(ident v \<mapsto> v)"
    and create_replay: "create t s a = (s', Inr (v, False)) \<Longrightarrow>
      row s' = row s \<and> (\<exists>k. row s k = Some v)"
    and create_err: "create t s a = (s', Inl e) \<Longrightarrow> s' = s"
    and create_again: "create t s a = (s', Inr (v, True)) \<Longrightarrow> create t' s' a = (s', Inr (v, False))"
begin

lemma create_keeps_rows:
  assumes "create t s a = (s', r)" and "row s k = Some v"
  shows "row s' k = Some v"
proof (cases r)
  case (Inl e)
  with assms show ?thesis by (auto dest: create_err)
next
  case (Inr p)
  obtain w b where "p = (w, b)" by (cases p)
  with assms Inr show ?thesis
    by (cases b) (force dest: create_new create_replay)+
qed

lemma create_repeated:
  assumes "create t s a = (s', Inr (v, True))"
  shows "foldl (\<lambda>s t. fst (create t s a)) s' ts = s'"
  using create_again [OF assms] by (induction ts) simp_all

end

end
