(* ===== verification/Capacity.thy ===== *)
theory Capacity
  imports Prelude
begin

text \<open>
  \<open>internal/domain/domain.go\<close>, the admission contract of a target: byte budgets and their
  inheritance (\<open>CapacityBudget\<close>), the residency capability block with its evidence rules
  (\<open>ResidencyCapabilities\<close>) and the accelerator ceiling. The lemmas show that inheritance
  never widens a hard cap, that a merged capability block is backed by evidence whenever its
  parts are, that static configuration cannot mint evidence, and when a merge is refused.
\<close>

section \<open>Capability contract version\<close>

definition CapabilityContractVersion :: string where
  "CapabilityContractVersion = ''fleet-residency.v1''"

definition ValidateCapabilityVersion :: "string \<Rightarrow> error option" where
  "ValidateCapabilityVersion version =
     (if version = '''' \<or> version = CapabilityContractVersion then None
      else Some (Err ''unsupported capability contract version''))"

section \<open>Byte budgets\<close>

record capacity_budget =
  VRAMTotalBytes :: i64
  VRAMReserveBytes :: i64
  VRAMHardCapBytes :: i64
  RAMTotalBytes :: i64
  RAMReserveBytes :: i64
  RAMHardCapBytes :: i64
  DiskAvailableBytes :: i64

fun first_negative :: "(string \<times> i64) list \<Rightarrow> string option" where
  "first_negative [] = None"
| "first_negative ((name, v) # fs) = (if v < 0 then Some name else first_negative fs)"

definition budget_fields :: "capacity_budget \<Rightarrow> (string \<times> i64) list" where
  "budget_fields b =
     [(''vram_total_bytes'', VRAMTotalBytes b), (''vram_reserve_bytes'', VRAMReserveBytes b),
      (''vram_hard_cap_bytes'', VRAMHardCapBytes b), (''ram_total_bytes'', RAMTotalBytes b),
      (''ram_reserve_bytes'', RAMReserveBytes b), (''ram_hard_cap_bytes'', RAMHardCapBytes b),
      (''disk_available_bytes'', DiskAvailableBytes b)]"

definition ValidateBudget :: "capacity_budget \<Rightarrow> error option" where
  "ValidateBudget b =
     (case first_negative (budget_fields b) of
        Some name \<Rightarrow> Some (Err (name @ '' may not be negative''))
      | None \<Rightarrow>
          if VRAMTotalBytes b > 0 \<and> VRAMReserveBytes b > VRAMTotalBytes b
          then Some (Err ''vram_reserve_bytes may not exceed vram_total_bytes'')
          else if VRAMTotalBytes b > 0 \<and> VRAMHardCapBytes b > VRAMTotalBytes b
          then Some (Err ''vram_hard_cap_bytes may not exceed vram_total_bytes'')
          else if VRAMHardCapBytes b > 0 \<and> VRAMReserveBytes b > VRAMHardCapBytes b
          then Some (Err ''vram_reserve_bytes may not exceed vram_hard_cap_bytes'')
          else if RAMTotalBytes b > 0 \<and> RAMReserveBytes b > RAMTotalBytes b
          then Some (Err ''ram_reserve_bytes may not exceed ram_total_bytes'')
          else if RAMTotalBytes b > 0 \<and> RAMHardCapBytes b > RAMTotalBytes b
          then Some (Err ''ram_hard_cap_bytes may not exceed ram_total_bytes'')
          else if RAMHardCapBytes b > 0 \<and> RAMReserveBytes b > RAMHardCapBytes b
          then Some (Err ''ram_reserve_bytes may not exceed ram_hard_cap_bytes'')
          else None)"

definition ValidateCapacityOverride :: "capacity_budget \<Rightarrow> capacity_budget \<Rightarrow> error option" where
  "ValidateCapacityOverride parent override =
     (case ValidateBudget override of
        Some err \<Rightarrow> Some err
      | None \<Rightarrow>
          if VRAMHardCapBytes parent > 0 \<and> VRAMHardCapBytes override > VRAMHardCapBytes parent
          then Some (Err ''vram_hard_cap_bytes exceeds inherited ceiling'')
          else if RAMHardCapBytes parent > 0 \<and> RAMHardCapBytes override > RAMHardCapBytes parent
          then Some (Err ''ram_hard_cap_bytes exceeds inherited ceiling'')
          else None)"

definition override_field :: "i64 \<Rightarrow> i64 \<Rightarrow> i64" where
  "override_field inherited own = (if own > 0 then own else inherited)"

definition MergeCapacityBudget :: "capacity_budget \<Rightarrow> capacity_budget \<Rightarrow> capacity_budget" where
  "MergeCapacityBudget defaults override =
     (let merged = \<lparr>
        VRAMTotalBytes = override_field (VRAMTotalBytes defaults) (VRAMTotalBytes override),
        VRAMReserveBytes = override_field (VRAMReserveBytes defaults) (VRAMReserveBytes override),
        VRAMHardCapBytes = override_field (VRAMHardCapBytes defaults) (VRAMHardCapBytes override),
        RAMTotalBytes = override_field (RAMTotalBytes defaults) (RAMTotalBytes override),
        RAMReserveBytes = override_field (RAMReserveBytes defaults) (RAMReserveBytes override),
        RAMHardCapBytes = override_field (RAMHardCapBytes defaults) (RAMHardCapBytes override),
        DiskAvailableBytes =
          override_field (DiskAvailableBytes defaults) (DiskAvailableBytes override)\<rparr>;
      merged = (if VRAMTotalBytes merged > 0 \<and>
                   (VRAMHardCapBytes merged = 0 \<or> VRAMHardCapBytes merged > VRAMTotalBytes merged)
                then merged\<lparr>VRAMHardCapBytes := VRAMTotalBytes merged\<rparr> else merged);
      merged = (if RAMTotalBytes merged > 0 \<and>
                   (RAMHardCapBytes merged = 0 \<or> RAMHardCapBytes merged > RAMTotalBytes merged)
                then merged\<lparr>RAMHardCapBytes := RAMTotalBytes merged\<rparr> else merged)
      in merged)"

lemma ValidateBudget_eq_None:
  "ValidateBudget b = None \<longleftrightarrow>
     (\<forall>f \<in> {VRAMTotalBytes, VRAMReserveBytes, VRAMHardCapBytes, RAMTotalBytes, RAMReserveBytes,
            RAMHardCapBytes, DiskAvailableBytes}. 0 \<le> f b) \<and>
     (VRAMTotalBytes b > 0 \<longrightarrow> VRAMReserveBytes b \<le> VRAMTotalBytes b \<and>
        VRAMHardCapBytes b \<le> VRAMTotalBytes b) \<and>
     (VRAMHardCapBytes b > 0 \<longrightarrow> VRAMReserveBytes b \<le> VRAMHardCapBytes b) \<and>
     (RAMTotalBytes b > 0 \<longrightarrow> RAMReserveBytes b \<le> RAMTotalBytes b \<and>
        RAMHardCapBytes b \<le> RAMTotalBytes b) \<and>
     (RAMHardCapBytes b > 0 \<longrightarrow> RAMReserveBytes b \<le> RAMHardCapBytes b)"
proof -
  have "first_negative (budget_fields b) = None \<longleftrightarrow>
      (\<forall>f \<in> {VRAMTotalBytes, VRAMReserveBytes, VRAMHardCapBytes, RAMTotalBytes, RAMReserveBytes,
            RAMHardCapBytes, DiskAvailableBytes}. 0 \<le> f b)"
    by (simp add: budget_fields_def guards not_less)
  then show ?thesis
    unfolding ValidateBudget_def guards simp_thms not_less [symmetric] by satx
qed

text \<open>A hard cap after the final narrowing by a known total.\<close>

definition narrowed :: "i64 \<Rightarrow> i64 \<Rightarrow> i64" where
  "narrowed tot cap = (if tot > 0 \<and> (cap = 0 \<or> cap > tot) then tot else cap)"

lemma MergeCapacityBudget_sel:
  shows "VRAMTotalBytes (MergeCapacityBudget d v) =
      override_field (VRAMTotalBytes d) (VRAMTotalBytes v)"
    and "VRAMReserveBytes (MergeCapacityBudget d v) =
      override_field (VRAMReserveBytes d) (VRAMReserveBytes v)"
    and "VRAMHardCapBytes (MergeCapacityBudget d v) =
      narrowed (override_field (VRAMTotalBytes d) (VRAMTotalBytes v))
        (override_field (VRAMHardCapBytes d) (VRAMHardCapBytes v))"
    and "RAMTotalBytes (MergeCapacityBudget d v) =
      override_field (RAMTotalBytes d) (RAMTotalBytes v)"
    and "RAMReserveBytes (MergeCapacityBudget d v) =
      override_field (RAMReserveBytes d) (RAMReserveBytes v)"
    and "RAMHardCapBytes (MergeCapacityBudget d v) =
      narrowed (override_field (RAMTotalBytes d) (RAMTotalBytes v))
        (override_field (RAMHardCapBytes d) (RAMHardCapBytes v))"
    and "DiskAvailableBytes (MergeCapacityBudget d v) =
      override_field (DiskAvailableBytes d) (DiskAvailableBytes v)"
  by (auto simp: MergeCapacityBudget_def narrowed_def Let_def)

lemma override_field_nonneg: "0 \<le> d \<Longrightarrow> 0 \<le> override_field d v"
  by (simp add: override_field_def)

lemma narrowed_bounds:
  assumes "0 \<le> tot" and "0 \<le> cap"
  shows "0 \<le> narrowed tot cap"
    and "0 < tot \<Longrightarrow> 0 < narrowed tot cap \<and> narrowed tot cap \<le> tot"
    and "0 < cap \<Longrightarrow> narrowed tot cap \<le> cap"
  using assms by (auto simp: narrowed_def)

lemma merged_cap_ceiling:
  assumes "0 \<le> dt" and "0 \<le> dc" and "dc > 0 \<longrightarrow> vc \<le> dc" and "0 < dc"
  shows "narrowed (override_field dt vt) (override_field dc vc) \<le> dc"
  using assms narrowed_bounds(3) [of "override_field dt vt" "override_field dc vc"]
  by (auto simp: override_field_def split: if_splits)

lemma MergeCapacityBudget_hard_caps:
  assumes "ValidateBudget defaults = None"
    and "ValidateCapacityOverride defaults override = None"
    and "m = MergeCapacityBudget defaults override"
  shows "VRAMHardCapBytes defaults > 0 \<Longrightarrow> VRAMHardCapBytes m \<le> VRAMHardCapBytes defaults"
    and "RAMHardCapBytes defaults > 0 \<Longrightarrow> RAMHardCapBytes m \<le> RAMHardCapBytes defaults"
    and "VRAMTotalBytes m > 0 \<Longrightarrow> 0 < VRAMHardCapBytes m \<and> VRAMHardCapBytes m \<le> VRAMTotalBytes m"
    and "RAMTotalBytes m > 0 \<Longrightarrow> 0 < RAMHardCapBytes m \<and> RAMHardCapBytes m \<le> RAMTotalBytes m"
    and "\<forall>f \<in> {VRAMTotalBytes, VRAMReserveBytes, VRAMHardCapBytes, RAMTotalBytes, RAMReserveBytes,
           RAMHardCapBytes, DiskAvailableBytes}. 0 \<le> f m"
proof -
  note d = assms(1) [unfolded ValidateBudget_eq_None, THEN conjunct1, simplified]
  have ov: "VRAMHardCapBytes defaults > 0 \<longrightarrow> VRAMHardCapBytes override \<le> VRAMHardCapBytes defaults"
    "RAMHardCapBytes defaults > 0 \<longrightarrow> RAMHardCapBytes override \<le> RAMHardCapBytes defaults"
    using assms(2) by (auto simp: ValidateCapacityOverride_def guards)
  show "VRAMHardCapBytes defaults > 0 \<Longrightarrow> VRAMHardCapBytes m \<le> VRAMHardCapBytes defaults"
    "RAMHardCapBytes defaults > 0 \<Longrightarrow> RAMHardCapBytes m \<le> RAMHardCapBytes defaults"
    using d ov by (simp_all add: assms(3) MergeCapacityBudget_sel merged_cap_ceiling)
  show "VRAMTotalBytes m > 0 \<Longrightarrow> 0 < VRAMHardCapBytes m \<and> VRAMHardCapBytes m \<le> VRAMTotalBytes m"
    "RAMTotalBytes m > 0 \<Longrightarrow> 0 < RAMHardCapBytes m \<and> RAMHardCapBytes m \<le> RAMTotalBytes m"
    using d by (simp_all add: assms(3) MergeCapacityBudget_sel narrowed_bounds override_field_nonneg)
  show "\<forall>f \<in> {VRAMTotalBytes, VRAMReserveBytes, VRAMHardCapBytes, RAMTotalBytes, RAMReserveBytes,
           RAMHardCapBytes, DiskAvailableBytes}. 0 \<le> f m"
    using d by (simp add: assms(3) MergeCapacityBudget_sel narrowed_bounds override_field_nonneg)
qed

text \<open>
  C19 \<open>domain.MergeCapacityBudget\<close>: once \<open>ValidateCapacityOverride\<close> has accepted a partial
  override, the merged budget keeps every inherited hard cap as a ceiling, a known total
  bounds the hard cap and makes it positive, and the merged budget is valid exactly when the
  effective reserves fit under the effective hard caps.
\<close>

theorem merge_budget_keeps_ceiling:
  assumes "ValidateBudget defaults = None"
    and "ValidateCapacityOverride defaults override = None"
  shows "let m = MergeCapacityBudget defaults override in
      (VRAMHardCapBytes defaults > 0 \<longrightarrow> VRAMHardCapBytes m \<le> VRAMHardCapBytes defaults) \<and>
      (RAMHardCapBytes defaults > 0 \<longrightarrow> RAMHardCapBytes m \<le> RAMHardCapBytes defaults) \<and>
      (VRAMTotalBytes m > 0 \<longrightarrow> 0 < VRAMHardCapBytes m \<and> VRAMHardCapBytes m \<le> VRAMTotalBytes m) \<and>
      (RAMTotalBytes m > 0 \<longrightarrow> 0 < RAMHardCapBytes m \<and> RAMHardCapBytes m \<le> RAMTotalBytes m) \<and>
      (ValidateBudget m = None \<longleftrightarrow>
        (VRAMHardCapBytes m > 0 \<longrightarrow> VRAMReserveBytes m \<le> VRAMHardCapBytes m) \<and>
        (RAMHardCapBytes m > 0 \<longrightarrow> RAMReserveBytes m \<le> RAMHardCapBytes m))"
proof -
  define m where "m = MergeCapacityBudget defaults override"
  note caps = MergeCapacityBudget_hard_caps [OF assms m_def]
  have "ValidateBudget m = None \<longleftrightarrow>
      (VRAMHardCapBytes m > 0 \<longrightarrow> VRAMReserveBytes m \<le> VRAMHardCapBytes m) \<and>
      (RAMHardCapBytes m > 0 \<longrightarrow> RAMReserveBytes m \<le> RAMHardCapBytes m)"
    unfolding ValidateBudget_eq_None using caps(3-5) order_trans by blast
  with caps(1-4) show ?thesis by (simp add: m_def [symmetric] Let_def)
qed

theorem merge_budget_keeps_ceiling_witness:
  "let d = \<lparr>VRAMTotalBytes = 24, VRAMReserveBytes = 2, VRAMHardCapBytes = 20, RAMTotalBytes = 64,
            RAMReserveBytes = 4, RAMHardCapBytes = 0, DiskAvailableBytes = 100\<rparr>;
       r = \<lparr>VRAMTotalBytes = 10, VRAMReserveBytes = 0, VRAMHardCapBytes = 0, RAMTotalBytes = 0,
            RAMReserveBytes = 0, RAMHardCapBytes = 0, DiskAvailableBytes = 0\<rparr>
   in ValidateBudget d = None \<and> ValidateCapacityOverride d r = None \<and>
      VRAMHardCapBytes (MergeCapacityBudget d r) = 10 \<and> VRAMHardCapBytes (MergeCapacityBudget d r) \<le> 20"
proof -
  let ?d = "\<lparr>VRAMTotalBytes = 24, VRAMReserveBytes = 2, VRAMHardCapBytes = 20, RAMTotalBytes = 64,
            RAMReserveBytes = 4, RAMHardCapBytes = 0, DiskAvailableBytes = 100\<rparr>"
  let ?r = "\<lparr>VRAMTotalBytes = 10, VRAMReserveBytes = 0, VRAMHardCapBytes = 0, RAMTotalBytes = 0,
            RAMReserveBytes = 0, RAMHardCapBytes = 0, DiskAvailableBytes = 0\<rparr>"
  have v: "ValidateBudget ?d = None" "ValidateCapacityOverride ?d ?r = None"
    by code_simp+
  have "VRAMHardCapBytes (MergeCapacityBudget ?d ?r) = 10" by code_simp
  with v merge_budget_keeps_ceiling [OF v] show ?thesis by (simp add: Let_def)
qed

section \<open>Residency capabilities and their evidence\<close>

record residency_capabilities =
  rc_Version :: string
  SupportsWarmRAM :: bool
  WarmRAMVerified :: bool
  WarmRAMVerification :: string
  SupportsSessionCheckpoint :: bool
  SessionCheckpointVerified :: bool
  SessionCheckpointProof :: string
  SupportsYield :: bool
  YieldVerified :: bool
  YieldProof :: string
  SupportsModelLifecycle :: bool
  SupportsAcceleratorReclaim :: bool
  MaxResidentModels :: i64
  rc_MaxAcceleratorsPerWorkload :: i64

definition isResidencyOracle :: "string \<Rightarrow> bool" where
  "isResidencyOracle v =
     List.member [''mincore'', ''os_residency_oracle'', ''mincore+lock''] (ToLower (TrimSpace v))"

definition validateResidencyEvidence :: "residency_capabilities \<Rightarrow> error option" where
  "validateResidencyEvidence c =
     (if \<not> blank (WarmRAMVerification c) \<and> (\<not> SupportsWarmRAM c \<or> \<not> WarmRAMVerified c)
      then Some (Err ''warm_ram_verification requires supported, verified warm RAM'')
      else if SupportsWarmRAM c \<and> WarmRAMVerified c \<and> \<not> isResidencyOracle (WarmRAMVerification c)
      then Some (Err ''warm_ram_verified requires an OS residency oracle'')
      else if WarmRAMVerified c \<and> \<not> SupportsWarmRAM c
      then Some (Err ''warm_ram_verified requires supports_warm_ram'')
      else if \<not> blank (SessionCheckpointProof c) \<and>
              (\<not> SupportsSessionCheckpoint c \<or> \<not> SessionCheckpointVerified c)
      then Some (Err ''session_checkpoint_proof requires supported, verified checkpointing'')
      else if SessionCheckpointVerified c \<and>
              (\<not> SupportsSessionCheckpoint c \<or> blank (SessionCheckpointProof c))
      then Some (Err ''session_checkpoint_verified requires support and proof'')
      else if SupportsSessionCheckpoint c \<and> \<not> SessionCheckpointVerified c
      then Some (Err ''supports_session_checkpoint requires verified runtime proof'')
      else if SupportsYield c \<and> \<not> YieldVerified c
      then Some (Err ''supports_yield requires verified runtime proof'')
      else if YieldVerified c \<and> (\<not> SupportsYield c \<or> blank (YieldProof c))
      then Some (Err ''yield_verified requires supports_yield and proof'')
      else if \<not> blank (YieldProof c) \<and> (\<not> SupportsYield c \<or> \<not> YieldVerified c)
      then Some (Err ''yield_proof requires supported, verified yield'')
      else None)"

definition ValidateCapabilities :: "residency_capabilities \<Rightarrow> error option" where
  "ValidateCapabilities c =
     (case ValidateCapabilityVersion (rc_Version c) of
        Some err \<Rightarrow> Some err
      | None \<Rightarrow>
          if MaxResidentModels c < 0 \<or> rc_MaxAcceleratorsPerWorkload c < 0
          then Some (Err ''capability ceilings may not be negative'')
          else validateResidencyEvidence c)"

definition ValidateOperatorCapabilities :: "residency_capabilities \<Rightarrow> error option" where
  "ValidateOperatorCapabilities c =
     (if WarmRAMVerified c \<or> SessionCheckpointVerified c \<or> SupportsSessionCheckpoint c \<or>
         SupportsYield c \<or> YieldVerified c \<or> \<not> blank (WarmRAMVerification c) \<or>
         \<not> blank (SessionCheckpointProof c) \<or> \<not> blank (YieldProof c)
      then Some (Err ''verified residency and checkpoint claims require authoritative runtime proof'')
      else None)"

record capability_aliases =
  al_SupportsModelLifecycle :: bool
  al_SupportsAcceleratorReclaim :: bool
  al_MaxResidentModels :: i64
  al_WarmRAMSupported :: bool

text \<open>The loop that collects the positive ceilings, stopping at a negative one.\<close>

fun collect_resident :: "i64 list \<Rightarrow> error + i64 list" where
  "collect_resident [] = Inr []"
| "collect_resident (v # vs) =
     (if v < 0 then Inl (Err ''max_resident_models may not be negative'')
      else case collect_resident vs of
             Inl err \<Rightarrow> Inl err
           | Inr rest \<Rightarrow> Inr (if v > 0 then v # rest else rest))"

definition merged_residency :: "residency_capabilities \<Rightarrow> residency_capabilities \<Rightarrow>
    capability_aliases \<Rightarrow> i64 list \<Rightarrow> residency_capabilities" where
  "merged_residency base overlay aliases resident =
     base\<lparr>
       rc_Version := (if rc_Version overlay \<noteq> '''' then rc_Version overlay else rc_Version base),
       SupportsWarmRAM :=
         (SupportsWarmRAM base \<or> SupportsWarmRAM overlay \<or> al_WarmRAMSupported aliases),
       SupportsModelLifecycle :=
         (SupportsModelLifecycle base \<or> SupportsModelLifecycle overlay \<or>
          al_SupportsModelLifecycle aliases),
       SupportsAcceleratorReclaim :=
         (SupportsAcceleratorReclaim base \<or> SupportsAcceleratorReclaim overlay \<or>
          al_SupportsAcceleratorReclaim aliases),
       SupportsYield := (SupportsYield base \<or> SupportsYield overlay),
       SupportsSessionCheckpoint :=
         (SupportsSessionCheckpoint base \<or> SupportsSessionCheckpoint overlay),
       MaxResidentModels := (case resident of [] \<Rightarrow> MaxResidentModels base | v # _ \<Rightarrow> v),
       WarmRAMVerified :=
         (if WarmRAMVerified overlay \<or> \<not> blank (WarmRAMVerification overlay)
          then WarmRAMVerified overlay else WarmRAMVerified base),
       WarmRAMVerification :=
         (if WarmRAMVerified overlay \<or> \<not> blank (WarmRAMVerification overlay)
          then WarmRAMVerification overlay else WarmRAMVerification base),
       SessionCheckpointVerified :=
         (if SessionCheckpointVerified overlay \<or> \<not> blank (SessionCheckpointProof overlay)
          then SessionCheckpointVerified overlay else SessionCheckpointVerified base),
       SessionCheckpointProof :=
         (if SessionCheckpointVerified overlay \<or> \<not> blank (SessionCheckpointProof overlay)
          then SessionCheckpointProof overlay else SessionCheckpointProof base),
       YieldVerified :=
         (if YieldVerified overlay \<or> \<not> blank (YieldProof overlay)
          then YieldVerified overlay else YieldVerified base),
       YieldProof :=
         (if YieldVerified overlay \<or> \<not> blank (YieldProof overlay)
          then YieldProof overlay else YieldProof base)\<rparr>"

definition MergeResidencyCapabilities :: "residency_capabilities \<Rightarrow> residency_capabilities \<Rightarrow>
    capability_aliases \<Rightarrow> error + residency_capabilities" where
  "MergeResidencyCapabilities base overlay aliases =
     (case validateResidencyEvidence base of
        Some err \<Rightarrow> Inl err
      | None \<Rightarrow>
     (case validateResidencyEvidence overlay of
        Some err \<Rightarrow> Inl err
      | None \<Rightarrow>
          if rc_Version base \<noteq> '''' \<and> rc_Version overlay \<noteq> '''' \<and> rc_Version base \<noteq> rc_Version overlay
          then Inl (Err ''capability versions conflict'')
          else
     (case collect_resident
             [MaxResidentModels base, MaxResidentModels overlay, al_MaxResidentModels aliases] of
        Inl err \<Rightarrow> Inl err
      | Inr resident \<Rightarrow>
          if list_all (\<lambda>v. v = hd resident) (tl resident)
          then Inr (merged_residency base overlay aliases resident)
          else Inl (Err ''max_resident_models values conflict''))))"

text \<open>The evidence rules, as one predicate per evidence channel.\<close>

definition channel_ok :: "bool \<Rightarrow> bool \<Rightarrow> string \<Rightarrow> bool" where
  "channel_ok supported verified evidence \<longleftrightarrow>
     (verified \<longrightarrow> supported \<and> \<not> blank evidence) \<and> (\<not> blank evidence \<longrightarrow> verified)"

lemma validateResidencyEvidence_eq_None:
  "validateResidencyEvidence c = None \<longleftrightarrow>
     channel_ok (SupportsWarmRAM c) (WarmRAMVerified c) (WarmRAMVerification c) \<and>
     (WarmRAMVerified c \<longrightarrow> isResidencyOracle (WarmRAMVerification c)) \<and>
     channel_ok (SupportsSessionCheckpoint c) (SessionCheckpointVerified c)
       (SessionCheckpointProof c) \<and>
     (SupportsSessionCheckpoint c \<longrightarrow> SessionCheckpointVerified c) \<and>
     channel_ok (SupportsYield c) (YieldVerified c) (YieldProof c) \<and>
     (SupportsYield c \<longrightarrow> YieldVerified c)"
proof -
  have "isResidencyOracle v \<Longrightarrow> \<not> blank v" for v
    by (auto simp: isResidencyOracle_def)
  then have "isResidencyOracle (WarmRAMVerification c) \<longrightarrow> \<not> blank (WarmRAMVerification c)" by blast
  then show ?thesis
    unfolding validateResidencyEvidence_def channel_ok_def guards simp_thms by satx
qed

lemma collect_resident_ok:
  "collect_resident vs = Inr rs \<Longrightarrow> (\<forall>v \<in> set vs. 0 \<le> v) \<and> rs = filter (\<lambda>v. v > 0) vs"
  by (induction vs arbitrary: rs) (auto split: if_splits sum.splits)

lemma MergeResidencyCapabilities_okD:
  assumes "MergeResidencyCapabilities base overlay aliases = Inr m"
  shows "validateResidencyEvidence base = None" "validateResidencyEvidence overlay = None"
    and "\<exists>rs. m = merged_residency base overlay aliases rs \<and>
      rs = filter (\<lambda>v. v > 0)
        [MaxResidentModels base, MaxResidentModels overlay, al_MaxResidentModels aliases] \<and>
      (\<forall>v \<in> set (tl rs). v = hd rs) \<and>
      0 \<le> MaxResidentModels base \<and> 0 \<le> MaxResidentModels overlay \<and> 0 \<le> al_MaxResidentModels aliases"
proof -
  let ?vs = "[MaxResidentModels base, MaxResidentModels overlay, al_MaxResidentModels aliases]"
  obtain rs where r: "validateResidencyEvidence base = None" "validateResidencyEvidence overlay = None"
      "collect_resident ?vs = Inr rs" "list_all (\<lambda>v. v = hd rs) (tl rs)"
      "m = merged_residency base overlay aliases rs"
    using assms unfolding MergeResidencyCapabilities_def
    by (cases "collect_resident ?vs")
      (simp_all add: guards del: collect_resident.simps)
  from r(1) show "validateResidencyEvidence base = None" .
  from r(2) show "validateResidencyEvidence overlay = None" .
  have "(\<forall>v \<in> set ?vs. 0 \<le> v) \<and> rs = filter (\<lambda>v. v > 0) ?vs"
    using r(3) by (rule collect_resident_ok)
  then show "\<exists>rs. m = merged_residency base overlay aliases rs \<and> rs = filter (\<lambda>v. v > 0) ?vs \<and>
      (\<forall>v \<in> set (tl rs). v = hd rs) \<and>
      0 \<le> MaxResidentModels base \<and> 0 \<le> MaxResidentModels overlay \<and> 0 \<le> al_MaxResidentModels aliases"
    using r(4,5) by (intro exI [of _ rs] conjI) (simp_all only: list_all_iff list.set insert_iff simp_thms)
qed

lemma channel_ok_merge:
  assumes "channel_ok s v p" and "channel_ok s' v' p'" and "s \<longrightarrow> t" and "s' \<longrightarrow> t"
  shows "channel_ok t (if v' \<or> \<not> blank p' then v' else v) (if v' \<or> \<not> blank p' then p' else p)"
proof (cases "v' \<or> \<not> blank p'")
  case True
  then show ?thesis using assms(2,4) unfolding channel_ok_def if_P [OF True] by satx
next
  case False
  then show ?thesis using assms(1,3) unfolding channel_ok_def if_not_P [OF False] by satx
qed

lemma agreeing_head: "\<forall>v \<in> set (tl rs). v = hd rs \<Longrightarrow> v \<in> set rs \<Longrightarrow> rs \<noteq> [] \<and> v = hd rs"
  by (cases rs) auto

lemma merged_residency_sel:
  shows
    "SupportsWarmRAM (merged_residency base overlay aliases rs) =
       (SupportsWarmRAM base \<or> SupportsWarmRAM overlay \<or> al_WarmRAMSupported aliases)"
    "WarmRAMVerified (merged_residency base overlay aliases rs) =
       (if WarmRAMVerified overlay \<or> \<not> blank (WarmRAMVerification overlay)
        then WarmRAMVerified overlay else WarmRAMVerified base)"
    "WarmRAMVerification (merged_residency base overlay aliases rs) =
       (if WarmRAMVerified overlay \<or> \<not> blank (WarmRAMVerification overlay)
        then WarmRAMVerification overlay else WarmRAMVerification base)"
    "SupportsSessionCheckpoint (merged_residency base overlay aliases rs) =
       (SupportsSessionCheckpoint base \<or> SupportsSessionCheckpoint overlay)"
    "SessionCheckpointVerified (merged_residency base overlay aliases rs) =
       (if SessionCheckpointVerified overlay \<or> \<not> blank (SessionCheckpointProof overlay)
        then SessionCheckpointVerified overlay else SessionCheckpointVerified base)"
    "SessionCheckpointProof (merged_residency base overlay aliases rs) =
       (if SessionCheckpointVerified overlay \<or> \<not> blank (SessionCheckpointProof overlay)
        then SessionCheckpointProof overlay else SessionCheckpointProof base)"
    "SupportsYield (merged_residency base overlay aliases rs) =
       (SupportsYield base \<or> SupportsYield overlay)"
    "YieldVerified (merged_residency base overlay aliases rs) =
       (if YieldVerified overlay \<or> \<not> blank (YieldProof overlay)
        then YieldVerified overlay else YieldVerified base)"
    "YieldProof (merged_residency base overlay aliases rs) =
       (if YieldVerified overlay \<or> \<not> blank (YieldProof overlay)
        then YieldProof overlay else YieldProof base)"
    "MaxResidentModels (merged_residency base overlay aliases rs) =
       (case rs of [] \<Rightarrow> MaxResidentModels base | v # _ \<Rightarrow> v)"
  unfolding merged_residency_def by simp_all

lemma merged_residency_evidence:
  assumes "validateResidencyEvidence base = None" and "validateResidencyEvidence overlay = None"
  shows "validateResidencyEvidence (merged_residency base overlay aliases rs) = None"
proof -
  let ?m = "merged_residency base overlay aliases rs"
  note ev = assms [unfolded validateResidencyEvidence_eq_None]
  have "WarmRAMVerified ?m \<longrightarrow> isResidencyOracle (WarmRAMVerification ?m)"
    unfolding merged_residency_sel using ev by simp
  moreover have "channel_ok (SupportsWarmRAM ?m) (WarmRAMVerified ?m)
      (WarmRAMVerification ?m)"
    unfolding merged_residency_sel
    by (rule channel_ok_merge [where s = "SupportsWarmRAM base" and s' = "SupportsWarmRAM overlay"])
      (use ev in blast)+
  moreover have "channel_ok (SupportsSessionCheckpoint ?m) (SessionCheckpointVerified ?m)
      (SessionCheckpointProof ?m)"
    unfolding merged_residency_sel
    by (rule channel_ok_merge [where s = "SupportsSessionCheckpoint base" and s' = "SupportsSessionCheckpoint overlay"])
      (use ev in blast)+
  moreover have "SupportsSessionCheckpoint ?m \<longrightarrow> SessionCheckpointVerified ?m"
    unfolding merged_residency_sel if_bool_eq_conj using ev [unfolded channel_ok_def]
    by satx
  moreover have "channel_ok (SupportsYield ?m) (YieldVerified ?m)
      (YieldProof ?m)"
    unfolding merged_residency_sel
    by (rule channel_ok_merge [where s = "SupportsYield base" and s' = "SupportsYield overlay"])
      (use ev in blast)+
  moreover have "SupportsYield ?m \<longrightarrow> YieldVerified ?m"
    unfolding merged_residency_sel if_bool_eq_conj using ev [unfolded channel_ok_def]
    by satx
  ultimately show ?thesis unfolding validateResidencyEvidence_eq_None by blast
qed


definition bare_capabilities :: residency_capabilities where
  "bare_capabilities = \<lparr>rc_Version = '''', SupportsWarmRAM = False, WarmRAMVerified = False,
     WarmRAMVerification = '''', SupportsSessionCheckpoint = False,
     SessionCheckpointVerified = False, SessionCheckpointProof = '''', SupportsYield = False,
     YieldVerified = False, YieldProof = '''', SupportsModelLifecycle = False,
     SupportsAcceleratorReclaim = False, MaxResidentModels = 0,
     rc_MaxAcceleratorsPerWorkload = 0\<rparr>"


text \<open>
  C21 Static configuration cannot mint evidence: an overlay that passes
  \<open>ValidateOperatorCapabilities\<close> leaves every verified flag, every proof text and the support
  flags that need proof exactly as the inherited runtime facts have them.
\<close>

theorem operator_overlay_mints_nothing:
  assumes "ValidateOperatorCapabilities overlay = None"
    and "MergeResidencyCapabilities base overlay aliases = Inr m"
  shows "WarmRAMVerified m = WarmRAMVerified base \<and>
    WarmRAMVerification m = WarmRAMVerification base \<and>
    SessionCheckpointVerified m = SessionCheckpointVerified base \<and>
    SessionCheckpointProof m = SessionCheckpointProof base \<and>
    SupportsSessionCheckpoint m = SupportsSessionCheckpoint base \<and>
    YieldVerified m = YieldVerified base \<and> YieldProof m = YieldProof base \<and>
    SupportsYield m = SupportsYield base"
proof -
  obtain rs where m: "m = merged_residency base overlay aliases rs"
    using MergeResidencyCapabilities_okD(3) [OF assms(2)] by blast
  have "\<not> WarmRAMVerified overlay \<and> blank (WarmRAMVerification overlay) \<and>
      \<not> SupportsSessionCheckpoint overlay \<and> \<not> SessionCheckpointVerified overlay \<and>
      blank (SessionCheckpointProof overlay) \<and> \<not> SupportsYield overlay \<and>
      \<not> YieldVerified overlay \<and> blank (YieldProof overlay)"
    using assms(1) unfolding ValidateOperatorCapabilities_def guards by satx
  then show ?thesis by (simp add: m merged_residency_sel)
qed

theorem operator_overlay_mints_nothing_witness:
  "let base = bare_capabilities\<lparr>SupportsWarmRAM := True, WarmRAMVerified := True,
         WarmRAMVerification := ''mincore''\<rparr>;
       overlay = bare_capabilities\<lparr>SupportsWarmRAM := True, MaxResidentModels := 3\<rparr>;
       aliases = \<lparr>al_SupportsModelLifecycle = False, al_SupportsAcceleratorReclaim = False,
         al_MaxResidentModels = 0, al_WarmRAMSupported = True\<rparr>;
       m = merged_residency base overlay aliases [3]
   in ValidateOperatorCapabilities overlay = None \<and>
      MergeResidencyCapabilities base overlay aliases = Inr m \<and> WarmRAMVerified m"
proof -
  let ?base = "bare_capabilities\<lparr>SupportsWarmRAM := True, WarmRAMVerified := True,
         WarmRAMVerification := ''mincore''\<rparr>"
  let ?overlay = "bare_capabilities\<lparr>SupportsWarmRAM := True, MaxResidentModels := 3\<rparr>"
  let ?aliases = "\<lparr>al_SupportsModelLifecycle = False, al_SupportsAcceleratorReclaim = False,
         al_MaxResidentModels = 0, al_WarmRAMSupported = True\<rparr>"
  let ?m = "merged_residency ?base ?overlay ?aliases [3]"
  have v: "ValidateOperatorCapabilities ?overlay = None" by code_simp
  have r: "MergeResidencyCapabilities ?base ?overlay ?aliases = Inr ?m" by code_simp
  show ?thesis using v r operator_overlay_mints_nothing [OF v r] by (simp add: Let_def)
qed

section \<open>Accelerator ceiling\<close>

definition NormalizeAcceleratorCeiling :: "i64 \<Rightarrow> i64 \<Rightarrow> error + i64" where
  "NormalizeAcceleratorCeiling outer nested =
     (if outer < 0 \<or> nested < 0
      then Inl (Err ''max_accelerators_per_workload may not be negative'')
      else
        let effective = outer;
            effective = (if effective = 0 \<and> nested > 0 then nested else effective);
            effective = (if effective = 0 then 1 else effective)
        in if outer > 0 \<and> nested \<noteq> 0 \<and> nested \<noteq> effective
           then Inl (Err ''max_accelerators_per_workload conflicts with nested capability ceiling'')
           else Inr effective)"

text \<open>
  \<open>domain.NormalizeAcceleratorCeiling\<close>: the effective ceiling is at least one and agrees
  with every ceiling that was stated; the call is refused exactly when a ceiling is negative
  or two stated ceilings differ.
\<close>

theorem accelerator_ceiling_cases:
  "(case NormalizeAcceleratorCeiling outer nested of
      Inr n \<Rightarrow> 1 \<le> n \<and> (outer = 0 \<or> n = outer) \<and> (nested = 0 \<or> n = nested) \<and>
               (outer = 0 \<and> nested = 0 \<longrightarrow> n = 1)
    | Inl _ \<Rightarrow> outer < 0 \<or> nested < 0 \<or> outer \<noteq> 0 \<and> nested \<noteq> 0 \<and> outer \<noteq> nested)"
  by (auto simp: NormalizeAcceleratorCeiling_def Let_def)

theorem accelerator_ceiling_cases_witness:
  "NormalizeAcceleratorCeiling 0 0 = Inr 1 \<and> (1::int) \<le> 1"
  using accelerator_ceiling_cases [of 0 0] by (simp add: NormalizeAcceleratorCeiling_def)

end
