(* ===== verification/Hashing.thy ===== *)
theory Hashing
  imports Prelude
begin

text \<open>
  The parts of Go's standard library that durable identities are derived with:
  \<open>crypto/sha256\<close> (\<open>sha256\<close>), \<open>encoding/hex\<close> (\<open>hex_encode\<close>) and \<open>encoding/json\<close>
  (\<open>marshal\<close>, which sorts object keys and escapes strings). A byte sequence is a \<open>string\<close>.
\<close>

unbundle bit_operations_syntax

section \<open>SHA-256\<close>

type_synonym u32 = "32 word"

text \<open>
  The round constants and the initial state are the first 32 bits of the fractional parts of
  the cube roots of the first 64 primes and of the square roots of the first 8 primes.
  \<open>int_root k b n\<close> is the integer \<open>k\<close>-th root of \<open>n\<close>, found bit by bit from bit \<open>b - 1\<close> down.
\<close>

fun int_root :: "nat \<Rightarrow> nat \<Rightarrow> int \<Rightarrow> int \<Rightarrow> int" where
  "int_root k 0 n r = r"
| "int_root k (Suc b) n r = int_root k b n (if (r + 2 ^ b) ^ k \<le> n then r + 2 ^ b else r)"

definition small_primes :: "int list" where
  "small_primes = filter (\<lambda>p. \<forall>d \<in> set [2..p - 1]. p mod d \<noteq> 0) [2..311]"

definition sha_K :: "u32 list" where
  "sha_K = map (\<lambda>p. word_of_int (int_root 3 36 (p * 2 ^ 96) 0)) small_primes"

definition sha_H0 :: "u32 list" where
  "sha_H0 = map (\<lambda>p. word_of_int (int_root 2 36 (p * 2 ^ 64) 0)) (take 8 small_primes)"

definition rotr :: "nat \<Rightarrow> u32 \<Rightarrow> u32" where
  "rotr n x = (drop_bit n x) OR (push_bit (32 - n) x)"

definition big_sigma0 :: "u32 \<Rightarrow> u32" where
  "big_sigma0 x = rotr 2 x XOR rotr 13 x XOR rotr 22 x"

definition big_sigma1 :: "u32 \<Rightarrow> u32" where
  "big_sigma1 x = rotr 6 x XOR rotr 11 x XOR rotr 25 x"

definition small_sigma0 :: "u32 \<Rightarrow> u32" where
  "small_sigma0 x = rotr 7 x XOR rotr 18 x XOR drop_bit 3 x"

definition small_sigma1 :: "u32 \<Rightarrow> u32" where
  "small_sigma1 x = rotr 17 x XOR rotr 19 x XOR drop_bit 10 x"

text \<open>The padded message: a one bit, zeros up to 56 modulo 64 bytes, the bit length.\<close>

definition sha_pad :: "string \<Rightarrow> int list" where
  "sha_pad s =
     map of_char s @ [128] @ replicate (nat ((55 - int (length s)) mod 64)) 0 @
     map (\<lambda>i. (8 * int (length s)) div 256 ^ i mod 256) [7, 6, 5, 4, 3, 2, 1, 0]"

fun be_words :: "int list \<Rightarrow> u32 list" where
  "be_words (a # b # c # d # xs) =
     word_of_int (((a * 256 + b) * 256 + c) * 256 + d) # be_words xs"
| "be_words _ = []"

text \<open>The message schedule, newest word first.\<close>

fun sha_schedule :: "nat \<Rightarrow> u32 list \<Rightarrow> u32 list" where
  "sha_schedule 0 ws = ws"
| "sha_schedule (Suc n) ws =
     sha_schedule n ((small_sigma1 (ws ! 1) + ws ! 6 + small_sigma0 (ws ! 14) + ws ! 15) # ws)"

definition sha_round :: "u32 list \<Rightarrow> u32 \<times> u32 \<Rightarrow> u32 list" where
  "sha_round st kw =
     (let a = st ! 0; b = st ! 1; c = st ! 2; e = st ! 4; f = st ! 5; g = st ! 6;
          t1 = st ! 7 + big_sigma1 e + ((e AND f) XOR (NOT e AND g)) + fst kw + snd kw;
          t2 = big_sigma0 a + ((a AND b) XOR (a AND c) XOR (b AND c))
      in [t1 + t2, a, b, c, st ! 3 + t1, e, f, g])"

fun sha_blocks :: "nat \<Rightarrow> u32 list \<Rightarrow> u32 list \<Rightarrow> u32 list" where
  "sha_blocks 0 st ws = st"
| "sha_blocks (Suc n) st ws =
     sha_blocks n
       (map2 (+) st (foldl sha_round st (zip sha_K (rev (sha_schedule 48 (rev (take 16 ws)))))))
       (drop 16 ws)"

definition word_bytes :: "u32 \<Rightarrow> string" where
  "word_bytes w = map (\<lambda>i. char_of (uint w div 256 ^ i mod 256)) [3, 2, 1, 0]"

definition sha256 :: "string \<Rightarrow> string" where
  "sha256 s =
     (let p = sha_pad s
      in concat (map word_bytes (sha_blocks (length p div 64) sha_H0 (be_words p))))"

lemma int_root_bounds:
  assumes "0 < k" and "0 \<le> r" and "r ^ k \<le> n" and "n < (r + 2 ^ b) ^ k"
  shows "int_root k b n r ^ k \<le> n \<and> n < (int_root k b n r + 1) ^ k"
  using assms by (induction k b n r rule: int_root.induct) (auto simp: add.assoc)

lemma length_small_primes: "8 \<le> length small_primes"
proof -
  have "[2..311] = [2..19] @ [20..311::int]" using upto_split1 [of 2 20 311] by simp
  moreover have "length (filter (\<lambda>p. \<forall>d \<in> set [2..p - 1]. p mod d \<noteq> 0) [2..19::int]) = 8"
    by code_simp
  ultimately show ?thesis unfolding small_primes_def by (simp only: filter_append length_append)
qed

lemma length_sha_rounds: "length st = 8 \<Longrightarrow> length (foldl sha_round st kws) = 8"
  by (induction kws arbitrary: st) (auto simp: sha_round_def Let_def)

lemma length_sha_blocks: "length st = 8 \<Longrightarrow> length (sha_blocks n st ws) = 8"
  by (induction n arbitrary: st ws) (auto simp: length_sha_rounds)

lemma length_sha256 [simp]: "length (sha256 s) = 32"
proof -
  have "length sha_H0 = 8" by (simp add: sha_H0_def length_small_primes)
  then have "length (sha_blocks n sha_H0 ws) = 8" for n ws by (rule length_sha_blocks)
  moreover have "length (word_bytes w) = 4" for w by (simp add: word_bytes_def)
  ultimately show ?thesis by (simp add: sha256_def Let_def length_concat sum_list_triv comp_def)
qed

section \<open>Hexadecimal and JSON text\<close>

definition hex_digit :: "nat \<Rightarrow> char" where
  "hex_digit n = ''0123456789abcdef'' ! n"

definition hex_encode :: "string \<Rightarrow> string" where
  "hex_encode s = concat (map (\<lambda>c. [hex_digit (of_char c div 16), hex_digit (of_char c mod 16)]) s)"

lemma length_hex_encode [simp]: "length (hex_encode s) = 2 * length s"
  by (induction s) (auto simp: hex_encode_def)

text \<open>
  JSON string text: the escapes of \<open>encoding/json\<close> for ASCII input, HTML escaping included.
  Bytes from 0x80 on are copied, as they are for valid UTF-8.
\<close>

definition json_char :: "char \<Rightarrow> string" where
  "json_char c =
     (if c = CHR 0x22 then [CHR 0x5C, CHR 0x22]
      else if c = CHR 0x5C then [CHR 0x5C, CHR 0x5C]
      else if c = CHR 0x0A then [CHR 0x5C, CHR ''n'']
      else if c = CHR 0x0D then [CHR 0x5C, CHR ''r'']
      else if c = CHR 0x09 then [CHR 0x5C, CHR ''t'']
      else if c = CHR 0x08 then [CHR 0x5C, CHR ''b'']
      else if c = CHR 0x0C then [CHR 0x5C, CHR ''f'']
      else if c < CHR '' '' \<or> c = CHR ''<'' \<or> c = CHR ''>'' \<or> c = CHR ''&''
      then [CHR 0x5C, CHR ''u'', CHR ''0'', CHR ''0'',
            hex_digit (of_char c div 16), hex_digit (of_char c mod 16)]
      else [c])"

definition json_string :: "string \<Rightarrow> string" where
  "json_string s = CHR 0x22 # concat (map json_char s) @ [CHR 0x22]"

fun comma_join :: "string list \<Rightarrow> string" where
  "comma_join [] = ''''"
| "comma_join [x] = x"
| "comma_join (x # xs) = x @ '','' @ comma_join xs"

text \<open>The values of a \<open>map[string]any\<close>. A number keeps its printed form.\<close>

datatype json =
    JNull
  | JBool bool
  | JNumber string
  | JString string
  | JArray "json list"
  | JObject "(string \<times> json) list"

primrec marshal :: "json \<Rightarrow> string" where
  "marshal JNull = ''null''"
| "marshal (JBool b) = (if b then ''true'' else ''false'')"
| "marshal (JNumber n) = n"
| "marshal (JString s) = json_string s"
| "marshal (JArray js) = ''['' @ comma_join (map marshal js) @ '']''"
| "marshal (JObject kvs) =
     CHR 0x7B # comma_join (map (\<lambda>kv. json_string (fst kv) @ '':'' @ snd kv)
       (sort_key fst (map (map_prod id marshal) kvs))) @ [CHR 0x7D]"

end
