(* ===== verification/Tables.thy ===== *)
theory Tables
  imports Prelude
begin

text \<open>
  Tables with a secondary index. Several maps of the store come in pairs: the rows by id and a
  map from an idempotency key to the id of the row that owns it. The predicate
  \<open>indexed_table\<close> says that the pair is consistent; the lemmas show that inserting a row under
  an unused key and replacing a row that keeps its key preserve it.
\<close>

definition indexed_table :: "('v \<Rightarrow> string) \<Rightarrow> ('v \<Rightarrow> string) \<Rightarrow> (string, 'v) gomap \<Rightarrow>
    (string, string) gomap \<Rightarrow> bool" where
  "indexed_table ident key rows keys \<longleftrightarrow>
     gomap_wf rows \<and>
     (\<forall>i v. map_of rows i = Some v \<longrightarrow> i \<noteq> '''' \<and> ident v = i \<and> map_of keys (key v) = Some i) \<and>
     (\<forall>k i. map_of keys k = Some i \<longrightarrow> (\<exists>v. map_of rows i = Some v \<and> key v = k))"

lemma indexed_table_Nil [simp]: "indexed_table ident key [] []"
  by (simp add: indexed_table_def)

lemma indexed_table_wf: "indexed_table ident key rows keys \<Longrightarrow> gomap_wf rows"
  by (simp add: indexed_table_def)

lemma indexed_table_rowD:
  "indexed_table ident key rows keys \<Longrightarrow> map_of rows i = Some v \<Longrightarrow>
     i \<noteq> '''' \<and> ident v = i \<and> map_of keys (key v) = Some i"
  unfolding indexed_table_def by blast

lemma indexed_table_keyD:
  "indexed_table ident key rows keys \<Longrightarrow> map_of keys k = Some i \<Longrightarrow>
     \<exists>v. map_of rows i = Some v \<and> key v = k"
  unfolding indexed_table_def by blast

lemma indexed_table_unused_key:
  assumes "indexed_table ident key rows keys" and "mget_zero '''' keys k = ''''"
  shows "map_of keys k = None"
proof (cases "map_of keys k")
  case (Some i)
  then have "i \<noteq> ''''"
    using indexed_table_keyD [OF assms(1)] indexed_table_rowD [OF assms(1)] by blast
  with Some assms(2) show ?thesis by (simp add: mget_zero_def)
qed

lemma indexed_table_put:
  assumes t: "indexed_table ident key rows keys" and nz: "ident v \<noteq> ''''"
    and k: "map_of keys (key v) \<in> {None, Some (ident v)}"
    and r: "\<forall>w. map_of rows (ident v) = Some w \<longrightarrow> key w = key v"
    and rows': "rows' = mput (ident v) v rows"
    and keys': "map_of keys' = (map_of keys)(key v \<mapsto> ident v)"
  shows "indexed_table ident key rows' keys'"
proof -
  have "i \<noteq> '''' \<and> ident w = i \<and> map_of keys' (key w) = Some i" if i: "map_of rows' i = Some w" for i w
  proof (cases "i = ident v")
    case True
    with i nz rows' keys' show ?thesis by simp
  next
    case False
    with i rows' have "map_of rows i = Some w" by simp
    then have w: "i \<noteq> ''''" "ident w = i" "map_of keys (key w) = Some i"
      using indexed_table_rowD [OF t] by blast+
    with False k have "key w \<noteq> key v" by auto
    with w keys' show ?thesis by simp
  qed
  moreover have "\<exists>w. map_of rows' i = Some w \<and> key w = q" if q: "map_of keys' q = Some i" for q i
  proof (cases "q = key v")
    case True
    with q rows' keys' show ?thesis by simp
  next
    case False
    with q keys' have "map_of keys q = Some i" by simp
    then obtain w where w: "map_of rows i = Some w" "key w = q"
      using indexed_table_keyD [OF t] by blast
    with False r have "i \<noteq> ident v" by auto
    with w rows' show ?thesis by simp
  qed
  moreover have "gomap_wf rows'"
    using indexed_table_wf [OF t] unfolding rows' by (rule gomap_wf_mput)
  ultimately show ?thesis unfolding indexed_table_def by blast
qed

lemma indexed_table_insert:
  assumes "indexed_table ident key rows keys" and "ident v \<noteq> ''''"
    and "map_of rows (ident v) = None" and "mget_zero '''' keys (key v) = ''''"
  shows "indexed_table ident key (mput (ident v) v rows) (mput (key v) (ident v) keys)"
  using assms(3) indexed_table_unused_key [OF assms(1,4)]
  by (intro indexed_table_put [OF assms(1,2)]) simp_all

lemma indexed_table_replace:
  assumes t: "indexed_table ident key rows keys"
    and w: "map_of rows (ident v) = Some w" "key w = key v"
  shows "indexed_table ident key (mput (ident v) v rows) keys"
proof -
  have d: "ident v \<noteq> ''''" "map_of keys (key v) = Some (ident v)"
    using indexed_table_rowD [OF t w(1)] w(2) by auto
  show ?thesis
  proof (rule indexed_table_put [OF t d(1)])
    show "map_of keys = (map_of keys)(key v \<mapsto> ident v)" unfolding d(2) [symmetric] by simp
  qed (use d(2) w in simp_all)
qed

text \<open>
  A pairwise conflict between rows, such as two rows that claim one resource. A table is
  conflict-free when conflicting rows are one row.
\<close>

definition conflict_free :: "('v \<Rightarrow> 'v \<Rightarrow> bool) \<Rightarrow> ('k, 'v) gomap \<Rightarrow> bool" where
  "conflict_free conflict rows \<longleftrightarrow>
     (\<forall>i j p q. map_of rows i = Some p \<longrightarrow> map_of rows j = Some q \<longrightarrow> conflict p q \<longrightarrow> i = j)"

lemma conflict_free_Nil [simp]: "conflict_free conflict []"
  by (simp add: conflict_free_def)

lemma conflict_free_put:
  assumes "conflict_free conflict rows"
    and "\<forall>j q. map_of rows j = Some q \<longrightarrow> j \<noteq> i \<longrightarrow> \<not> conflict q p \<and> \<not> conflict p q"
  shows "conflict_free conflict (mput i p rows)"
  using assms unfolding conflict_free_def by (auto split: if_splits)

end
