(* ===== verification/Domain_Types.thy ===== *)
theory Domain_Types
  imports Capacity Hashing
begin

text \<open>
  The rows of \<open>internal/domain\<close>: every struct that the store keeps, field by field in the
  order of the source. A field carries a prefix of its struct, because Isabelle selectors are
  global. Named string types (\<open>WorkloadStatus\<close>, \<open>ResidencyTier\<close>, ...) are strings, as in Go,
  where any string converts to them; their constants are the abbreviations at the end.
  \<open>json.RawMessage\<close> and byte slices are strings, \<open>map[string]any\<close> is \<open>json\<close> (\<open>JNull\<close> for a nil
  map), \<open>float64\<close> is \<open>real\<close>: no operation modelled here computes with a float.
\<close>

section \<open>Fleet inventory\<close>

record desired =
  ds_SchedulingEnabled :: bool
  ds_Power :: string
  ds_DesiredPool :: string
  ds_AutoReconcile :: bool
  ds_PowerControlMode :: string

record system_telemetry =
  st_Hostname :: string
  st_OS :: string
  st_Kernel :: string
  st_Architecture :: string
  st_CPUModel :: string
  st_CPULogical :: int
  st_CPUUtilizationPct :: real
  st_Load1 :: real
  st_Load5 :: real
  st_Load15 :: real
  st_RAMTotalMB :: i64
  st_RAMUsedMB :: i64
  st_RAMAvailableMB :: i64
  st_SwapTotalMB :: i64
  st_SwapUsedMB :: i64
  st_RootDiskTotalMB :: i64
  st_RootDiskUsedMB :: i64
  st_RootDiskFreeMB :: i64
  st_NetworkAddresses :: "string list"
  st_NetworkRXBPS :: real
  st_NetworkTXBPS :: real
  st_UptimeSeconds :: real
  st_SampledAt :: time

record log_entry =
  le_Timestamp :: time
  le_Level :: string
  le_Message :: string
  le_Attributes :: json

record observed =
  ob_Connectivity :: string
  ob_Lifecycle :: string
  ob_Power :: string
  ob_Ready :: bool
  ob_LastHeartbeat :: time
  ob_LastSeenAt :: time
  ob_AgentVersion :: string
  ob_System :: system_telemetry
  ob_AgentLogs :: "log_entry list"

record runtime_capabilities =
  rcap_SupportsContinuousBatching :: bool
  rcap_SupportsWeightSleepToRAM :: bool
  rcap_SupportsKVOffloadCPU :: bool
  rcap_SupportsKVRestore :: bool
  rcap_SupportsStagedWake :: bool
  rcap_SupportsHotKVResize :: bool
  rcap_SupportsRuntimeRestartProfile :: bool
  rcap_SupportsDrain :: bool
  rcap_SupportsPrefillDecodeSplit :: bool

record accelerator =
  ac_ID :: string
  ac_NodeID :: string
  ac_Vendor :: string
  ac_Model :: string
  ac_MemoryKind :: string
  ac_VRAMTotalMB :: i64
  ac_Driver :: string
  ac_RuntimeCapabilities :: "runtime_capabilities option"
  ac_VRAMUsedMB :: i64
  ac_VRAMFreeMB :: i64
  ac_UtilizationPct :: real
  ac_TemperatureC :: real
  ac_PowerDrawW :: real
  ac_PowerLimitW :: real
  ac_FanSpeedPct :: real
  ac_GraphicsClockMHz :: real
  ac_MemoryClockMHz :: real
  ac_PCIeGeneration :: int
  ac_PCIeWidth :: int
  ac_PerformanceState :: string

record node =
  nd_ID :: string
  nd_Name :: string
  nd_CapabilityVersion :: string
  nd_Capabilities :: residency_capabilities
  nd_Capacity :: capacity_budget
  nd_MaxAcceleratorsPerWorkload :: int
  nd_LocationClass :: string
  nd_PriorityTier :: string
  nd_SchedulingState :: string
  nd_Desired :: desired
  nd_Observed :: observed
  nd_Accelerators :: "accelerator list"
  nd_RegisteredAt :: time
  nd_UpdatedAt :: time

record engine_instance =
  ei_ID :: string
  ei_NodeID :: string
  ei_AcceleratorID :: string
  ei_ProfileID :: string
  ei_ManagedByController :: bool
  ei_PID :: int
  ei_State :: string
  ei_StartedAt :: time

section \<open>Measured performance\<close>

record stat =
  sta_Mean :: real
  sta_Stdev :: real
  sta_P95 :: real
  sta_Min :: real
  sta_Max :: real
  sta_N :: int

record hardware_identity =
  hw_GPUModel :: string
  hw_VRAMTotalMB :: i64
  hw_HostCPU :: string
  hw_HostRAMMB :: i64
  hw_PCIeInfo :: string

record evict_reload_stats =
  er_TSleepSeconds :: stat
  er_TWakeWeightsSeconds :: stat
  er_TFirstTokenAfterWakeSecs :: stat
  er_VRAMFreedMB :: stat
  er_ColdLoadSeconds :: real

record kv_probe_point =
  kv_ContextTokens :: int
  kv_TReprefillRecomputeSeconds :: real
  kv_TSlotSaveSeconds :: real
  kv_TSlotRestoreSeconds :: real
  kv_TResumePrefillSeconds :: real
  kv_ResumePrefillTokens :: int
  kv_KVFileMB :: real
  kv_KVReused :: bool

record throughput_point =
  tpt_ContextTokens :: int
  tpt_Concurrency :: int
  tpt_TokPerSec :: real

record performance_profile =
  pp_ID :: string
  pp_Hardware :: hardware_identity
  pp_RuntimeName :: string
  pp_RuntimeVersion :: string
  pp_ModelArtifactID :: string
  pp_Quantization :: string
  pp_ContextProfile :: int
  pp_ShardCount :: int
  pp_Concurrency :: int
  pp_VRAMFootprintMB :: i64
  pp_VRAMMeasurementMethod :: string
  pp_HostRAMFootprintMB :: i64
  pp_EvictReload :: evict_reload_stats
  pp_KV :: "kv_probe_point list"
  pp_Prefill :: "throughput_point list"
  pp_Decode :: "throughput_point list"
  pp_Capabilities :: runtime_capabilities
  pp_MeasuredAt :: time
  pp_SampleCount :: int
  pp_Notes :: "string list"

section \<open>Jobs\<close>

record job_progress =
  jp_Total :: int
  jp_Queued :: int
  jp_Running :: int
  jp_Success :: int
  jp_Failed :: int
  jp_Retried :: int

record job =
  jb_ID :: string
  jb_Operation :: string
  jb_Pool :: string
  jb_Status :: string
  jb_InputRef :: string
  jb_OutputRef :: string
  jb_CreatedAt :: time
  jb_UpdatedAt :: time
  jb_Priority :: string
  jb_MaxAttempts :: int
  jb_Progress :: job_progress

record work_item =
  wi_JobID :: string
  wi_ItemID :: string
  wi_OperationVersion :: string
  wi_State :: string
  wi_LeaseOwner :: string
  wi_LeaseExpiry :: time
  wi_Attempt :: int
  wi_ResultRef :: string
  wi_Payload :: json
  wi_TriedWorkers :: "string list"
  wi_LastError :: string
  wi_CreatedAt :: time
  wi_UpdatedAt :: time
  wi_Seq :: i64

section \<open>Workloads\<close>

record capability_requirements =
  cr_Features :: "string list"

record profile_preferences =
  prf_Preferred :: "string list"
  prf_Acceptable :: "string list"
  prf_FallbackPolicy :: string

record parallelism_policy =
  par_Parallelizable :: bool

record workload_bounds =
  wb_ContextTokens :: int
  wb_MaxOutput :: int
  wb_Frames :: int
  wb_Width :: int
  wb_Height :: int
  wb_Steps :: int

record notification_preferences =
  np_InApp :: bool
  np_Webhooks :: "string list"
  np_OnStart :: bool
  np_OnFinish :: bool

record workload_request =
  rq_ID :: string
  rq_PrincipalID :: string
  rq_OwnerID :: string
  rq_Plane :: string
  rq_Adapter :: string
  rq_WorkloadType :: string
  rq_Operation :: string
  rq_QualityClass :: string
  rq_CapabilityRequirements :: capability_requirements
  rq_ProfilePreferences :: profile_preferences
  rq_SessionID :: string
  rq_BatchID :: string
  rq_AffinityKey :: string
  rq_Ordered :: bool
  rq_Parallelism :: parallelism_policy
  rq_Dependencies :: "string list"
  rq_LatencyClass :: string
  rq_PriorityClass :: string
  rq_ContinuationRef :: string
  rq_CompatibilityToken :: string
  rq_Payload :: string
  rq_ArtifactRefs :: "string list"
  rq_ItemID :: string
  rq_PinnedTargetID :: string
  rq_OperationVersion :: string
  rq_IdempotencyKey :: string
  rq_QoS :: string
  rq_Priority :: int
  rq_Deadline :: "time option"
  rq_QueuePolicy :: string
  rq_Notifications :: notification_preferences
  rq_Disruption :: string
  rq_InterruptionConsent :: bool
  rq_Egress :: string
  rq_Bounds :: workload_bounds
  rq_PlacementKey :: string
  rq_PlacementPolicy :: string
  rq_InteractiveStream :: bool
  rq_Recoverable :: bool
  rq_ConcurrencyLimit :: int
  rq_BudgetLimitCents :: i64
  rq_TransformationPolicy :: string
  rq_Transformations :: "string list"
  rq_TransformationParameters :: string
  rq_PreemptionBudget :: int
  rq_CreatedAt :: time

record admission_decision =
  ad_Admitted :: bool
  ad_Blocker :: string
  ad_BlockerCode :: string
  ad_EstimatedStart :: "time option"
  ad_EstimatedEnd :: "time option"
  ad_RetryAfter :: "time option"
  ad_ETA :: "time option"
  ad_NotificationID :: string
  ad_Confidence :: real
  ad_Alternatives :: "string list"
  ad_TargetID :: string
  ad_AcceleratorID :: string
  ad_ContextLimit :: int
  ad_TargetSlots :: int
  ad_CapacitySource :: string
  ad_CapacityVerified :: bool
  ad_ProfileID :: string
  ad_ProfileVersion :: string
  ad_ProfileDigest :: string
  ad_CapabilityVersion :: string
  ad_WarmModelBytesVerified :: bool
  ad_SessionCheckpointable :: bool
  ad_MaxAcceleratorsPerWorkload :: int

record execution_plan =
  ep_ID :: string
  ep_WorkloadID :: string
  ep_PlanHash :: string
  ep_Adapter :: string
  ep_AdapterVersion :: string
  ep_TargetID :: string
  ep_RuntimeProtocol :: string
  ep_AcceleratorID :: string
  ep_CapabilityVersion :: string
  ep_CapabilityRevision :: string
  ep_TargetContextLimit :: int
  ep_TargetSlots :: int
  ep_ModelFingerprint :: string
  ep_CapacitySource :: string
  ep_CapacityVerified :: bool
  ep_EstimatedCostCents :: i64
  ep_InputCentsPerMTok :: i64
  ep_OutputCentsPerMTok :: i64
  ep_Provider :: string
  ep_Model :: string
  ep_ProfileID :: string
  ep_ProfileVersion :: string
  ep_ProfileDigest :: string
  ep_CapabilityDefinitionHash :: string
  ep_WarmModelBytesVerified :: bool
  ep_SessionCheckpointable :: bool
  ep_ExecutionLocality :: string
  ep_ResidencyTransitionIDs :: "string list"
  ep_Transformations :: "string list"
  ep_CreatedAt :: time
  ep_Material :: string

record execution_performance =
  xp_DurationMS :: real
  xp_TTFTMS :: real
  xp_PromptTokens :: i64
  xp_CompletionTokens :: i64
  xp_TotalTokens :: i64
  xp_PromptTPS :: real
  xp_DecodeTPS :: real
  xp_TotalTPS :: real
  xp_Source :: string

record execution_handle =
  eh_ExternalID :: string
  eh_Opaque :: string
  eh_StartedAt :: time
  eh_Performance :: "execution_performance option"

record workload =
  wl_Request :: workload_request
  wl_Revision :: u64
  wl_Status :: string
  wl_Decision :: admission_decision
  wl_Plan :: "execution_plan option"
  wl_Execution :: "execution_handle option"
  wl_Progress :: real
  wl_ProgressStage :: string
  wl_ProgressNode :: string
  wl_ProgressCurrent :: int
  wl_ProgressTotal :: int
  wl_OutputRefs :: "string list"
  wl_InlineOutput :: string
  wl_Error :: string
  wl_CreatedAt :: time
  wl_StartedAt :: "time option"
  wl_UpdatedAt :: time
  wl_FinishedAt :: "time option"
  wl_ExecutionAttempts :: int
  wl_TargetRetryAfter :: "(string, time) gomap"
  wl_CheckpointRef :: string
  wl_PreemptionCount :: int
  wl_RuntimePriority :: "int option"
  wl_ActualCostCents :: i64
  wl_PreemptionsInitiated :: int
  wl_TransitionPlanIDs :: "string list"
  wl_CancellationOwner :: string
  wl_BudgetReservationToken :: string
  wl_BudgetReservationAttempt :: u64
  wl_BudgetReservationCents :: i64
  wl_BudgetReservationLimitCents :: i64
  wl_BudgetReservationCurrency :: string
  wl_BudgetCleanupToken :: string
  wl_BudgetCleanupAttempt :: u64
  wl_BudgetSettlementPending :: bool
  wl_BudgetSettlementAttempt :: u64
  wl_BudgetSettlementActualCents :: i64

section \<open>Leases and residency\<close>

record accelerator_lease =
  ls_AcceleratorID :: string
  ls_WorkloadID :: string
  ls_FencingToken :: i64
  ls_ExpiresAt :: time

record lease_cleanup_intent =
  ci_AcceleratorID :: string
  ci_Owner :: string
  ci_FencingToken :: i64
  ci_WorkloadID :: string
  ci_ExpectedWorkloadRevision :: u64
  ci_TerminalDisposition :: string
  ci_TerminalErrorCode :: string
  ci_ReleaseConfirmed :: bool
  ci_TerminalPublished :: bool
  ci_AuditPublished :: bool
  ci_NotificationPublished :: bool
  ci_BudgetSettled :: bool
  ci_Attempts :: int
  ci_LastError :: string
  ci_CreatedAt :: time
  ci_UpdatedAt :: time
  ci_NextRetryAt :: "time option"

record model_residency =
  mr_ID :: string
  mr_Revision :: u64
  mr_TargetGeneration :: u64
  mr_ExecutionFingerprint :: string
  mr_TargetID :: string
  mr_AcceleratorID :: string
  mr_Adapter :: string
  mr_Model :: string
  mr_DesiredTier :: string
  mr_ObservedTier :: string
  mr_Policy :: string
  mr_CapacityVerified :: bool
  mr_WarmRAMSupported :: bool
  mr_WarmModelBytes :: i64
  mr_WarmModelBytesVerified :: bool
  mr_SessionCheckpointable :: bool
  mr_ReuseScore :: real
  mr_UseCount :: i64
  mr_LastUsedAt :: "time option"
  mr_LastLoadedAt :: "time option"
  mr_MinResidentUntil :: "time option"
  mr_IdleUnloadAfterSec :: int
  mr_LastError :: string
  mr_UpdatedAt :: time

record residency_transition =
  rt_ID :: string
  rt_IdempotencyKey :: string
  rt_TargetID :: string
  rt_AcceleratorID :: string
  rt_Model :: string
  rt_FromTier :: string
  rt_ToTier :: string
  rt_Reason :: string
  rt_RequestedBy :: string
  rt_WorkloadID :: string
  rt_Status :: string
  rt_Revision :: u64
  rt_TargetGeneration :: u64
  rt_ExecutionFingerprint :: string
  rt_FencingToken :: i64
  rt_LeaseOriginAcceleratorID :: string
  rt_LeaseOriginWorkloadID :: string
  rt_LeaseOriginFencingToken :: i64
  rt_LeaseOriginAllocated :: bool
  rt_Error :: string
  rt_ObservedTier :: string
  rt_WarmModelBytes :: i64
  rt_WarmModelBytesVerified :: bool
  rt_RuntimeIdentity :: string
  rt_CapabilityVersion :: string
  rt_CapabilityRevision :: string
  rt_ObservedFence :: i64
  rt_ProjectionRepairPending :: bool
  rt_CreatedAt :: time
  rt_StartedAt :: "time option"
  rt_FinishedAt :: "time option"

section \<open>Commands, budgets and other rows\<close>

record notification_delivery =
  nt_ID :: string
  nt_IdempotencyKey :: string
  nt_WorkloadID :: string
  nt_OwnerID :: string
  nt_EventType :: string
  nt_Destination :: string
  nt_Payload :: string
  nt_Signature :: string
  nt_Attempts :: int
  nt_NextAttemptAt :: time
  nt_DeliveredAt :: "time option"
  nt_FailedAt :: "time option"
  nt_LastError :: string
  nt_CreatedAt :: time
  nt_UpdatedAt :: time

record node_command =
  nc_ID :: string
  nc_Revision :: u64
  nc_IdempotencyKey :: string
  nc_NodeID :: string
  nc_Command :: string
  nc_Args :: json
  nc_IssuedBy :: string
  nc_Signature :: string
  nc_Status :: string
  nc_CreatedAt :: time
  nc_ExpiresAt :: time
  nc_SentAt :: "time option"
  nc_CompletedAt :: "time option"
  nc_Attempts :: int
  nc_LastSentAt :: "time option"
  nc_Result :: string
  nc_Error :: string
  nc_Uncertain :: bool
  nc_EvidenceKind :: string
  nc_ReconcilesCommandID :: string
  nc_RecoveryAttempts :: int
  nc_RecoveryNextAt :: "time option"
  nc_UpdatedAt :: time

record budget_reservation =
  br_WorkloadID :: string
  br_PrincipalID :: string
  br_Revision :: u64
  br_Attempt :: u64
  br_OwnershipToken :: string
  br_ReservedCents :: i64
  br_LimitCents :: i64
  br_Currency :: string
  br_ActualCents :: i64
  br_Status :: string
  br_CreatedAt :: time
  br_UpdatedAt :: time

record transformation_approval =
  ta_WorkloadID :: string
  ta_PlanHash :: string
  ta_ApproverID :: string
  ta_ApprovalMode :: string
  ta_CreatedAt :: time

record scheduler_learning_sample =
  sl_ID :: i64
  sl_AcceleratorID :: string
  sl_RuntimeVersion :: string
  sl_WorkloadClass :: string
  sl_Fingerprint :: string
  sl_Predicted :: string
  sl_Observed :: string
  sl_Outcome :: string
  sl_CreatedAt :: time

record interference_profile =
  ip_Key :: string
  ip_AcceleratorID :: string
  ip_RuntimeVersion :: string
  ip_WorkloadClasses :: "string list"
  ip_P95VRAMMB :: i64
  ip_P95DurationMS :: i64
  ip_PredictedSlowdown :: real
  ip_Samples :: int
  ip_Successes :: int
  ip_Rollbacks :: int
  ip_Confidence :: real
  ip_Version :: int
  ip_UpdatedAt :: time

record transition_step =
  ts_Action :: string
  ts_WorkloadID :: string
  ts_FromState :: string
  ts_ToState :: string
  ts_Policy :: string

record transition_plan =
  tp_ID :: string
  tp_WorkloadID :: string
  tp_VictimWorkloadID :: string
  tp_TargetID :: string
  tp_AcceleratorID :: string
  tp_Reason :: string
  tp_Steps :: "transition_step list"
  tp_Rollback :: "transition_step list"
  tp_EstimatedDuration :: string
  tp_EstimatedMemoryChangeMB :: i64
  tp_Status :: string
  tp_Error :: string
  tp_CreatedAt :: time
  tp_UpdatedAt :: time
  tp_FinishedAt :: "time option"

record target_policy_override =
  po_TargetID :: string
  po_Enabled :: bool
  po_Quarantined :: bool
  po_SharingEnabled :: bool
  po_GuardedExploration :: bool
  po_VRAMReserveMB :: i64
  po_MaxSlowdown :: real
  po_UpdatedBy :: string
  po_UpdatedAt :: time

record prompt_mapping =
  pm_PublicPromptID :: string
  pm_WorkloadID :: string
  pm_TargetID :: string
  pm_BackendPromptID :: string
  pm_ClientID :: string

record audit_event =
  ae_ID :: string
  ae_Timestamp :: time
  ae_ActorID :: string
  ae_OwnerID :: string
  ae_WorkloadID :: string
  ae_Type :: string
  ae_Severity :: string
  ae_Payload :: string

record incident =
  inc_ID :: string
  inc_OwnerID :: string
  inc_Severity :: string
  inc_Confidence :: real
  inc_Summary :: string
  inc_EvidenceRefs :: "string list"
  inc_Status :: string
  inc_Proposal :: string
  inc_RequestedModelTier :: string
  inc_EvidenceClassification :: string
  inc_EvidenceSanitized :: bool
  inc_Egress :: string
  inc_AnalysisWorkloadID :: string
  inc_ActualProvider :: string
  inc_ActualModel :: string
  inc_CreatedAt :: time
  inc_UpdatedAt :: time

record browser_session =
  bs_IDHash :: string
  bs_PrincipalID :: string
  bs_Plane :: string
  bs_OwnerID :: string
  bs_Scopes :: "string list"
  bs_Adapters :: "string list"
  bs_NodeID :: string
  bs_MaxPriority :: int
  bs_MaxIncidentSeverity :: string
  bs_EgressPolicy :: string
  bs_ConcurrencyLimit :: int
  bs_BudgetCents :: i64
  bs_PreemptionBudget :: int
  bs_Kind :: string
  bs_CSRFHash :: string
  bs_ExpiresAt :: time
  bs_CreatedAt :: time

record node_enrollment =
  ne_NodeID :: string
  ne_NodeName :: string
  ne_TokenHash :: string
  ne_Status :: string
  ne_CreatedAt :: time
  ne_UpdatedAt :: time

record runtime_availability =
  ra_Status :: string
  ra_ObservedAt :: time

record runtime_profile =
  rp_ProfileID :: string
  rp_Version :: string
  rp_Digest :: string
  rp_CapabilityRevision :: string
  rp_CapabilityDefinitionHash :: string
  rp_Modality :: string
  rp_ExecutionLocality :: string
  rp_Operations :: "string list"
  rp_Features :: "string list"
  rp_InputSchema :: json
  rp_OutputSchema :: json
  rp_AcceptedArtifactTypes :: "string list"
  rp_ProducedArtifactTypes :: "string list"
  rp_CompatibilityOperations :: "string list"
  rp_Availability :: "runtime_availability option"
  rp_Status :: string
  rp_CalibrationStatus :: string
  rp_Adapter :: string
  rp_Model :: string
  rp_Workflow :: string
  rp_CreatedAt :: time

record working_set =
  ws_OwnerID :: string
  ws_SessionID :: string
  ws_PhaseID :: string
  ws_PhaseType :: string
  ws_AffinityKey :: string
  ws_DesiredProfiles :: "string list"
  ws_LikelyNextProfiles :: "string list"
  ws_UnlikelyProfiles :: "string list"
  ws_CreatedAt :: time
  ws_UpdatedAt :: time
  ws_ReleasedAt :: "time option"

section \<open>Status constants\<close>

abbreviation WorkloadQueued :: string where "WorkloadQueued \<equiv> ''queued''"
abbreviation WorkloadWaiting :: string where "WorkloadWaiting \<equiv> ''waiting''"
abbreviation WorkloadRejected :: string where "WorkloadRejected \<equiv> ''rejected''"
abbreviation WorkloadPendingApproval :: string where "WorkloadPendingApproval \<equiv> ''pending_approval''"
abbreviation WorkloadRunning :: string where "WorkloadRunning \<equiv> ''running''"
abbreviation WorkloadSucceeded :: string where "WorkloadSucceeded \<equiv> ''succeeded''"
abbreviation WorkloadFailed :: string where "WorkloadFailed \<equiv> ''failed''"
abbreviation WorkloadCancelled :: string where "WorkloadCancelled \<equiv> ''cancelled''"
abbreviation TransitionPlanPlanned :: string where "TransitionPlanPlanned \<equiv> ''planned''"
abbreviation TransitionPlanExecuting :: string where "TransitionPlanExecuting \<equiv> ''executing''"
abbreviation TransitionPlanCompleted :: string where "TransitionPlanCompleted \<equiv> ''completed''"
abbreviation TransitionPlanFailed :: string where "TransitionPlanFailed \<equiv> ''failed''"
abbreviation TransitionPlanRolledBack :: string where "TransitionPlanRolledBack \<equiv> ''rolled_back''"
abbreviation ResidencyRemote :: string where "ResidencyRemote \<equiv> ''remote''"
abbreviation ResidencyColdDisk :: string where "ResidencyColdDisk \<equiv> ''cold_disk''"
abbreviation ResidencyWarmRAM :: string where "ResidencyWarmRAM \<equiv> ''warm_ram''"
abbreviation ResidencyHotVRAM :: string where "ResidencyHotVRAM \<equiv> ''hot_vram''"
abbreviation ResidencyTransitionPlanned :: string where "ResidencyTransitionPlanned \<equiv> ''planned''"
abbreviation ResidencyTransitionRunning :: string where "ResidencyTransitionRunning \<equiv> ''running''"
abbreviation ResidencyTransitionSucceeded :: string where "ResidencyTransitionSucceeded \<equiv> ''succeeded''"
abbreviation ResidencyTransitionFailed :: string where "ResidencyTransitionFailed \<equiv> ''failed''"
abbreviation ResidencyTransitionManualReconciliation :: string where "ResidencyTransitionManualReconciliation \<equiv> ''manual_reconciliation_required''"
abbreviation NodeCommandQueued :: string where "NodeCommandQueued \<equiv> ''queued''"
abbreviation NodeCommandSent :: string where "NodeCommandSent \<equiv> ''sent''"
abbreviation NodeCommandSucceeded :: string where "NodeCommandSucceeded \<equiv> ''succeeded''"
abbreviation NodeCommandFailed :: string where "NodeCommandFailed \<equiv> ''failed''"
abbreviation NodeCommandExpired :: string where "NodeCommandExpired \<equiv> ''expired''"
abbreviation BudgetReserved :: string where "BudgetReserved \<equiv> ''reserved''"
abbreviation BudgetSettled :: string where "BudgetSettled \<equiv> ''settled''"
abbreviation BudgetReleased :: string where "BudgetReleased \<equiv> ''released''"
abbreviation SchedulingEnabled :: string where "SchedulingEnabled \<equiv> ''enabled''"
abbreviation SchedulingDraining :: string where "SchedulingDraining \<equiv> ''draining''"
abbreviation SchedulingDisabled :: string where "SchedulingDisabled \<equiv> ''disabled''"
abbreviation ConnectivityConnected :: string where "ConnectivityConnected \<equiv> ''connected''"
abbreviation ConnectivitySuspect :: string where "ConnectivitySuspect \<equiv> ''suspect''"
abbreviation ConnectivityLost :: string where "ConnectivityLost \<equiv> ''lost''"
abbreviation ConnectivityOffline :: string where "ConnectivityOffline \<equiv> ''offline''"
abbreviation LifecycleOffline :: string where "LifecycleOffline \<equiv> ''offline''"
abbreviation LifecyclePoweringOn :: string where "LifecyclePoweringOn \<equiv> ''powering_on''"
abbreviation LifecycleBooting :: string where "LifecycleBooting \<equiv> ''booting''"
abbreviation LifecycleConnected :: string where "LifecycleConnected \<equiv> ''connected''"
abbreviation LifecycleProbing :: string where "LifecycleProbing \<equiv> ''probing''"
abbreviation LifecycleReconciling :: string where "LifecycleReconciling \<equiv> ''reconciling''"
abbreviation LifecycleLoading :: string where "LifecycleLoading \<equiv> ''loading''"
abbreviation LifecycleWarming :: string where "LifecycleWarming \<equiv> ''warming''"
abbreviation LifecycleReady :: string where "LifecycleReady \<equiv> ''ready''"
abbreviation LifecycleBusy :: string where "LifecycleBusy \<equiv> ''busy''"
abbreviation LifecycleDraining :: string where "LifecycleDraining \<equiv> ''draining''"
abbreviation LifecycleShuttingDwn :: string where "LifecycleShuttingDwn \<equiv> ''shutting_down''"
abbreviation LifecycleError :: string where "LifecycleError \<equiv> ''error''"
abbreviation JobPending :: string where "JobPending \<equiv> ''pending''"
abbreviation JobRunning :: string where "JobRunning \<equiv> ''running''"
abbreviation JobPaused :: string where "JobPaused \<equiv> ''paused''"
abbreviation JobCancelled :: string where "JobCancelled \<equiv> ''cancelled''"
abbreviation JobCompleted :: string where "JobCompleted \<equiv> ''completed''"
abbreviation JobCompletedWithErrors :: string where "JobCompletedWithErrors \<equiv> ''completed_with_errors''"
abbreviation WorkItemQueued :: string where "WorkItemQueued \<equiv> ''queued''"
abbreviation WorkItemLeased :: string where "WorkItemLeased \<equiv> ''leased''"
abbreviation WorkItemRunning :: string where "WorkItemRunning \<equiv> ''running''"
abbreviation WorkItemSuccess :: string where "WorkItemSuccess \<equiv> ''success''"
abbreviation WorkItemFailed :: string where "WorkItemFailed \<equiv> ''failed''"
abbreviation WorkItemLeaseExpired :: string where "WorkItemLeaseExpired \<equiv> ''lease_expired''"
abbreviation WorkItemCancelled :: string where "WorkItemCancelled \<equiv> ''cancelled''"

end
