(* ===== verification/Store_State.thy ===== *)
theory Store_State
  imports Domain_Types
begin

text \<open>
  The state of \<open>internal/store/memory.go\<close>: the rows declared by the store package itself
  (checkpoint operations, displacement operations, model capacities) and \<open>memory_store\<close>, one
  field per map or slice of \<open>MemoryStore\<close> under its Go name. Every exported method of the Go
  type holds \<open>m.mu\<close> for its whole critical section, so a method is one atomic function from
  state to state and result; \<open>time.Now()\<close> is its argument \<open>now\<close>. A slice of rows is a list, a
  map is a \<open>gomap\<close>. The \<open>clone*\<close> helpers, which only break aliasing, are the identity on values.
\<close>

section \<open>Rows declared by the store\<close>

record llm_checkpoint_operation =
  ck_ID :: string
  ck_IdempotencyKey :: string
  ck_OwnerID :: string
  ck_WorkloadID :: string
  ck_NodeID :: string
  ck_AcceleratorID :: string
  ck_TargetID :: string
  ck_Model :: string
  ck_SlotID :: int
  ck_Generation :: u64
  ck_Fence :: u64
  ck_RuntimeIdentity :: string
  ck_ModelFingerprint :: string
  ck_ProfileFingerprint :: string
  ck_ContextFingerprint :: string
  ck_ConversationID :: string
  ck_ContinuationConversationID :: string
  ck_CompensationOf :: string
  ck_WorkloadRevision :: u64
  ck_RecoveryWorkloadRevision :: u64
  ck_RecoveryState :: string
  ck_RecoveryHandle :: "execution_handle option"
  ck_RecoveryFence :: u64
  ck_RecoveryAcceleratorID :: string
  ck_CleanupOperationID :: string
  ck_CleanupSlotID :: int
  ck_CleanupConversationID :: string
  ck_CleanupContinuationConversationID :: string
  ck_CleanupState :: string
  ck_CleanupHandle :: "execution_handle option"
  ck_CleanupTargetID :: string
  ck_CleanupNodeID :: string
  ck_CleanupAcceleratorID :: string
  ck_CleanupGeneration :: u64
  ck_CleanupFence :: u64
  ck_CleanupTerminalDisposition :: string
  ck_CleanupMessage :: string
  ck_SnapshotName :: string
  ck_SnapshotDigest :: string
  ck_Phase :: string
  ck_PhaseOrdinal :: int
  ck_PartialOutputHash :: string
  ck_PartialOutputOffset :: int
  ck_PartialOutputContent :: string
  ck_PartialOutputUnsafeToolCall :: bool
  ck_SavedTokens :: int
  ck_ReusedTokens :: int
  ck_QuotaBytes :: i64
  ck_SnapshotBytes :: i64
  ck_CreatedAt :: time
  ck_UpdatedAt :: time
  ck_Error :: string
  ck_Revision :: u64

record displacement_command_intent =
  dci_Step :: string
  dci_CommandID :: string
  dci_Digest :: string
  dci_Signature :: string

record displacement_model_binding =
  dmb_TargetID :: string
  dmb_NodeID :: string
  dmb_AcceleratorID :: string
  dmb_CatalogModel :: string
  dmb_CatalogAliases :: "string list"
  dmb_ActualAlias :: string
  dmb_LocalPlanID :: string
  dmb_LocalPlanHash :: string
  dmb_ControllerPlanID :: string
  dmb_ControllerPlanHash :: string
  dmb_ArtifactID :: string
  dmb_ArtifactDigest :: string
  dmb_RuntimeIdentity :: string
  dmb_ProfileIdentity :: string
  dmb_ContextIdentity :: string
  dmb_CheckpointID :: string
  dmb_CheckpointDigest :: string
  dmb_ProofBinding :: string

record displacement_observed_result =
  dor_Step :: string
  dor_CommandID :: string
  dor_ResultID :: string
  dor_Digest :: string
  dor_ProofBinding :: string
  dor_KeyID :: string
  dor_Signature :: string
  dor_EnvelopeDigest :: string

record llm_displacement_operation =
  dp_ID :: string
  dp_IdempotencyKey :: string
  dp_OwnerID :: string
  dp_VictimWorkloadID :: string
  dp_VictimOwnerID :: string
  dp_VictimWorkloadRevision :: u64
  dp_UrgentWorkloadID :: string
  dp_UrgentOwnerID :: string
  dp_UrgentWorkloadRevision :: u64
  dp_AcceleratorID :: string
  dp_NodeID :: string
  dp_OriginalLease :: "accelerator_lease option"
  dp_Fence :: u64
  dp_VictimBinding :: displacement_model_binding
  dp_UrgentBinding :: displacement_model_binding
  dp_ProofBinding :: string
  dp_Phase :: string
  dp_Revision :: u64
  dp_CommandIntents :: "displacement_command_intent list"
  dp_ObservedResults :: "displacement_observed_result list"
  dp_SnapshotIdentity :: string
  dp_SafeBoundaryObserved :: bool
  dp_VictimStopObserved :: bool
  dp_SnapshotObserved :: bool
  dp_UrgentLoadObserved :: bool
  dp_UrgentStopObserved :: bool
  dp_VictimReloadObserved :: bool
  dp_KVRestoreObserved :: bool
  dp_LeaseSettled :: bool
  dp_SnapshotCustodySettled :: bool
  dp_ObservedProof :: string
  dp_LastError :: string
  dp_CreatedAt :: time
  dp_UpdatedAt :: time

record model_capacity =
  mc_ID :: string
  mc_TargetID :: string
  mc_AcceleratorID :: string
  mc_Model :: string
  mc_ProfileID :: string
  mc_ModelFingerprint :: string
  mc_RuntimeIdentity :: string
  mc_CapabilityVersion :: string
  mc_CapabilityRevision :: string
  mc_ModelBytes :: i64
  mc_ProfileBytes :: i64
  mc_VRAMReserveBytes :: i64
  mc_RuntimeHardCapBytes :: i64
  mc_RAMBytes :: i64
  mc_RAMReserveBytes :: i64
  mc_VRAMTotalBytes :: i64
  mc_RAMTotalBytes :: i64
  mc_UnifiedMemory :: bool
  mc_CapacitySource :: string
  mc_Verified :: bool
  mc_Revision :: u64
  mc_UpdatedAt :: time
  mc_ObservedAt :: time

section \<open>The store\<close>

record memory_store =
  nodes :: "(string, node) gomap"
  engines :: "(string, engine_instance) gomap"
  profiles :: "(string, performance_profile list) gomap"
  jobs :: "(string, job) gomap"
  workItems :: "(string, (string, (string, work_item) gomap) gomap) gomap"
  workloads :: "(string, workload) gomap"
  idempotency :: "(string, string) gomap"
  leases :: "(string, accelerator_lease) gomap"
  leaseFences :: "(string, i64) gomap"
  leaseCleanupIntents :: "(string, lease_cleanup_intent) gomap"
  promptMappings :: "(string, prompt_mapping) gomap"
  auditEvents :: "audit_event list"
  incidents :: "(string, incident) gomap"
  residencies :: "(string, model_residency) gomap"
  transitions :: "(string, residency_transition) gomap"
  transitionKeys :: "(string, string) gomap"
  notifications :: "(string, notification_delivery) gomap"
  notificationKeys :: "(string, string) gomap"
  nodeCommands :: "(string, node_command) gomap"
  nodeCommandKeys :: "(string, string) gomap"
  budgets :: "(string, budget_reservation) gomap"
  transformApprovals :: "(string, transformation_approval) gomap"
  learningSamples :: "scheduler_learning_sample list"
  interferenceProfiles :: "(string, interference_profile) gomap"
  transitionPlans :: "(string, transition_plan) gomap"
  targetPolicyOverrides :: "(string, target_policy_override) gomap"
  browserSessions :: "(string, browser_session) gomap"
  nodeEnrollments :: "(string, node_enrollment) gomap"
  runtimeProfiles :: "(string, runtime_profile) gomap"
  workingSets :: "(string, working_set) gomap"
  modelCapacities :: "(string, model_capacity) gomap"
  llmCheckpointOps :: "(string, llm_checkpoint_operation) gomap"
  llmCheckpointKeys :: "(string, string) gomap"
  llmDisplacementOps :: "(string, llm_displacement_operation) gomap"
  llmDisplacementKeys :: "(string, string) gomap"

definition NewMemoryStore :: memory_store where
  "NewMemoryStore = \<lparr>
     nodes = [],
     engines = [],
     profiles = [],
     jobs = [],
     workItems = [],
     workloads = [],
     idempotency = [],
     leases = [],
     leaseFences = [],
     leaseCleanupIntents = [],
     promptMappings = [],
     auditEvents = [],
     incidents = [],
     residencies = [],
     transitions = [],
     transitionKeys = [],
     notifications = [],
     notificationKeys = [],
     nodeCommands = [],
     nodeCommandKeys = [],
     budgets = [],
     transformApprovals = [],
     learningSamples = [],
     interferenceProfiles = [],
     transitionPlans = [],
     targetPolicyOverrides = [],
     browserSessions = [],
     nodeEnrollments = [],
     runtimeProfiles = [],
     workingSets = [],
     modelCapacities = [],
     llmCheckpointOps = [],
     llmCheckpointKeys = [],
     llmDisplacementOps = [],
     llmDisplacementKeys = []\<rparr>"

end
