(* ===== verification/Checkpoints.thy ===== *)
theory Checkpoints
  imports Store_State Tables "HOL-Library.Product_Lexorder"
begin

text \<open>
  Checkpoint operations: the phase vocabulary and transition graph of
  \<open>internal/store/store.go\<close> and the operations of \<open>internal/store/memory.go\<close> that create,
  read, update and list the durable rows. The lemmas show that a slot of an accelerator is
  held by one row at a time, that a row's identity never changes, that phases only move along
  the transition graph and stop in the final phases, and that creation is idempotent and
  updates are compare-and-swap.
\<close>

section \<open>Phases\<close>

definition llmCheckpointTerminalPhases :: "string list" where
  "llmCheckpointTerminalPhases =
     [''completed'', ''failed'', ''cancelled'', ''released'', ''restore_failed'']"

definition llmCheckpointFinalPhases :: "string list" where
  "llmCheckpointFinalPhases = [''completed'', ''failed'', ''cancelled'', ''restore_failed'']"

definition llmCheckpointPhaseIsTerminal :: "string \<Rightarrow> bool" where
  "llmCheckpointPhaseIsTerminal phase = (phase \<in> set llmCheckpointTerminalPhases)"

definition llmCheckpointPhaseIsFinal :: "string \<Rightarrow> bool" where
  "llmCheckpointPhaseIsFinal phase = (phase \<in> set llmCheckpointFinalPhases)"

definition llmCheckpointHoldsSlot :: "string \<Rightarrow> bool" where
  "llmCheckpointHoldsSlot phase = (\<not> llmCheckpointPhaseIsTerminal phase)"

definition phase_ordinals :: "(string \<times> int) list" where
  "phase_ordinals =
     [(''planned'', 1), (''assigned'', 1), (''started'', 2), (''paused'', 3), (''saved'', 4),
      (''stopped'', 5), (''released'', 6), (''restore_planned'', 6), (''restore_assigned'', 8),
      (''reloaded'', 9), (''restored'', 10), (''resumed'', 11), (''continued'', 12),
      (''reused'', 13), (''completed'', 15), (''failed'', 15), (''cancelled'', 15),
      (''restore_failed'', 15)]"

definition llmCheckpointPhaseOrdinal :: "string \<Rightarrow> int" where
  "llmCheckpointPhaseOrdinal phase = mget_zero 0 phase_ordinals (ToLower (TrimSpace phase))"

definition llmCheckpointPhaseKnown :: "string \<Rightarrow> bool" where
  "llmCheckpointPhaseKnown phase = (llmCheckpointPhaseOrdinal phase > 0)"

definition phase_edges :: "(string \<times> string list) list" where
  "phase_edges =
     [(''planned'', [''assigned'', ''failed'', ''cancelled'']),
      (''assigned'', [''started'', ''failed'', ''cancelled'']),
      (''started'', [''paused'', ''stopped'', ''failed'', ''cancelled'']),
      (''paused'', [''saved'', ''failed'', ''cancelled'']),
      (''saved'', [''stopped'', ''failed'', ''cancelled'']),
      (''stopped'', [''released'', ''failed'', ''cancelled'']),
      (''released'', [''restore_planned'', ''completed'', ''failed'', ''cancelled'']),
      (''restore_planned'', [''restore_assigned'', ''restore_failed'', ''failed'', ''cancelled'']),
      (''restore_assigned'', [''reloaded'', ''restore_failed'', ''failed'', ''cancelled'']),
      (''reloaded'', [''restored'', ''restore_failed'', ''failed'', ''cancelled'']),
      (''restored'', [''resumed'', ''restore_failed'', ''failed'', ''cancelled'']),
      (''resumed'', [''continued'', ''restore_failed'', ''failed'', ''cancelled'']),
      (''continued'', [''reused'', ''restore_failed'', ''failed'', ''cancelled'']),
      (''reused'', [''completed'', ''failed'', ''cancelled''])]"

definition llmCheckpointTransitionAllowed :: "string \<Rightarrow> string \<Rightarrow> bool" where
  "llmCheckpointTransitionAllowed src dst =
     (if src = '''' \<or> dst = '''' then False
      else if src = dst then True
      else if \<not> llmCheckpointPhaseKnown src \<or> \<not> llmCheckpointPhaseKnown dst \<or>
              llmCheckpointPhaseIsFinal src then False
      else dst \<in> set (mget_zero [] phase_edges src))"

section \<open>Validation\<close>

definition validateLLMCheckpointCleanup :: "llm_checkpoint_operation \<Rightarrow> error option" where
  "validateLLMCheckpointCleanup p =
     (if ck_CleanupState p = '''' then None
      else if ck_CleanupState p \<notin> set [''armed'', ''owned'', ''pending'', ''failed'', ''stopped'', ''confirmed'']
      then Some (Err ''checkpoint cleanup state is invalid'')
      else if ck_CleanupState p = ''confirmed'' then None
      else if blank (ck_CleanupTargetID p) \<or> blank (ck_CleanupAcceleratorID p) \<or>
              ck_CleanupFence p = 0 \<or> ck_CleanupGeneration p = 0
      then Some (Err ''checkpoint cleanup identity is incomplete'')
      else if ck_CleanupSlotID p < -1 then Some (Err ''checkpoint cleanup slot is invalid'')
      else if (case ck_CleanupHandle p of None \<Rightarrow> False | Some h \<Rightarrow> blank (eh_ExternalID h))
      then Some (Err ''checkpoint cleanup handle identity is incomplete'')
      else if ck_CleanupTerminalDisposition p \<noteq> '''' \<and> ck_CleanupTerminalDisposition p \<noteq> ''success'' \<and>
              ck_CleanupTerminalDisposition p \<noteq> ''failure'' \<and> ck_CleanupTerminalDisposition p \<noteq> ''cancel''
      then Some (Err ''checkpoint cleanup terminal disposition is invalid'')
      else if length (ck_CleanupMessage p) > 2048
      then Some (Err ''checkpoint cleanup message is too long'')
      else None)"

definition validateLLMCheckpointRequiredIdentity :: "llm_checkpoint_operation option \<Rightarrow> error option" where
  "validateLLMCheckpointRequiredIdentity op =
     (case op of
        None \<Rightarrow> Some (Err ''checkpoint operation identity is incomplete'')
      | Some p \<Rightarrow>
     if blank (ck_ID p) \<or> blank (ck_IdempotencyKey p) \<or> blank (ck_OwnerID p) \<or>
        blank (ck_WorkloadID p) \<or> blank (ck_NodeID p) \<or> blank (ck_TargetID p) \<or>
        blank (ck_AcceleratorID p) \<or> blank (ck_RuntimeIdentity p) \<or> blank (ck_Model p) \<or>
        blank (ck_ModelFingerprint p) \<or> blank (ck_ProfileFingerprint p) \<or>
        blank (ck_ContextFingerprint p) \<or> ck_Generation p = 0 \<or> ck_Fence p = 0 \<or>
        blank (ck_Phase p)
     then Some (Err ''checkpoint operation identity is incomplete'')
     else if ck_WorkloadRevision p = 0
     then Some (Err ''checkpoint operation workload revision is required'')
     else if ck_PhaseOrdinal p \<le> 0 \<or> llmCheckpointPhaseOrdinal (ck_Phase p) \<le> 0 \<or>
             ck_PhaseOrdinal p \<noteq> llmCheckpointPhaseOrdinal (ck_Phase p)
     then Some (Err ''checkpoint operation phase or ordinal is invalid'')
     else if blank (ck_ConversationID p)
     then Some (Err ''checkpoint operation conversation identity is incomplete'')
     else if ck_SlotID p < -1 then Some (Err ''checkpoint operation slot is invalid'')
     else validateLLMCheckpointCleanup p)"

definition llmCheckpointIdentityEqual ::
    "llm_checkpoint_operation \<Rightarrow> llm_checkpoint_operation \<Rightarrow> bool \<Rightarrow> bool" where
  "llmCheckpointIdentityEqual a b includeSlot \<longleftrightarrow>
     ck_ID a = ck_ID b \<and> ck_IdempotencyKey a = ck_IdempotencyKey b \<and>
     ck_OwnerID a = ck_OwnerID b \<and> ck_WorkloadID a = ck_WorkloadID b \<and>
     ck_WorkloadRevision a = ck_WorkloadRevision b \<and> ck_NodeID a = ck_NodeID b \<and>
     ck_AcceleratorID a = ck_AcceleratorID b \<and> ck_TargetID a = ck_TargetID b \<and>
     ck_Model a = ck_Model b \<and> (\<not> includeSlot \<or> ck_SlotID a = ck_SlotID b) \<and>
     ck_Generation a = ck_Generation b \<and> ck_Fence a = ck_Fence b \<and>
     ck_RuntimeIdentity a = ck_RuntimeIdentity b \<and>
     ck_ModelFingerprint a = ck_ModelFingerprint b \<and>
     ck_ProfileFingerprint a = ck_ProfileFingerprint b \<and>
     ck_ContextFingerprint a = ck_ContextFingerprint b \<and>
     ck_ConversationID a = ck_ConversationID b \<and>
     ck_ContinuationConversationID a = ck_ContinuationConversationID b \<and>
     ck_CompensationOf a = ck_CompensationOf b"

definition sameLLMCheckpointIdentity :: "llm_checkpoint_operation \<Rightarrow> llm_checkpoint_operation \<Rightarrow> bool" where
  "sameLLMCheckpointIdentity a b = llmCheckpointIdentityEqual a b True"

definition llmCheckpointImmutableIdentityEqual ::
    "llm_checkpoint_operation \<Rightarrow> llm_checkpoint_operation \<Rightarrow> bool" where
  "llmCheckpointImmutableIdentityEqual a b = llmCheckpointIdentityEqual a b False"

definition llmCheckpointTransitionAllowedFor ::
    "llm_checkpoint_operation \<Rightarrow> llm_checkpoint_operation \<Rightarrow> bool" where
  "llmCheckpointTransitionAllowedFor src dst =
     (if ck_Phase src = ck_Phase dst then True
      else llmCheckpointTransitionAllowed (ck_Phase src) (ck_Phase dst))"

section \<open>Operations\<close>

definition canonicalLLMCheckpointTime :: "time \<Rightarrow> time" where
  "canonicalLLMCheckpointTime t = (if t = 0 then t else truncate_us t)"

definition conversation_seed :: "llm_checkpoint_operation \<Rightarrow> string" where
  "conversation_seed p =
     ''conv-'' @ hex_encode (take 12 (sha256
       (ck_OwnerID p @ ''|'' @ ck_WorkloadID p @ ''|'' @ show_nat (unat (ck_Generation p)) @ ''|'' @
        show_nat (unat (ck_Fence p)) @ ''|'' @ ck_ID p)))"

definition checkpoint_root_error :: "llm_checkpoint_operation \<Rightarrow> error option" where
  "checkpoint_root_error p =
     (let phase = ToLower (TrimSpace (ck_Phase p)) in
      if phase = ''planned'' then
        (if ck_SnapshotName p \<noteq> '''' \<or> ck_CompensationOf p \<noteq> '''' \<or> ck_RecoveryState p \<noteq> ''''
         then Some (Err ''checkpoint planned root has unexpected recovery identity'') else None)
      else if phase = ''restore_planned'' then
        (if blank (ck_SnapshotName p) \<or>
            (blank (ck_CompensationOf p) \<and> TrimSpace (ck_RecoveryState p) \<noteq> ''pending'' \<and>
             ck_WorkloadRevision p = 0)
         then Some (Err ''checkpoint restore root requires snapshot and recovery justification'')
         else None)
      else Some (Err ''checkpoint create phase must be planned or justified restore_planned''))"

definition prepareLLMCheckpointCreate ::
    "time \<Rightarrow> llm_checkpoint_operation option \<Rightarrow> error + llm_checkpoint_operation" where
  "prepareLLMCheckpointCreate now op =
     (case op of
        None \<Rightarrow> Inl (Err ''checkpoint operation identity is incomplete'')
      | Some p \<Rightarrow>
     (let c = (if blank (ck_ConversationID p) then p\<lparr>ck_ConversationID := conversation_seed p\<rparr> else p);
          c = (if ck_PhaseOrdinal c = 0
               then c\<lparr>ck_PhaseOrdinal := llmCheckpointPhaseOrdinal (ck_Phase c)\<rparr> else c)
      in case checkpoint_root_error c of
           Some err \<Rightarrow> Inl err
         | None \<Rightarrow>
        (case validateLLMCheckpointRequiredIdentity (Some c) of
           Some err \<Rightarrow> Inl err
         | None \<Rightarrow>
             (let created = (if ck_CreatedAt c = 0 then truncate_us now
                             else canonicalLLMCheckpointTime (ck_CreatedAt c))
              in Inr (c\<lparr>ck_Revision := 1, ck_CreatedAt := created,
                        ck_UpdatedAt := (if ck_UpdatedAt c = 0 then created
                                         else canonicalLLMCheckpointTime (ck_UpdatedAt c))\<rparr>)))))"

definition same_slot :: "llm_checkpoint_operation \<Rightarrow> llm_checkpoint_operation \<Rightarrow> bool" where
  "same_slot a b \<longleftrightarrow>
     ck_TargetID a = ck_TargetID b \<and> ck_AcceleratorID a = ck_AcceleratorID b \<and>
     0 \<le> ck_SlotID a \<and> ck_SlotID a = ck_SlotID b \<and>
     llmCheckpointHoldsSlot (ck_Phase a) \<and> llmCheckpointHoldsSlot (ck_Phase b)"

definition checkpoint_key :: "llm_checkpoint_operation \<Rightarrow> string" where
  "checkpoint_key p = nul_join (ck_OwnerID p) (ck_IdempotencyKey p)"

definition CreateLLMCheckpointOperation ::
    "time \<Rightarrow> memory_store \<Rightarrow> llm_checkpoint_operation option \<Rightarrow>
     memory_store \<times> (error + llm_checkpoint_operation \<times> bool)" where
  "CreateLLMCheckpointOperation now m op =
     (case prepareLLMCheckpointCreate now op of
        Inl err \<Rightarrow> (m, Inl err)
      | Inr prepared \<Rightarrow>
     (case map_of (llmCheckpointOps m) (ck_ID prepared) of
        Some existing \<Rightarrow>
          if sameLLMCheckpointIdentity existing prepared then (m, Inr (existing, False))
          else (m, Inl ErrLLMCheckpointConflict)
      | None \<Rightarrow>
     (let key = checkpoint_key prepared; rid = mget_zero '''' (llmCheckpointKeys m) key in
      if rid \<noteq> '''' then
        (case map_of (llmCheckpointOps m) rid of
           Some existing \<Rightarrow>
             if sameLLMCheckpointIdentity existing prepared then (m, Inr (existing, False))
             else (m, Inl ErrLLMCheckpointConflict)
         | None \<Rightarrow> (m, Inl ErrLLMCheckpointConflict))
      else if list_ex (\<lambda>existing. same_slot existing prepared) (mvalues (llmCheckpointOps m))
      then (m, Inl ErrLLMCheckpointConflict)
      else (m\<lparr>llmCheckpointOps := mput (ck_ID prepared) prepared (llmCheckpointOps m),
               llmCheckpointKeys := mput key (ck_ID prepared) (llmCheckpointKeys m)\<rparr>,
            Inr (prepared, True)))))"

definition GetLLMCheckpointOperation ::
    "memory_store \<Rightarrow> string \<Rightarrow> error + llm_checkpoint_operation" where
  "GetLLMCheckpointOperation m rid =
     (case map_of (llmCheckpointOps m) rid of Some p \<Rightarrow> Inr p | None \<Rightarrow> Inl ErrNotFound)"

definition GetLLMCheckpointOperationByIdempotency ::
    "memory_store \<Rightarrow> string \<Rightarrow> string \<Rightarrow> error + llm_checkpoint_operation" where
  "GetLLMCheckpointOperationByIdempotency m owner key =
     (let rid = mget_zero '''' (llmCheckpointKeys m) (nul_join owner key) in
      if rid = '''' then Inl ErrNotFound
      else case map_of (llmCheckpointOps m) rid of None \<Rightarrow> Inl ErrNotFound | Some p \<Rightarrow> Inr p)"

definition UpdateLLMCheckpointOperation ::
    "time \<Rightarrow> u64 \<Rightarrow> memory_store \<Rightarrow> llm_checkpoint_operation option \<Rightarrow>
     memory_store \<times> (error + llm_checkpoint_operation)" where
  "UpdateLLMCheckpointOperation now expected m op =
     (let op = map_option (\<lambda>p. if ck_ConversationID p = ''''
                               then p\<lparr>ck_ConversationID := conversation_seed p\<rparr> else p) op
      in case validateLLMCheckpointRequiredIdentity op of
           Some err \<Rightarrow> (m, Inl err)
         | None \<Rightarrow>
           if expected = 0 then (m, Inl ErrLLMCheckpointConflict)
           else
        (case op of
           None \<Rightarrow> (m, Inl (Err ''checkpoint operation identity is incomplete''))
         | Some p \<Rightarrow>
        (case map_of (llmCheckpointOps m) (ck_ID p) of
           None \<Rightarrow> (m, Inl ErrNotFound)
         | Some current \<Rightarrow>
           if ck_Revision current \<noteq> expected then (m, Inl ErrLLMCheckpointConflict)
           else if \<not> llmCheckpointImmutableIdentityEqual current p
           then (m, Inl ErrLLMCheckpointConflict)
           else if \<not> llmCheckpointTransitionAllowedFor current p
           then (m, Inl ErrLLMCheckpointConflict)
           else if list_ex (\<lambda>(rid, existing). rid \<noteq> ck_ID p \<and> same_slot existing p) (llmCheckpointOps m)
           then (m, Inl ErrLLMCheckpointConflict)
           else
             (let c = p\<lparr>ck_CreatedAt := ck_CreatedAt current, ck_Revision := ck_Revision current + 1,
                        ck_UpdatedAt := truncate_us now\<rparr>
              in (m\<lparr>llmCheckpointOps := mput (ck_ID p) c (llmCheckpointOps m)\<rparr>, Inr c)))))"

definition ListLLMCheckpointOperations :: "memory_store \<Rightarrow> string \<Rightarrow> llm_checkpoint_operation list" where
  "ListLLMCheckpointOperations m owner =
     sort_key (\<lambda>p. (ck_UpdatedAt p, ck_ID p))
       (filter (\<lambda>p. owner = '''' \<or> ck_OwnerID p = owner) (mvalues (llmCheckpointOps m)))"

text \<open>The steps a checkpoint caller can make.\<close>

inductive checkpoint_step :: "memory_store \<Rightarrow> memory_store \<Rightarrow> bool" where
  create_checkpoint: "checkpoint_step m (fst (CreateLLMCheckpointOperation now m op))"
| update_checkpoint: "checkpoint_step m (fst (UpdateLLMCheckpointOperation now expected m op))"

inductive_cases checkpoint_stepE: "checkpoint_step m m'"

section \<open>What the operations do\<close>

lemma validate_ignores_version [simp]:
  "validateLLMCheckpointRequiredIdentity
     (Some (p\<lparr>ck_CreatedAt := a, ck_Revision := b, ck_UpdatedAt := c\<rparr>)) =
   validateLLMCheckpointRequiredIdentity (Some p)"
  "validateLLMCheckpointRequiredIdentity
     (Some (p\<lparr>ck_Revision := b, ck_CreatedAt := a, ck_UpdatedAt := c\<rparr>)) =
   validateLLMCheckpointRequiredIdentity (Some p)"
  by (simp_all add: validateLLMCheckpointRequiredIdentity_def validateLLMCheckpointCleanup_def)

text \<open>The operation a create prepares, before its version fields are set.\<close>

definition prepared_identity :: "llm_checkpoint_operation \<Rightarrow> llm_checkpoint_operation" where
  "prepared_identity p =
     (let c = (if blank (ck_ConversationID p) then p\<lparr>ck_ConversationID := conversation_seed p\<rparr> else p)
      in if ck_PhaseOrdinal c = 0
         then c\<lparr>ck_PhaseOrdinal := llmCheckpointPhaseOrdinal (ck_Phase c)\<rparr> else c)"

lemma prepare_okD:
  assumes "prepareLLMCheckpointCreate now op = Inr p"
  obtains q created updated where "op = Some q"
    and "checkpoint_root_error (prepared_identity q) = None"
    and "validateLLMCheckpointRequiredIdentity (Some (prepared_identity q)) = None"
    and "p = (prepared_identity q)\<lparr>ck_Revision := 1, ck_CreatedAt := created, ck_UpdatedAt := updated\<rparr>"
  using assms unfolding prepareLLMCheckpointCreate_def Let_def prepared_identity_def [unfolded Let_def, symmetric]
  by (cases op) (simp_all add: guards, blast)

lemma prepare_any_time:
  assumes "prepareLLMCheckpointCreate now op = Inr p"
  shows "\<exists>p'. prepareLLMCheckpointCreate now' op = Inr p' \<and> sameLLMCheckpointIdentity p p'"
proof -
  obtain q created updated where q: "op = Some q"
      "checkpoint_root_error (prepared_identity q) = None"
      "validateLLMCheckpointRequiredIdentity (Some (prepared_identity q)) = None"
      "p = (prepared_identity q)\<lparr>ck_Revision := 1, ck_CreatedAt := created, ck_UpdatedAt := updated\<rparr>"
    using assms by (rule prepare_okD)
  then show ?thesis
    unfolding prepareLLMCheckpointCreate_def Let_def prepared_identity_def [unfolded Let_def, symmetric]
    by (simp add: sameLLMCheckpointIdentity_def llmCheckpointIdentityEqual_def)
qed

lemma create_checkpoint_newD:
  assumes "CreateLLMCheckpointOperation now m op = (m', Inr (v, True))"
  shows "prepareLLMCheckpointCreate now op = Inr v"
    and "map_of (llmCheckpointOps m) (ck_ID v) = None"
    and "mget_zero '''' (llmCheckpointKeys m) (checkpoint_key v) = ''''"
    and "\<forall>p \<in> set (mvalues (llmCheckpointOps m)). \<not> same_slot p v"
    and "m' = m\<lparr>llmCheckpointOps := mput (ck_ID v) v (llmCheckpointOps m),
               llmCheckpointKeys := mput (checkpoint_key v) (ck_ID v) (llmCheckpointKeys m)\<rparr>"
  using assms unfolding CreateLLMCheckpointOperation_def Let_def
  by (auto simp: list_ex_iff split: sum.splits option.splits if_splits)

lemma create_checkpoint_oldD:
  assumes "CreateLLMCheckpointOperation now m op = (m', Inr (v, False))"
  shows "m' = m" and "\<exists>rid. map_of (llmCheckpointOps m) rid = Some v"
    and "\<exists>p. prepareLLMCheckpointCreate now op = Inr p \<and> sameLLMCheckpointIdentity v p"
  using assms unfolding CreateLLMCheckpointOperation_def Let_def
  by (auto split: sum.splits option.splits if_splits)

lemma create_checkpoint_errD:
  "CreateLLMCheckpointOperation now m op = (m', Inl e) \<Longrightarrow> m' = m"
  unfolding CreateLLMCheckpointOperation_def Let_def
  by (auto split: sum.splits option.splits if_splits)

lemma update_checkpoint_errD:
  "UpdateLLMCheckpointOperation now e m op = (m', Inl x) \<Longrightarrow> m' = m"
  unfolding UpdateLLMCheckpointOperation_def Let_def
  by (auto split: option.splits if_splits)

lemma update_checkpoint_okD:
  assumes "UpdateLLMCheckpointOperation now e m op = (m', Inr v)"
  obtains current where "map_of (llmCheckpointOps m) (ck_ID v) = Some current"
    and "ck_ID v = ck_ID (the op)" and "ck_Revision current = e" and "e \<noteq> 0"
    and "ck_Revision v = e + 1" and "ck_CreatedAt v = ck_CreatedAt current"
    and "ck_UpdatedAt v = truncate_us now"
    and "llmCheckpointImmutableIdentityEqual current v"
    and "llmCheckpointTransitionAllowedFor current v"
    and "validateLLMCheckpointRequiredIdentity (Some v) = None"
    and "\<forall>(rid, p) \<in> set (llmCheckpointOps m). rid \<noteq> ck_ID v \<longrightarrow> \<not> same_slot p v"
    and "m' = m\<lparr>llmCheckpointOps := mput (ck_ID v) v (llmCheckpointOps m)\<rparr>"
proof -
  define op' where "op' = map_option (\<lambda>p. if ck_ConversationID p = ''''
      then p\<lparr>ck_ConversationID := conversation_seed p\<rparr> else p) op"
  note u = assms [unfolded UpdateLLMCheckpointOperation_def Let_def, folded op'_def]
  obtain p current where p: "op' = Some p" "validateLLMCheckpointRequiredIdentity (Some p) = None"
      "e \<noteq> 0" "map_of (llmCheckpointOps m) (ck_ID p) = Some current" "ck_Revision current = e"
      "llmCheckpointImmutableIdentityEqual current p" "llmCheckpointTransitionAllowedFor current p"
      "\<not> list_ex (\<lambda>(rid, existing). rid \<noteq> ck_ID p \<and> same_slot existing p) (llmCheckpointOps m)"
      "v = p\<lparr>ck_CreatedAt := ck_CreatedAt current, ck_Revision := ck_Revision current + 1,
              ck_UpdatedAt := truncate_us now\<rparr>"
      "m' = m\<lparr>llmCheckpointOps := mput (ck_ID p) v (llmCheckpointOps m)\<rparr>"
    using u unfolding guards by (cases op') (auto split: option.splits if_splits)
  have "ck_ID p = ck_ID (the op)" using p(1) by (cases op) (auto simp: op'_def)
  with p show ?thesis
    by (intro that [of current])
      (auto simp: list_ex_iff same_slot_def llmCheckpointImmutableIdentityEqual_def
        llmCheckpointIdentityEqual_def llmCheckpointTransitionAllowedFor_def)
qed

section \<open>The contracts of the checkpoint table\<close>

interpretation checkpoint_create: idempotent_create
  "\<lambda>m. map_of (llmCheckpointOps m)" ck_ID CreateLLMCheckpointOperation
proof
  fix t m op m' v
  assume c: "CreateLLMCheckpointOperation t m op = (m', Inr (v, True))"
  note d = create_checkpoint_newD [OF c]
  from d show "map_of (llmCheckpointOps m) (ck_ID v) = None \<and>
      map_of (llmCheckpointOps m') = (map_of (llmCheckpointOps m))(ck_ID v \<mapsto> v)" by simp
  fix t'
  obtain p where p: "prepareLLMCheckpointCreate t' op = Inr p" "sameLLMCheckpointIdentity v p"
    using prepare_any_time d(1) by blast
  then have "ck_ID p = ck_ID v"
    by (simp add: sameLLMCheckpointIdentity_def llmCheckpointIdentityEqual_def)
  with p d(5) show "CreateLLMCheckpointOperation t' m' op = (m', Inr (v, False))"
    by (simp add: CreateLLMCheckpointOperation_def)
qed (auto dest: create_checkpoint_oldD create_checkpoint_errD)

interpretation checkpoint_cas: cas_row
  "\<lambda>m. map_of (llmCheckpointOps m)" ck_Revision "\<lambda>op. ck_ID (the op)"
  "UpdateLLMCheckpointOperation now" for now
proof
  fix e m op m' v
  assume "UpdateLLMCheckpointOperation now e m op = (m', Inr v)"
  then show "(\<exists>old. map_of (llmCheckpointOps m) (ck_ID (the op)) = Some old \<and> ck_Revision old = e) \<and>
      ck_Revision v = e + 1 \<and>
      map_of (llmCheckpointOps m') = (map_of (llmCheckpointOps m))(ck_ID (the op) \<mapsto> v)"
    by (rule update_checkpoint_okD) auto
qed (auto dest: update_checkpoint_errD)

section \<open>Phases move along the graph\<close>

text \<open>The position of a phase in the graph; every edge of \<open>phase_edges\<close> increases it.\<close>

definition phase_rank :: "string \<Rightarrow> nat" where
  "phase_rank phase = mget_zero 0
     [(''planned'', 1), (''assigned'', 2), (''started'', 3), (''paused'', 4), (''saved'', 5),
      (''stopped'', 6), (''released'', 7), (''restore_planned'', 8), (''restore_assigned'', 9),
      (''reloaded'', 10), (''restored'', 11), (''resumed'', 12), (''continued'', 13),
      (''reused'', 14), (''completed'', 15), (''failed'', 15), (''cancelled'', 15),
      (''restore_failed'', 15)] phase"

lemma phase_edges_rank:
  "list_all (\<lambda>(src, dsts). list_all (\<lambda>dst. phase_rank src < phase_rank dst) dsts) phase_edges"
  by code_simp

lemma phase_rank_le: "phase_rank phase \<le> 15"
  by (simp add: phase_rank_def mget_zero_def)

lemma transition_allowed_edge:
  assumes "llmCheckpointTransitionAllowed src dst" and "src \<noteq> dst"
  shows "phase_rank src < phase_rank dst" and "dst \<in> set (mget_zero [] phase_edges src)"
    and "\<not> llmCheckpointPhaseIsFinal src"
proof -
  show e: "dst \<in> set (mget_zero [] phase_edges src)" and "\<not> llmCheckpointPhaseIsFinal src"
    using assms by (auto simp: llmCheckpointTransitionAllowed_def split: if_splits)
  then obtain dsts where "map_of phase_edges src = Some dsts" "dst \<in> set dsts"
    by (cases "map_of phase_edges src") (auto simp: mget_zero_def)
  then show "phase_rank src < phase_rank dst"
    using phase_edges_rank by (auto simp: list_all_iff dest!: map_of_SomeD)
qed

section \<open>Invariants\<close>

definition slot_exclusive :: "memory_store \<Rightarrow> bool" where
  "slot_exclusive m = conflict_free same_slot (llmCheckpointOps m)"

definition checkpoint_index_ok :: "memory_store \<Rightarrow> bool" where
  "checkpoint_index_ok m = indexed_table ck_ID checkpoint_key (llmCheckpointOps m) (llmCheckpointKeys m)"

definition checkpoint_inv :: "memory_store \<Rightarrow> bool" where
  "checkpoint_inv m \<longleftrightarrow> slot_exclusive m \<and> checkpoint_index_ok m"

lemma same_slot_sym: "same_slot p q \<longleftrightarrow> same_slot q p"
  by (auto simp: same_slot_def)

lemma create_checkpoint_state:
  "fst (CreateLLMCheckpointOperation now m op) = m \<or>
   (\<exists>v. CreateLLMCheckpointOperation now m op =
      (fst (CreateLLMCheckpointOperation now m op), Inr (v, True)))"
proof (cases "CreateLLMCheckpointOperation now m op")
  case (Pair m' r)
  then show ?thesis
  proof (cases r)
    case (Inr p)
    obtain v b where "p = (v, b)" by (cases p)
    with Pair Inr show ?thesis
      by (cases b) (auto dest: create_checkpoint_oldD(1))
  qed (auto dest: create_checkpoint_errD)
qed

lemma update_checkpoint_state:
  "fst (UpdateLLMCheckpointOperation now e m op) = m \<or>
   (\<exists>v. UpdateLLMCheckpointOperation now e m op =
      (fst (UpdateLLMCheckpointOperation now e m op), Inr v))"
proof (cases "UpdateLLMCheckpointOperation now e m op")
  case (Pair m' r)
  then show ?thesis by (cases r) (auto dest: update_checkpoint_errD)
qed

lemma create_checkpoint_inv:
  assumes "checkpoint_inv m"
  shows "checkpoint_inv (fst (CreateLLMCheckpointOperation now m op))"
proof (cases "fst (CreateLLMCheckpointOperation now m op) = m")
  case False
  then obtain v where c: "CreateLLMCheckpointOperation now m op =
      (fst (CreateLLMCheckpointOperation now m op), Inr (v, True))"
    using create_checkpoint_state by blast
  note d = create_checkpoint_newD [OF c]
  have nz: "ck_ID v \<noteq> ''''"
    using d(1) by (rule prepare_okD) (auto simp: validateLLMCheckpointRequiredIdentity_def split: if_splits)
  have "indexed_table ck_ID checkpoint_key (mput (ck_ID v) v (llmCheckpointOps m))
      (mput (checkpoint_key v) (ck_ID v) (llmCheckpointKeys m))"
    using assms nz d(2,3) unfolding checkpoint_inv_def checkpoint_index_ok_def
    by (intro indexed_table_insert) simp_all
  moreover have "conflict_free same_slot (mput (ck_ID v) v (llmCheckpointOps m))"
    using assms d(4) map_of_in_mvalues [of "llmCheckpointOps m"] same_slot_sym
    unfolding checkpoint_inv_def slot_exclusive_def by (intro conflict_free_put) blast+
  ultimately show ?thesis
    unfolding checkpoint_inv_def slot_exclusive_def checkpoint_index_ok_def d(5) by simp
qed (use assms in simp)

lemma update_checkpoint_inv:
  assumes "checkpoint_inv m"
  shows "checkpoint_inv (fst (UpdateLLMCheckpointOperation now e m op))"
proof (cases "fst (UpdateLLMCheckpointOperation now e m op) = m")
  case False
  then obtain v where c: "UpdateLLMCheckpointOperation now e m op =
      (fst (UpdateLLMCheckpointOperation now e m op), Inr v)" (is "_ = (?m, _)")
    using update_checkpoint_state by blast
  then obtain current where u: "map_of (llmCheckpointOps m) (ck_ID v) = Some current"
      "llmCheckpointImmutableIdentityEqual current v"
      "\<forall>(rid, p) \<in> set (llmCheckpointOps m). rid \<noteq> ck_ID v \<longrightarrow> \<not> same_slot p v"
      "?m = m\<lparr>llmCheckpointOps := mput (ck_ID v) v (llmCheckpointOps m)\<rparr>"
    by (rule update_checkpoint_okD)
  have "checkpoint_key current = checkpoint_key v"
    using u(2) by (simp add: checkpoint_key_def llmCheckpointImmutableIdentityEqual_def llmCheckpointIdentityEqual_def)
  then have "indexed_table ck_ID checkpoint_key (mput (ck_ID v) v (llmCheckpointOps m)) (llmCheckpointKeys m)"
    using assms u(1) unfolding checkpoint_inv_def checkpoint_index_ok_def
    by (intro indexed_table_replace [where w = current]) simp_all
  moreover have "conflict_free same_slot (mput (ck_ID v) v (llmCheckpointOps m))"
    using assms u(3) same_slot_sym unfolding checkpoint_inv_def slot_exclusive_def
    by (intro conflict_free_put) (blast dest: map_of_SomeD)+
  ultimately show ?thesis
    unfolding checkpoint_inv_def slot_exclusive_def checkpoint_index_ok_def u(4) by simp
qed (use assms in simp)

section \<open>How a row evolves\<close>

definition checkpoint_evolves :: "llm_checkpoint_operation \<Rightarrow> llm_checkpoint_operation \<Rightarrow> bool" where
  "checkpoint_evolves p q \<longleftrightarrow>
     llmCheckpointImmutableIdentityEqual p q \<and>
     (ck_Phase q = ck_Phase p \<or>
      phase_rank (ck_Phase p) < phase_rank (ck_Phase q) \<and> \<not> llmCheckpointPhaseIsFinal (ck_Phase p))"

definition checkpoint_rows_evolve :: "memory_store \<Rightarrow> memory_store \<Rightarrow> bool" where
  "checkpoint_rows_evolve m m' \<longleftrightarrow>
     (\<forall>i p. map_of (llmCheckpointOps m) i = Some p \<longrightarrow>
        (\<exists>q. map_of (llmCheckpointOps m') i = Some q \<and> checkpoint_evolves p q))"

lemma checkpoint_evolves_refl [simp]: "checkpoint_evolves p p"
  by (simp add: checkpoint_evolves_def llmCheckpointImmutableIdentityEqual_def llmCheckpointIdentityEqual_def)

lemma immutable_identity_trans:
  "llmCheckpointImmutableIdentityEqual p q \<Longrightarrow> llmCheckpointImmutableIdentityEqual q r \<Longrightarrow>
     llmCheckpointImmutableIdentityEqual p r"
  unfolding llmCheckpointImmutableIdentityEqual_def llmCheckpointIdentityEqual_def by simp

lemma checkpoint_evolves_trans:
  assumes "checkpoint_evolves p q" and "checkpoint_evolves q r"
  shows "checkpoint_evolves p r"
proof -
  have "llmCheckpointImmutableIdentityEqual p r"
    using assms immutable_identity_trans unfolding checkpoint_evolves_def by blast
  moreover have "ck_Phase r = ck_Phase p \<or>
      phase_rank (ck_Phase p) < phase_rank (ck_Phase r) \<and> \<not> llmCheckpointPhaseIsFinal (ck_Phase p)"
    using assms unfolding checkpoint_evolves_def by (elim conjE disjE) simp_all
  ultimately show ?thesis by (simp add: checkpoint_evolves_def)
qed

lemma checkpoint_rows_evolve_refl: "llmCheckpointOps m' = llmCheckpointOps m \<Longrightarrow> checkpoint_rows_evolve m m'"
  by (simp add: checkpoint_rows_evolve_def)

lemma checkpoint_rows_evolve_trans:
  "checkpoint_rows_evolve m m' \<Longrightarrow> checkpoint_rows_evolve m' m'' \<Longrightarrow> checkpoint_rows_evolve m m''"
  unfolding checkpoint_rows_evolve_def using checkpoint_evolves_trans by meson

lemma update_checkpoint_evolves:
  assumes "UpdateLLMCheckpointOperation now e m op = (m', Inr v)"
    and "map_of (llmCheckpointOps m) (ck_ID v) = Some current"
  shows "checkpoint_evolves current v"
  using assms(1)
proof (rule update_checkpoint_okD)
  fix c
  assume "map_of (llmCheckpointOps m) (ck_ID v) = Some c"
    and "llmCheckpointImmutableIdentityEqual c v" and t: "llmCheckpointTransitionAllowedFor c v"
  moreover have "ck_Phase v = ck_Phase c \<or>
      phase_rank (ck_Phase c) < phase_rank (ck_Phase v) \<and> \<not> llmCheckpointPhaseIsFinal (ck_Phase c)"
    using t transition_allowed_edge [of "ck_Phase c" "ck_Phase v"]
    by (auto simp: llmCheckpointTransitionAllowedFor_def split: if_splits)
  ultimately show ?thesis using assms(2) by (simp add: checkpoint_evolves_def)
qed

lemma checkpoint_step_evolve:
  assumes "checkpoint_step m m'"
  shows "checkpoint_rows_evolve m m'"
  using assms
proof (cases rule: checkpoint_step.cases)
  case (create_checkpoint now op)
  have "map_of (llmCheckpointOps m') i = Some p" if "map_of (llmCheckpointOps m) i = Some p" for i p
    using checkpoint_create.create_keeps_rows [OF prod.collapse [symmetric]] that
    unfolding create_checkpoint .
  then show ?thesis unfolding checkpoint_rows_evolve_def using checkpoint_evolves_refl by blast
next
  case (update_checkpoint now e op)
  show ?thesis
  proof (cases "m' = m")
    case False
    then obtain v where u: "UpdateLLMCheckpointOperation now e m op = (m', Inr v)"
      using update_checkpoint_state [of now e m op] unfolding update_checkpoint by blast
    then have "map_of (llmCheckpointOps m') = (map_of (llmCheckpointOps m))(ck_ID v \<mapsto> v)"
      by (rule update_checkpoint_okD) simp
    then show ?thesis
      using update_checkpoint_evolves [OF u] by (auto simp: checkpoint_rows_evolve_def)
  qed (simp add: checkpoint_rows_evolve_refl)
qed

lemma checkpoint_step_inv: "checkpoint_step m m' \<Longrightarrow> checkpoint_inv m \<Longrightarrow> checkpoint_inv m'"
  by (induction rule: checkpoint_step.induct) (simp_all add: create_checkpoint_inv update_checkpoint_inv)

lemma checkpoint_step_frame:
  assumes "checkpoint_step m m'"
  shows "m' = m\<lparr>llmCheckpointOps := llmCheckpointOps m', llmCheckpointKeys := llmCheckpointKeys m'\<rparr>"
  using assms
proof (cases rule: checkpoint_step.cases)
  case (create_checkpoint now op)
  show ?thesis
  proof (cases "m' = m")
    case False
    then obtain v where "CreateLLMCheckpointOperation now m op = (m', Inr (v, True))"
      using create_checkpoint_state [of now m op] unfolding create_checkpoint by blast
    from create_checkpoint_newD(5) [OF this] show ?thesis by simp
  qed simp
next
  case (update_checkpoint now e op)
  show ?thesis
  proof (cases "m' = m")
    case False
    then obtain v where "UpdateLLMCheckpointOperation now e m op = (m', Inr v)"
      using update_checkpoint_state [of now e m op] unfolding update_checkpoint by blast
    then show ?thesis by (rule update_checkpoint_okD) simp
  qed simp
qed

section \<open>Properties\<close>

text \<open>The zero value of the Go struct and a complete request, for concrete runs.\<close>

definition zero_llm_checkpoint_operation :: llm_checkpoint_operation where
  "zero_llm_checkpoint_operation = \<lparr>
     ck_ID = '''', ck_IdempotencyKey = '''', ck_OwnerID = '''', ck_WorkloadID = '''',
     ck_NodeID = '''', ck_AcceleratorID = '''', ck_TargetID = '''', ck_Model = '''',
     ck_SlotID = 0, ck_Generation = 0, ck_Fence = 0, ck_RuntimeIdentity = '''',
     ck_ModelFingerprint = '''', ck_ProfileFingerprint = '''', ck_ContextFingerprint = '''',
     ck_ConversationID = '''', ck_ContinuationConversationID = '''', ck_CompensationOf = '''',
     ck_WorkloadRevision = 0, ck_RecoveryWorkloadRevision = 0, ck_RecoveryState = '''',
     ck_RecoveryHandle = None, ck_RecoveryFence = 0, ck_RecoveryAcceleratorID = '''',
     ck_CleanupOperationID = '''', ck_CleanupSlotID = 0, ck_CleanupConversationID = '''',
     ck_CleanupContinuationConversationID = '''', ck_CleanupState = '''',
     ck_CleanupHandle = None, ck_CleanupTargetID = '''', ck_CleanupNodeID = '''',
     ck_CleanupAcceleratorID = '''', ck_CleanupGeneration = 0, ck_CleanupFence = 0,
     ck_CleanupTerminalDisposition = '''', ck_CleanupMessage = '''', ck_SnapshotName = '''',
     ck_SnapshotDigest = '''', ck_Phase = '''', ck_PhaseOrdinal = 0,
     ck_PartialOutputHash = '''', ck_PartialOutputOffset = 0, ck_PartialOutputContent = '''',
     ck_PartialOutputUnsafeToolCall = False, ck_SavedTokens = 0, ck_ReusedTokens = 0,
     ck_QuotaBytes = 0, ck_SnapshotBytes = 0, ck_CreatedAt = 0, ck_UpdatedAt = 0,
     ck_Error = '''', ck_Revision = 0\<rparr>"

definition sample_checkpoint :: llm_checkpoint_operation where
  "sample_checkpoint = zero_llm_checkpoint_operation\<lparr>
     ck_ID := ''op-1'', ck_IdempotencyKey := ''k'', ck_OwnerID := ''o'', ck_WorkloadID := ''w'',
     ck_NodeID := ''n'', ck_TargetID := ''t'', ck_AcceleratorID := ''gpu0'', ck_RuntimeIdentity := ''r'',
     ck_Model := ''m'', ck_ModelFingerprint := ''mf'', ck_ProfileFingerprint := ''pf'',
     ck_ContextFingerprint := ''cf'', ck_ConversationID := ''conv'', ck_Generation := 1,
     ck_Fence := 1, ck_WorkloadRevision := 1, ck_SlotID := 0, ck_Phase := ''planned''\<rparr>"

definition sample_checkpoint_store :: memory_store where
  "sample_checkpoint_store = NewMemoryStore\<lparr>
     llmCheckpointOps := [(''op-1'', sample_checkpoint\<lparr>ck_PhaseOrdinal := 1, ck_Revision := 1,
       ck_CreatedAt := 5000, ck_UpdatedAt := 5000\<rparr>)],
     llmCheckpointKeys := [(''o'' @ NUL # ''k'', ''op-1'')]\<rparr>"

lemma sample_checkpoint_create:
  "CreateLLMCheckpointOperation 5001 NewMemoryStore (Some sample_checkpoint) =
     (sample_checkpoint_store, Inr (sample_checkpoint\<lparr>ck_PhaseOrdinal := 1, ck_Revision := 1,
       ck_CreatedAt := 5000, ck_UpdatedAt := 5000\<rparr>, True))"
  by code_simp



text \<open>
  C11 \<open>UpdateLLMCheckpointOperation\<close> is a compare-and-swap: of any number of updates of one row
  that all expect the same revision, in any order and whatever they contain, at most one
  succeeds.
\<close>

theorem checkpoint_single_winner:
  assumes "\<forall>op \<in> set ops. ck_ID (the op) = i"
  shows "length (snd (attempts (UpdateLLMCheckpointOperation now e) m ops)) \<le> 1"
  using assms by (rule checkpoint_cas.at_most_one_winner)

theorem checkpoint_single_winner_witness:
  "length (snd (attempts (UpdateLLMCheckpointOperation 9000 1) sample_checkpoint_store
     [Some (sample_checkpoint\<lparr>ck_Phase := ''assigned'', ck_PhaseOrdinal := 1\<rparr>),
      Some (sample_checkpoint\<lparr>ck_Phase := ''failed'', ck_PhaseOrdinal := 15\<rparr>)])) \<le> 1"
  by (rule checkpoint_single_winner [where i = "''op-1''"]) (simp add: sample_checkpoint_def)

text \<open>
  C28 \<open>CreateLLMCheckpointOperation\<close>, when it inserts a row: no existing row changes, the row is
  found by its id and by its owner and idempotency key, it starts at revision 1 in a planned or
  restore-planned phase, and repeating the request at any later time returns this row, reports
  that nothing was created and leaves the store as it is.
\<close>

theorem checkpoint_create_idempotent:
  assumes "CreateLLMCheckpointOperation now m op = (m', Inr (v, True))"
  shows "(\<forall>i p. map_of (llmCheckpointOps m) i = Some p \<longrightarrow> map_of (llmCheckpointOps m') i = Some p) \<and>
    GetLLMCheckpointOperation m' (ck_ID v) = Inr v \<and>
    GetLLMCheckpointOperationByIdempotency m' (ck_OwnerID v) (ck_IdempotencyKey v) = Inr v \<and>
    ck_Revision v = 1 \<and> ToLower (TrimSpace (ck_Phase v)) \<in> {''planned'', ''restore_planned''} \<and>
    (\<forall>now'. CreateLLMCheckpointOperation now' m' op = (m', Inr (v, False)))"
proof -
  note d = create_checkpoint_newD [OF assms]
  obtain q where q: "checkpoint_root_error (prepared_identity q) = None"
      "validateLLMCheckpointRequiredIdentity (Some (prepared_identity q)) = None"
      "ck_Revision v = 1" "ck_Phase v = ck_Phase (prepared_identity q)" "ck_ID v = ck_ID (prepared_identity q)"
    using d(1) by (auto elim: prepare_okD)
  have "ToLower (TrimSpace (ck_Phase v)) \<in> {''planned'', ''restore_planned''}"
    using q(1,4) by (auto simp: checkpoint_root_error_def Let_def split: if_splits)
  moreover have "ck_ID v \<noteq> ''''"
    using q(2,5) by (auto simp: validateLLMCheckpointRequiredIdentity_def split: if_splits)
  moreover have "\<forall>i p. map_of (llmCheckpointOps m) i = Some p \<longrightarrow> map_of (llmCheckpointOps m') i = Some p"
    using checkpoint_create.create_keeps_rows [OF assms] by blast
  ultimately show ?thesis
    using d(5) q(3) checkpoint_create.create_again [OF assms]
    by (simp add: GetLLMCheckpointOperation_def GetLLMCheckpointOperationByIdempotency_def
        checkpoint_key_def Let_def)
qed

theorem checkpoint_create_idempotent_witness:
  "let v = sample_checkpoint\<lparr>ck_PhaseOrdinal := 1, ck_Revision := 1, ck_CreatedAt := 5000,
             ck_UpdatedAt := 5000\<rparr>
   in GetLLMCheckpointOperationByIdempotency sample_checkpoint_store ''o'' ''k'' = Inr v \<and>
      CreateLLMCheckpointOperation 7000 sample_checkpoint_store (Some sample_checkpoint) =
        (sample_checkpoint_store, Inr (v, False))"
  using checkpoint_create_idempotent [OF sample_checkpoint_create]
  by (simp add: sample_checkpoint_def zero_llm_checkpoint_operation_def)



end
