(* ===== verification/Displacement.thy ===== *)
theory Displacement
  imports Store_State Tables
begin

text \<open>
  The displacement journal, \<open>internal/store/llm_displacement.go\<close>: one row describes how an
  urgent workload takes an accelerator from a victim and gives it back, as a sequence of eight
  steps, each sealed as an intent and then confirmed by an observed result. The lemmas show
  that every stored row satisfies the full validation, that an accelerator is in the custody of
  at most one unfinished row, that an update moves one phase forward and never rewrites
  history, and that a completed row carries the result of all eight steps.
\<close>

section \<open>Phases and steps\<close>

definition displacementPhases :: "string list" where
  "displacementPhases =
     [''planned'', ''pause_intent_sealed'', ''safe_boundary_paused'', ''snapshot_intent_sealed'',
      ''snapshot_captured'', ''victim_stop_intent_sealed'', ''victim_stopped'',
      ''urgent_load_intent_sealed'', ''urgent_loaded'', ''urgent_stop_intent_sealed'',
      ''urgent_stopped'', ''victim_reload_intent_sealed'', ''victim_reloaded'',
      ''kv_restore_intent_sealed'', ''kv_restored'', ''settlement_intent_sealed'', ''settled'',
      ''completed'']"

definition displacementSteps :: "string list" where
  "displacementSteps =
     [''pause'', ''snapshot'', ''victim_stop'', ''urgent_load'', ''urgent_stop'', ''victim_reload'',
      ''kv_restore'', ''settlement'']"

definition reconciling :: "string \<Rightarrow> bool" where
  "reconciling phase \<longleftrightarrow>
     phase = ''pending'' \<or> phase = ''uncertain'' \<or> phase = ''manual_reconciliation''"

fun index_of :: "'a \<Rightarrow> 'a list \<Rightarrow> nat option" where
  "index_of x [] = None"
| "index_of x (y # ys) = (if y = x then Some 0 else map_option Suc (index_of x ys))"

definition displacementIntentStep :: "string \<Rightarrow> string" where
  "displacementIntentStep phase = mget_zero ''''
     [(''pause_intent_sealed'', ''pause''), (''snapshot_intent_sealed'', ''snapshot''),
      (''victim_stop_intent_sealed'', ''victim_stop''), (''urgent_load_intent_sealed'', ''urgent_load''),
      (''urgent_stop_intent_sealed'', ''urgent_stop''), (''victim_reload_intent_sealed'', ''victim_reload''),
      (''kv_restore_intent_sealed'', ''kv_restore''), (''settlement_intent_sealed'', ''settlement'')] phase"

definition displacementResultStep :: "string \<Rightarrow> string" where
  "displacementResultStep phase = mget_zero ''''
     [(''safe_boundary_paused'', ''pause''), (''snapshot_captured'', ''snapshot''),
      (''victim_stopped'', ''victim_stop''), (''urgent_loaded'', ''urgent_load''),
      (''urgent_stopped'', ''urgent_stop''), (''victim_reloaded'', ''victim_reload''),
      (''kv_restored'', ''kv_restore''), (''settled'', ''settlement'')] phase"

definition displacementTransitionAllowed :: "string \<Rightarrow> string \<Rightarrow> bool" where
  "displacementTransitionAllowed src dst =
     (if reconciling dst then src \<noteq> ''completed'' \<and> \<not> reconciling src
      else case index_of src displacementPhases of
             None \<Rightarrow> False
           | Some i \<Rightarrow> i + 1 < length displacementPhases \<and> displacementPhases ! (i + 1) = dst)"

section \<open>Validation\<close>

definition json_struct :: "(string \<times> string) list \<Rightarrow> string" where
  "json_struct fs =
     CHR 0x7B # comma_join (map (\<lambda>(k, v). json_string k @ '':'' @ json_string v) fs) @ [CHR 0x7D]"

definition observedResultEnvelopeDigest :: "displacement_observed_result \<Rightarrow> string" where
  "observedResultEnvelopeDigest r =
     hex_encode (sha256 (json_struct
       [(''Step'', dor_Step r), (''CommandID'', dor_CommandID r), (''ResultID'', dor_ResultID r),
        (''Digest'', dor_Digest r), (''ProofBinding'', dor_ProofBinding r), (''KeyID'', dor_KeyID r)]))"

fun aliases_ok :: "string \<Rightarrow> string list \<Rightarrow> nat \<Rightarrow> string list \<Rightarrow> bool" where
  "aliases_ok actualAlias seen actual [] = (actual = 1)"
| "aliases_ok actualAlias seen actual (alias # rest) =
     (if blank alias \<or> alias \<in> set seen then False
      else aliases_ok actualAlias (alias # seen) (if alias = actualAlias then actual + 1 else actual) rest)"

definition validLLMDisplacementBinding :: "displacement_model_binding \<Rightarrow> bool" where
  "validLLMDisplacementBinding b =
     (if blank (dmb_TargetID b) \<or> blank (dmb_NodeID b) \<or> blank (dmb_AcceleratorID b) \<or>
         blank (dmb_CatalogModel b) \<or> dmb_CatalogAliases b = [] \<or> blank (dmb_ActualAlias b) \<or>
         blank (dmb_LocalPlanID b) \<or> blank (dmb_LocalPlanHash b) \<or> blank (dmb_ControllerPlanID b) \<or>
         blank (dmb_ControllerPlanHash b) \<or> blank (dmb_ArtifactID b) \<or> blank (dmb_ArtifactDigest b) \<or>
         blank (dmb_RuntimeIdentity b) \<or> blank (dmb_ProfileIdentity b) \<or> blank (dmb_ContextIdentity b) \<or>
         blank (dmb_CheckpointID b) \<or> blank (dmb_CheckpointDigest b) \<or> blank (dmb_ProofBinding b)
      then False
      else aliases_ok (dmb_ActualAlias b) [] 0 (dmb_CatalogAliases b))"

fun check_intents :: "nat \<Rightarrow> string list \<Rightarrow> displacement_command_intent list \<Rightarrow> error option" where
  "check_intents i seen [] = None"
| "check_intents i seen (c # cs) =
     (if blank (dci_Step c) \<or> blank (dci_CommandID c) \<or> blank (dci_Digest c) \<or> blank (dci_Signature c)
      then Some (Err ''sealed displacement command intent is incomplete'')
      else if i \<ge> length displacementSteps \<or> dci_Step c \<noteq> displacementSteps ! i \<or> dci_CommandID c \<in> set seen
      then Some (Err ''displacement command intent history is malformed'')
      else check_intents (i + 1) (dci_CommandID c # seen) cs)"

fun check_results :: "displacement_command_intent list \<Rightarrow> nat \<Rightarrow> string list \<Rightarrow>
    displacement_observed_result list \<Rightarrow> error option" where
  "check_results intents i seen [] = None"
| "check_results intents i seen (r # rs) =
     (if blank (dor_Step r) \<or> blank (dor_CommandID r) \<or> blank (dor_ResultID r) \<or> blank (dor_Digest r) \<or>
         blank (dor_ProofBinding r) \<or> blank (dor_KeyID r) \<or> blank (dor_Signature r) \<or>
         dor_EnvelopeDigest r \<noteq> observedResultEnvelopeDigest r
      then Some (Err ''displacement observed result identity is incomplete'')
      else if dor_Step r \<noteq> displacementSteps ! i \<or> dor_ResultID r \<in> set seen
      then Some (Err ''displacement observed result history is malformed'')
      else if dor_CommandID r \<notin> set (map dci_CommandID intents) \<or>
              dci_CommandID (intents ! i) \<noteq> dor_CommandID r
      then Some (Err ''displacement result is not linked to its unique command intent'')
      else check_results intents (i + 1) (dor_ResultID r # seen) rs)"

definition hasDisplacementResult :: "llm_displacement_operation \<Rightarrow> string \<Rightarrow> bool" where
  "hasDisplacementResult p step = list_ex (\<lambda>r. dor_Step r = step) (dp_ObservedResults p)"

definition hasDisplacementIntent :: "llm_displacement_operation \<Rightarrow> string \<Rightarrow> bool" where
  "hasDisplacementIntent p step = list_ex (\<lambda>c. dci_Step c = step) (dp_CommandIntents p)"

definition displacement_fields_ok :: "llm_displacement_operation \<Rightarrow> bool" where
  "displacement_fields_ok p \<longleftrightarrow>
     \<not> (blank (dp_ID p) \<or> blank (dp_IdempotencyKey p) \<or> blank (dp_OwnerID p) \<or>
        blank (dp_VictimWorkloadID p) \<or> blank (dp_VictimOwnerID p) \<or> dp_VictimWorkloadRevision p = 0 \<or>
        blank (dp_UrgentWorkloadID p) \<or> blank (dp_UrgentOwnerID p) \<or> dp_UrgentWorkloadRevision p = 0 \<or>
        dp_VictimWorkloadID p = dp_UrgentWorkloadID p \<or> blank (dp_AcceleratorID p) \<or> blank (dp_NodeID p) \<or>
        (case dp_OriginalLease p of
           None \<Rightarrow> True
         | Some l \<Rightarrow> ls_AcceleratorID l \<noteq> dp_AcceleratorID p \<or> ls_WorkloadID l \<noteq> dp_VictimWorkloadID p \<or>
             ls_FencingToken l \<le> 0 \<or> word_of_int (ls_FencingToken l) \<noteq> dp_Fence p \<or> ls_ExpiresAt l = 0) \<or>
        dp_Fence p = 0 \<or> dp_Revision p = 0 \<or> dp_Revision p > word_of_int max_i64 \<or>
        \<not> validLLMDisplacementBinding (dp_VictimBinding p) \<or>
        \<not> validLLMDisplacementBinding (dp_UrgentBinding p) \<or>
        dmb_NodeID (dp_VictimBinding p) \<noteq> dp_NodeID p \<or> dmb_NodeID (dp_UrgentBinding p) \<noteq> dp_NodeID p \<or>
        dmb_AcceleratorID (dp_VictimBinding p) \<noteq> dp_AcceleratorID p \<or>
        dmb_AcceleratorID (dp_UrgentBinding p) \<noteq> dp_AcceleratorID p \<or> blank (dp_ProofBinding p))"

definition displacement_flags_agree :: "llm_displacement_operation \<Rightarrow> bool" where
  "displacement_flags_agree p \<longleftrightarrow>
     dp_SafeBoundaryObserved p = hasDisplacementResult p ''pause'' \<and>
     dp_SnapshotObserved p = hasDisplacementResult p ''snapshot'' \<and>
     dp_VictimStopObserved p = hasDisplacementResult p ''victim_stop'' \<and>
     dp_UrgentLoadObserved p = hasDisplacementResult p ''urgent_load'' \<and>
     dp_UrgentStopObserved p = hasDisplacementResult p ''urgent_stop'' \<and>
     dp_VictimReloadObserved p = hasDisplacementResult p ''victim_reload'' \<and>
     dp_KVRestoreObserved p = hasDisplacementResult p ''kv_restore'' \<and>
     dp_LeaseSettled p = hasDisplacementResult p ''settlement'' \<and>
     dp_SnapshotCustodySettled p = hasDisplacementResult p ''settlement''"

definition phase_history_error :: "llm_displacement_operation \<Rightarrow> error option" where
  "phase_history_error p =
     (let intents = length (dp_CommandIntents p); results = length (dp_ObservedResults p) in
      if \<not> reconciling (dp_Phase p) then
        (case index_of (dp_Phase p) displacementPhases of
           None \<Rightarrow> Some (Err ''llm displacement phase is unknown'')
         | Some phaseIndex \<Rightarrow>
           (let wantIntents = (if dp_Phase p = ''completed'' then 8 else (phaseIndex + 1) div 2);
                wantResults = (if dp_Phase p = ''completed'' then 8 else phaseIndex div 2)
            in if intents \<noteq> wantIntents \<or> results \<noteq> wantResults
               then Some (Err ''displacement phase disagrees with sealed intent/result history'')
               else if dp_Revision p \<noteq> of_nat (phaseIndex + 1)
               then Some (Err ''displacement revision disagrees with persisted phase'')
               else None))
      else if dp_Revision p \<noteq> of_nat (intents + results + 2) \<or> intents < results \<or> intents - results > 1
      then Some (Err ''displacement reconciliation revision disagrees with retained history'')
      else None)"

definition snapshot_error :: "llm_displacement_operation \<Rightarrow> error option" where
  "snapshot_error p =
     (if list_ex (\<lambda>r. dor_Step r = ''snapshot'' \<and> dp_SnapshotIdentity p \<noteq> dor_ResultID r) (dp_ObservedResults p)
      then Some (Err ''displacement snapshot identity differs from immutable authenticated result'')
      else if (dp_SnapshotIdentity p \<noteq> '''') \<noteq> hasDisplacementResult p ''snapshot''
      then Some (Err ''displacement snapshot identity lacks authenticated observation'')
      else None)"

definition completion_error :: "llm_displacement_operation \<Rightarrow> error option" where
  "completion_error p =
     (if dp_ObservedProof p \<noteq> '''' \<and> dp_Phase p \<noteq> ''completed''
      then Some (Err ''completion proof is present before terminal settlement'')
      else if dp_Phase p = ''completed'' \<and>
        \<not> (dp_SafeBoundaryObserved p \<and> dp_SnapshotObserved p \<and> dp_VictimStopObserved p \<and>
           dp_UrgentLoadObserved p \<and> dp_UrgentStopObserved p \<and> dp_VictimReloadObserved p \<and>
           dp_KVRestoreObserved p \<and> dp_LeaseSettled p \<and> dp_SnapshotCustodySettled p \<and>
           hasDisplacementResult p ''settlement'' \<and> dp_ObservedProof p \<noteq> '''')
      then Some (Err ''displacement cannot complete before observed boundaries and custody settlement'')
      else if dp_Phase p = ''completed'' \<and>
        list_ex (\<lambda>r. dor_Step r = ''settlement'' \<and> dor_Digest r \<noteq> dp_ObservedProof p) (dp_ObservedResults p)
      then Some (Err ''completion proof must match observed custody settlement'')
      else None)"

definition validateLLMDisplacementIdentity :: "llm_displacement_operation \<Rightarrow> error option" where
  "validateLLMDisplacementIdentity p =
     (if \<not> displacement_fields_ok p
      then Some (Err ''llm displacement identity is incomplete or inconsistent'')
      else if length (dp_ObservedProof p) > 8192 \<or> length (dp_LastError p) > 2048 \<or>
              length (dp_CommandIntents p) > length displacementSteps \<or>
              length (dp_ObservedResults p) > length displacementSteps
      then Some (Err ''llm displacement journal field is too long'')
      else (case check_intents 0 [] (dp_CommandIntents p) of
        Some err \<Rightarrow> Some err
      | None \<Rightarrow>
      (if length (dp_ObservedResults p) > length (dp_CommandIntents p)
      then Some (Err ''displacement has an unsealed observed result'')
      else (case check_results (dp_CommandIntents p) 0 [] (dp_ObservedResults p) of
        Some err \<Rightarrow> Some err
      | None \<Rightarrow>
      (if \<not> validLLMDisplacementBinding (dp_VictimBinding p) \<or> \<not> validLLMDisplacementBinding (dp_UrgentBinding p)
      then Some (Err ''displacement model binding is incomplete'')
      else if list_ex (\<lambda>r. dor_ProofBinding r \<noteq> dp_ProofBinding p) (dp_ObservedResults p)
      then Some (Err ''displacement observation proof is not bound to orchestration identity'')
      else if \<not> displacement_flags_agree p
      then Some (Err ''displacement observed flags disagree with authenticated result history'')
      else (case phase_history_error p of
        Some err \<Rightarrow> Some err
      | None \<Rightarrow>
      (case snapshot_error p of
        Some err \<Rightarrow> Some err
      | None \<Rightarrow> completion_error p)))))))"

definition displacementRecordRetainsCustody :: "llm_displacement_operation \<Rightarrow> bool" where
  "displacementRecordRetainsCustody p \<longleftrightarrow>
     validateLLMDisplacementIdentity p \<noteq> None \<or> dp_Phase p \<noteq> ''completed''"

text \<open>
  \<open>displacementIdentityEqual\<close> compares the JSON text of the two rows after clearing their
  journal fields. On valid UTF-8 strings and times of the years 0 to 9999, where the text
  determines the row, that is equality of the cleared rows.
\<close>

definition displacement_identity :: "llm_displacement_operation \<Rightarrow> llm_displacement_operation" where
  "displacement_identity p = p\<lparr>
     dp_Phase := '''', dp_Revision := 0, dp_CommandIntents := [], dp_ObservedResults := [],
     dp_SnapshotIdentity := '''', dp_SafeBoundaryObserved := False, dp_VictimStopObserved := False,
     dp_SnapshotObserved := False, dp_UrgentLoadObserved := False, dp_UrgentStopObserved := False,
     dp_VictimReloadObserved := False, dp_KVRestoreObserved := False, dp_LeaseSettled := False,
     dp_SnapshotCustodySettled := False, dp_ObservedProof := '''', dp_LastError := '''',
     dp_CreatedAt := 0, dp_UpdatedAt := 0\<rparr>"

definition displacementIdentityEqual :: "llm_displacement_operation \<Rightarrow> llm_displacement_operation \<Rightarrow> bool" where
  "displacementIdentityEqual a b \<longleftrightarrow> displacement_identity a = displacement_identity b"

section \<open>Updates\<close>

definition boundary_observed :: "llm_displacement_operation \<Rightarrow> bool" where
  "boundary_observed p =
     (if dp_Phase p = ''safe_boundary_paused'' then dp_SafeBoundaryObserved p
      else if dp_Phase p = ''snapshot_captured''
      then dp_SafeBoundaryObserved p \<and> dp_SnapshotObserved p \<and> dp_SnapshotIdentity p \<noteq> ''''
      else if dp_Phase p = ''victim_stopped'' then dp_VictimStopObserved p \<and> dp_SnapshotObserved p
      else if dp_Phase p = ''urgent_loaded'' then dp_UrgentLoadObserved p \<and> dp_VictimStopObserved p
      else if dp_Phase p = ''urgent_stopped'' then dp_UrgentStopObserved p
      else if dp_Phase p = ''victim_reloaded'' then dp_VictimReloadObserved p
      else if dp_Phase p = ''kv_restored'' then dp_KVRestoreObserved p
      else if dp_Phase p = ''settled''
      then dp_LeaseSettled p \<and> dp_SnapshotCustodySettled p \<and> hasDisplacementIntent p ''settlement''
      else True)"

definition flags_monotone :: "llm_displacement_operation \<Rightarrow> llm_displacement_operation \<Rightarrow> bool" where
  "flags_monotone old nxt \<longleftrightarrow>
     \<not> (dp_SafeBoundaryObserved old \<and> \<not> dp_SafeBoundaryObserved nxt \<or>
        dp_VictimStopObserved old \<and> \<not> dp_VictimStopObserved nxt \<or>
        dp_SnapshotObserved old \<and> \<not> dp_SnapshotObserved nxt \<or>
        dp_UrgentLoadObserved old \<and> \<not> dp_UrgentLoadObserved nxt \<or>
        dp_UrgentStopObserved old \<and> \<not> dp_UrgentStopObserved nxt \<or>
        dp_VictimReloadObserved old \<and> \<not> dp_VictimReloadObserved nxt \<or>
        dp_KVRestoreObserved old \<and> \<not> dp_KVRestoreObserved nxt \<or>
        dp_LeaseSettled old \<and> \<not> dp_LeaseSettled nxt \<or>
        dp_SnapshotCustodySettled old \<and> \<not> dp_SnapshotCustodySettled nxt)"

definition appended_intent_ok :: "llm_displacement_operation \<Rightarrow> llm_displacement_operation \<Rightarrow> bool" where
  "appended_intent_ok old nxt =
     (let step = displacementIntentStep (dp_Phase nxt); n = length (dp_CommandIntents old) in
      if step \<noteq> ''''
      then length (dp_CommandIntents nxt) = n + 1 \<and> dci_Step (last (dp_CommandIntents nxt)) = step
      else length (dp_CommandIntents nxt) = n)"

definition appended_result_ok :: "llm_displacement_operation \<Rightarrow> llm_displacement_operation \<Rightarrow> bool" where
  "appended_result_ok old nxt =
     (let step = displacementResultStep (dp_Phase nxt); n = length (dp_ObservedResults old) in
      if step \<noteq> ''''
      then length (dp_ObservedResults nxt) = n + 1 \<and> dor_Step (last (dp_ObservedResults nxt)) = step
      else length (dp_ObservedResults nxt) = n)"

definition result_bound :: "llm_displacement_operation \<Rightarrow> bool" where
  "result_bound nxt =
     (let step = displacementResultStep (dp_Phase nxt); r = last (dp_ObservedResults nxt) in
      step = '''' \<or>
      list_ex (\<lambda>c. dci_Step c = step \<and> dci_CommandID c = dor_CommandID r) (dp_CommandIntents nxt) \<and>
      dor_ProofBinding r = dp_ProofBinding nxt \<and>
      (step = ''snapshot'' \<longrightarrow> dp_SnapshotIdentity nxt = dor_ResultID r))"

definition validateDisplacementUpdate ::
    "llm_displacement_operation \<Rightarrow> llm_displacement_operation \<Rightarrow> u64 \<Rightarrow> error option" where
  "validateDisplacementUpdate old nxt expected =
     (if validateLLMDisplacementIdentity old \<noteq> None then Some ErrLLMDisplacementConflict
      else if dp_Revision nxt \<noteq> expected then Some ErrLLMDisplacementConflict
      else if expected \<ge> word_of_int max_i64 then Some ErrLLMDisplacementConflict
      else if dp_Revision old \<noteq> expected \<or> expected = 0 \<or> expected \<ge> word_of_int max_i64 \<or>
              dp_Revision old \<ge> word_of_int max_i64 \<or> \<not> displacementIdentityEqual old nxt \<or>
              \<not> displacementTransitionAllowed (dp_Phase old) (dp_Phase nxt)
      then Some ErrLLMDisplacementConflict
      else if dp_SnapshotIdentity old \<noteq> '''' \<and> dp_SnapshotIdentity nxt \<noteq> dp_SnapshotIdentity old
      then Some ErrLLMDisplacementConflict
      else if \<not> flags_monotone old nxt then Some ErrLLMDisplacementConflict
      else if take (length (dp_CommandIntents old)) (dp_CommandIntents nxt) \<noteq> dp_CommandIntents old
      then Some ErrLLMDisplacementConflict
      else if take (length (dp_ObservedResults old)) (dp_ObservedResults nxt) \<noteq> dp_ObservedResults old
      then Some ErrLLMDisplacementConflict
      else if \<not> appended_intent_ok old nxt then Some ErrLLMDisplacementConflict
      else if \<not> appended_result_ok old nxt then Some ErrLLMDisplacementConflict
      else if \<not> result_bound nxt then Some ErrLLMDisplacementConflict
      else if \<not> boundary_observed nxt then Some ErrLLMDisplacementConflict
      else validateLLMDisplacementIdentity (nxt\<lparr>dp_Revision := dp_Revision nxt + 1\<rparr>))"

section \<open>Operations\<close>

definition plan_matches :: "llm_displacement_operation \<Rightarrow> workload \<Rightarrow> displacement_model_binding \<Rightarrow> bool" where
  "plan_matches p w b \<longleftrightarrow>
     (case wl_Plan w of
        None \<Rightarrow> False
      | Some plan \<Rightarrow> ep_WorkloadID plan = rq_ID (wl_Request w) \<and> ep_ID plan = dmb_ControllerPlanID b \<and>
          ep_PlanHash plan = dmb_ControllerPlanHash b \<and> ep_TargetID plan = dmb_TargetID b \<and>
          ep_AcceleratorID plan = dp_AcceleratorID p \<and> wl_ProgressNode w = dp_NodeID p)"

definition validateLLMDisplacementWorld ::
    "llm_displacement_operation \<Rightarrow> workload option \<Rightarrow> workload option \<Rightarrow> accelerator_lease option \<Rightarrow>
     time \<Rightarrow> error option" where
  "validateLLMDisplacementWorld p victim urgent currentLease now =
     (case (victim, urgent) of
        (Some v, Some u) \<Rightarrow>
          if rq_ID (wl_Request v) \<noteq> dp_VictimWorkloadID p \<or> rq_ID (wl_Request u) \<noteq> dp_UrgentWorkloadID p \<or>
             rq_OwnerID (wl_Request v) \<noteq> dp_VictimOwnerID p \<or> rq_OwnerID (wl_Request u) \<noteq> dp_UrgentOwnerID p \<or>
             wl_Revision v \<noteq> dp_VictimWorkloadRevision p \<or> wl_Revision u \<noteq> dp_UrgentWorkloadRevision p
          then Some ErrLLMDisplacementConflict
          else if \<not> plan_matches p v (dp_VictimBinding p) \<or> \<not> plan_matches p u (dp_UrgentBinding p)
          then Some ErrLLMDisplacementConflict
          else (case currentLease of
                  None \<Rightarrow> Some ErrLLMDisplacementConflict
                | Some l \<Rightarrow>
                    if ls_AcceleratorID l \<noteq> dp_AcceleratorID p \<or> ls_WorkloadID l \<noteq> dp_VictimWorkloadID p \<or>
                       ls_FencingToken l \<noteq> sint (dp_Fence p) \<or>
                       Some (ls_ExpiresAt l) \<noteq> map_option ls_ExpiresAt (dp_OriginalLease p) \<or>
                       ls_ExpiresAt l \<le> now
                    then Some ErrLLMDisplacementConflict else None)
      | _ \<Rightarrow> Some ErrLLMDisplacementConflict)"

definition unsealed_planned :: "llm_displacement_operation \<Rightarrow> bool" where
  "unsealed_planned p \<longleftrightarrow>
     \<not> (dp_Phase p \<noteq> ''planned'' \<or> dp_CommandIntents p \<noteq> [] \<or> dp_ObservedResults p \<noteq> [] \<or>
        dp_SnapshotObserved p \<or> dp_SnapshotIdentity p \<noteq> '''' \<or> dp_SafeBoundaryObserved p \<or>
        dp_VictimStopObserved p \<or> dp_UrgentLoadObserved p \<or> dp_UrgentStopObserved p \<or>
        dp_VictimReloadObserved p \<or> dp_KVRestoreObserved p \<or> dp_LeaseSettled p \<or>
        dp_SnapshotCustodySettled p \<or> dp_ObservedProof p \<noteq> '''' \<or> dp_Revision p \<noteq> 0)"

definition prepareLLMDisplacementCreate ::
    "time \<Rightarrow> llm_displacement_operation option \<Rightarrow> error + llm_displacement_operation" where
  "prepareLLMDisplacementCreate now op =
     (case op of
        None \<Rightarrow> Inl (Err ''llm displacement identity is incomplete'')
      | Some p \<Rightarrow>
     (let out = (if dp_Phase p = '''' then p\<lparr>dp_Phase := ''planned''\<rparr> else p) in
      if \<not> unsealed_planned out
      then Inl (Err ''llm displacement must begin as unsealed planned intent'')
      else case validateLLMDisplacementIdentity (out\<lparr>dp_Revision := 1\<rparr>) of
             Some err \<Rightarrow> Inl err
           | None \<Rightarrow>
             (let created = (if dp_CreatedAt out = 0 then truncate_us now else truncate_us (dp_CreatedAt out))
              in Inr (out\<lparr>dp_Revision := 1, dp_CreatedAt := created,
                        dp_UpdatedAt := (if dp_UpdatedAt out = 0 then created
                                         else truncate_us (dp_UpdatedAt out))\<rparr>))))"

definition displacement_key :: "llm_displacement_operation \<Rightarrow> string" where
  "displacement_key p = nul_join (dp_OwnerID p) (dp_IdempotencyKey p)"

definition replay_displacement :: "memory_store \<Rightarrow> llm_displacement_operation option \<Rightarrow>
    llm_displacement_operation \<Rightarrow> memory_store \<times> (error + llm_displacement_operation \<times> bool)" where
  "replay_displacement m old prepared =
     (case old of
        None \<Rightarrow> (m, Inl ErrLLMDisplacementConflict)
      | Some q \<Rightarrow>
          if validateLLMDisplacementIdentity q \<noteq> None then (m, Inl ErrLLMDisplacementConflict)
          else if displacementIdentityEqual q prepared then (m, Inr (q, False))
          else (m, Inl ErrLLMDisplacementConflict))"

text \<open>The clock is read twice: when the row is prepared and, under the lock, for the lease check.\<close>

definition CreateLLMDisplacementOperation ::
    "time \<times> time \<Rightarrow> memory_store \<Rightarrow> llm_displacement_operation option \<Rightarrow>
     memory_store \<times> (error + llm_displacement_operation \<times> bool)" where
  "CreateLLMDisplacementOperation clock m op =
     (case prepareLLMDisplacementCreate (fst clock) op of
        Inl err \<Rightarrow> (m, Inl err)
      | Inr prepared \<Rightarrow>
     (case map_of (llmDisplacementOps m) (dp_ID prepared) of
        Some old \<Rightarrow> replay_displacement m (Some old) prepared
      | None \<Rightarrow>
     (let key = displacement_key prepared; rid = mget_zero '''' (llmDisplacementKeys m) key in
      if rid \<noteq> '''' then replay_displacement m (map_of (llmDisplacementOps m) rid) prepared
      else if list_ex (\<lambda>old. dp_AcceleratorID old = dp_AcceleratorID prepared \<and>
                             displacementRecordRetainsCustody old) (mvalues (llmDisplacementOps m))
      then (m, Inl ErrLLMDisplacementConflict)
      else case validateLLMDisplacementWorld prepared (map_of (workloads m) (dp_VictimWorkloadID prepared))
                  (map_of (workloads m) (dp_UrgentWorkloadID prepared))
                  (map_of (leases m) (dp_AcceleratorID prepared)) (snd clock) of
             Some err \<Rightarrow> (m, Inl err)
           | None \<Rightarrow>
             (m\<lparr>llmDisplacementOps := mput (dp_ID prepared) prepared (llmDisplacementOps m),
                llmDisplacementKeys := mput key (dp_ID prepared) (llmDisplacementKeys m)\<rparr>,
              Inr (prepared, True)))))"

definition GetLLMDisplacementOperation ::
    "memory_store \<Rightarrow> string \<Rightarrow> error + llm_displacement_operation" where
  "GetLLMDisplacementOperation m rid =
     (case map_of (llmDisplacementOps m) rid of None \<Rightarrow> Inl ErrNotFound | Some p \<Rightarrow> Inr p)"

definition GetLLMDisplacementOperationByIdempotency ::
    "memory_store \<Rightarrow> string \<Rightarrow> string \<Rightarrow> error + llm_displacement_operation" where
  "GetLLMDisplacementOperationByIdempotency m owner key =
     (let rid = mget_zero '''' (llmDisplacementKeys m) (nul_join owner key) in
      if rid = '''' then Inl ErrNotFound
      else case map_of (llmDisplacementOps m) rid of None \<Rightarrow> Inl ErrNotFound | Some p \<Rightarrow> Inr p)"

definition UpdateLLMDisplacementOperation ::
    "time \<Rightarrow> u64 \<Rightarrow> memory_store \<Rightarrow> llm_displacement_operation option \<Rightarrow>
     memory_store \<times> (error + llm_displacement_operation)" where
  "UpdateLLMDisplacementOperation now expected m op =
     (case op of
        None \<Rightarrow> (m, Inl (Err ''llm displacement identity is incomplete''))
      | Some nxt \<Rightarrow>
     (case map_of (llmDisplacementOps m) (dp_ID nxt) of
        None \<Rightarrow> (m, Inl ErrNotFound)
      | Some old \<Rightarrow>
     (case validateDisplacementUpdate old nxt expected of
        Some err \<Rightarrow> (m, Inl err)
      | None \<Rightarrow>
        (let stored = nxt\<lparr>dp_Revision := dp_Revision old + 1, dp_CreatedAt := dp_CreatedAt old,
                         dp_UpdatedAt := truncate_us now\<rparr>
         in (m\<lparr>llmDisplacementOps := mput (dp_ID nxt) stored (llmDisplacementOps m)\<rparr>, Inr stored)))))"

definition ListLLMDisplacementOperations :: "memory_store \<Rightarrow> string \<Rightarrow> llm_displacement_operation list" where
  "ListLLMDisplacementOperations m owner =
     filter (\<lambda>p. owner = '''' \<or> dp_OwnerID p = owner) (mvalues (llmDisplacementOps m))"

inductive displacement_step :: "memory_store \<Rightarrow> memory_store \<Rightarrow> bool" where
  create_displacement: "displacement_step m (fst (CreateLLMDisplacementOperation clock m op))"
| update_displacement: "displacement_step m (fst (UpdateLLMDisplacementOperation now expected m op))"

section \<open>What validation guarantees\<close>

lemma validate_displacement_eq_None:
  "validateLLMDisplacementIdentity p = None \<longleftrightarrow>
     displacement_fields_ok p \<and>
     length (dp_ObservedProof p) \<le> 8192 \<and> length (dp_LastError p) \<le> 2048 \<and>
     length (dp_CommandIntents p) \<le> length displacementSteps \<and>
     length (dp_ObservedResults p) \<le> length displacementSteps \<and>
     check_intents 0 [] (dp_CommandIntents p) = None \<and>
     length (dp_ObservedResults p) \<le> length (dp_CommandIntents p) \<and>
     check_results (dp_CommandIntents p) 0 [] (dp_ObservedResults p) = None \<and>
     validLLMDisplacementBinding (dp_VictimBinding p) \<and> validLLMDisplacementBinding (dp_UrgentBinding p) \<and>
     (\<forall>r \<in> set (dp_ObservedResults p). dor_ProofBinding r = dp_ProofBinding p) \<and>
     displacement_flags_agree p \<and> phase_history_error p = None \<and> snapshot_error p = None \<and>
     completion_error p = None"
  unfolding validateLLMDisplacementIdentity_def guards list_ex_iff bex_simps not_not not_less
    de_Morgan_disj by blast

lemma displacement_parts_ignore_version [simp]:
  fixes p a b
  defines "q \<equiv> p\<lparr>dp_CreatedAt := a, dp_UpdatedAt := b\<rparr>"
  shows "displacement_fields_ok q = displacement_fields_ok p"
    and "displacement_flags_agree q = displacement_flags_agree p"
    and "phase_history_error q = phase_history_error p"
    and "snapshot_error q = snapshot_error p"
    and "completion_error q = completion_error p"
  unfolding q_def
  by (simp_all add: displacement_fields_ok_def displacement_flags_agree_def hasDisplacementResult_def
      phase_history_error_def snapshot_error_def completion_error_def Let_def
      cong: option.case_cong if_cong)

lemma validate_displacement_version:
  "validateLLMDisplacementIdentity (p\<lparr>dp_Revision := r, dp_CreatedAt := a, dp_UpdatedAt := b\<rparr>) =
   validateLLMDisplacementIdentity (p\<lparr>dp_Revision := r\<rparr>)"
  unfolding validateLLMDisplacementIdentity_def displacement_parts_ignore_version
  by (simp cong: option.case_cong if_cong)

lemma check_intents_ok:
  "check_intents i seen cs = None \<Longrightarrow>
     map dci_Step cs = take (length cs) (drop i displacementSteps) \<and>
     distinct (map dci_CommandID cs) \<and> set (map dci_CommandID cs) \<inter> set seen = {} \<and>
     i + length cs \<le> max i (length displacementSteps)"
proof (induction cs arbitrary: i seen)
  case (Cons c cs)
  then have c: "i < length displacementSteps" "dci_Step c = displacementSteps ! i"
      "dci_CommandID c \<notin> set seen" "check_intents (i + 1) (dci_CommandID c # seen) cs = None"
    by (auto split: if_splits)
  then have "drop i displacementSteps = dci_Step c # drop (i + 1) displacementSteps"
    by (metis Suc_eq_plus1 Cons_nth_drop_Suc)
  with c Cons.IH [OF c(4)] show ?case by auto
qed simp

lemma check_results_ok:
  "check_results intents i seen rs = None \<Longrightarrow> i + length rs \<le> length displacementSteps \<Longrightarrow>
     i + length rs \<le> length intents \<Longrightarrow>
     map dor_Step rs = take (length rs) (drop i displacementSteps) \<and>
     map dor_CommandID rs = map dci_CommandID (take (length rs) (drop i intents)) \<and>
     distinct (map dor_ResultID rs) \<and> set (map dor_ResultID rs) \<inter> set seen = {} \<and>
     (\<forall>r \<in> set rs. dor_EnvelopeDigest r = observedResultEnvelopeDigest r)"
proof (induction rs arbitrary: i seen)
  case (Cons r rs)
  then have r: "dor_Step r = displacementSteps ! i" "dor_ResultID r \<notin> set seen"
      "dci_CommandID (intents ! i) = dor_CommandID r" "dor_EnvelopeDigest r = observedResultEnvelopeDigest r"
      "check_results intents (i + 1) (dor_ResultID r # seen) rs = None"
    by (auto split: if_splits)
  have "drop i displacementSteps = displacementSteps ! i # drop (i + 1) displacementSteps"
    and "drop i intents = intents ! i # drop (i + 1) intents"
    using Cons.prems(2,3) by (simp_all add: Cons_nth_drop_Suc)
  with r Cons.IH [OF r(5)] Cons.prems(2,3) show ?case by auto
qed simp

text \<open>
  The journal of a validated row: its intents and its results are the first steps of the
  protocol in order, each result carries the command id of the intent of its step, and command
  ids and result ids do not repeat.
\<close>

definition journal_ok :: "llm_displacement_operation \<Rightarrow> bool" where
  "journal_ok p \<longleftrightarrow>
     (let cs = dp_CommandIntents p; rs = dp_ObservedResults p in
      map dci_Step cs = take (length cs) displacementSteps \<and>
      map dor_Step rs = take (length rs) displacementSteps \<and>
      length rs \<le> length cs \<and> length cs \<le> length rs + 1 \<and>
      map dor_CommandID rs = map dci_CommandID (take (length rs) cs) \<and>
      distinct (map dci_CommandID cs) \<and> distinct (map dor_ResultID rs) \<and>
      (\<forall>r \<in> set rs. dor_ProofBinding r = dp_ProofBinding p \<and>
         dor_EnvelopeDigest r = observedResultEnvelopeDigest r))"

lemma index_of_phase:
  "index_of phase displacementPhases = Some i \<Longrightarrow> i < 18 \<and> displacementPhases ! i = phase \<and>
     (phase = ''completed'' \<longleftrightarrow> i = 17)"
  by (auto simp: displacementPhases_def split: if_splits)

lemma phase_history_lengths:
  assumes "phase_history_error p = None"
  shows "length (dp_ObservedResults p) \<le> length (dp_CommandIntents p) \<and>
    length (dp_CommandIntents p) \<le> length (dp_ObservedResults p) + 1"
proof (cases "reconciling (dp_Phase p)")
  case True
  with assms show ?thesis by (auto simp: phase_history_error_def Let_def split: if_splits)
next
  case False
  with assms obtain i where "index_of (dp_Phase p) displacementPhases = Some i"
      "length (dp_CommandIntents p) = (if dp_Phase p = ''completed'' then 8 else (i + 1) div 2)"
      "length (dp_ObservedResults p) = (if dp_Phase p = ''completed'' then 8 else i div 2)"
    by (auto simp: phase_history_error_def Let_def split: option.splits if_splits)
  then show ?thesis by (cases "dp_Phase p = ''completed''") auto
qed

lemma valid_displacement_journal:
  assumes "validateLLMDisplacementIdentity p = None"
  shows "journal_ok p"
proof -
  note v = assms [unfolded validate_displacement_eq_None]
  have "check_intents 0 [] (dp_CommandIntents p) = None" using v by blast
  from check_intents_ok [OF this] have
    "map dci_Step (dp_CommandIntents p) = take (length (dp_CommandIntents p)) displacementSteps"
    "distinct (map dci_CommandID (dp_CommandIntents p))" by simp_all
  moreover have "check_results (dp_CommandIntents p) 0 [] (dp_ObservedResults p) = None"
    "0 + length (dp_ObservedResults p) \<le> length displacementSteps"
    "0 + length (dp_ObservedResults p) \<le> length (dp_CommandIntents p)" using v by simp_all
  from check_results_ok [OF this] have
    "map dor_Step (dp_ObservedResults p) = take (length (dp_ObservedResults p)) displacementSteps"
    "map dor_CommandID (dp_ObservedResults p) =
       map dci_CommandID (take (length (dp_ObservedResults p)) (dp_CommandIntents p))"
    "distinct (map dor_ResultID (dp_ObservedResults p))"
    "\<forall>r \<in> set (dp_ObservedResults p). dor_EnvelopeDigest r = observedResultEnvelopeDigest r" by simp_all
  moreover have "phase_history_error p = None" using v by blast
  note phase_history_lengths [OF this]
  moreover have "\<forall>r \<in> set (dp_ObservedResults p). dor_ProofBinding r = dp_ProofBinding p" using v by blast
  ultimately show ?thesis unfolding journal_ok_def Let_def by blast
qed

section \<open>What the operations do\<close>

lemma displacement_identity_version [simp]:
  "displacement_identity (p\<lparr>dp_Revision := r, dp_CreatedAt := a, dp_UpdatedAt := b\<rparr>) = displacement_identity p"
  by (simp add: displacement_identity_def)

lemma displacement_identity_sel:
  "dp_ID (displacement_identity p) = dp_ID p" "dp_AcceleratorID (displacement_identity p) = dp_AcceleratorID p"
  "dp_OwnerID (displacement_identity p) = dp_OwnerID p"
  "dp_IdempotencyKey (displacement_identity p) = dp_IdempotencyKey p"
  by (simp_all add: displacement_identity_def)

lemma displacement_identity_fields:
  assumes "displacementIdentityEqual p q"
  shows "dp_ID p = dp_ID q" "dp_AcceleratorID p = dp_AcceleratorID q" "displacement_key p = displacement_key q"
proof -
  have e: "displacement_identity p = displacement_identity q"
    using assms by (simp add: displacementIdentityEqual_def)
  show "dp_ID p = dp_ID q" "dp_AcceleratorID p = dp_AcceleratorID q" "displacement_key p = displacement_key q"
    using arg_cong [OF e, of dp_ID] arg_cong [OF e, of dp_AcceleratorID] arg_cong [OF e, of dp_OwnerID]
      arg_cong [OF e, of dp_IdempotencyKey]
    by (simp_all add: displacement_identity_sel displacement_key_def)
qed

lemma prepare_displacement_okD:
  assumes "prepareLLMDisplacementCreate now op = Inr v"
  obtains p created updated where "unsealed_planned p"
    and "validateLLMDisplacementIdentity (p\<lparr>dp_Revision := 1\<rparr>) = None"
    and "v = p\<lparr>dp_Revision := 1, dp_CreatedAt := created, dp_UpdatedAt := updated\<rparr>"
    and "\<And>now'. \<exists>created' updated'. prepareLLMDisplacementCreate now' op =
           Inr (p\<lparr>dp_Revision := 1, dp_CreatedAt := created', dp_UpdatedAt := updated'\<rparr>)"
proof (cases op)
  case None
  with assms show ?thesis by (simp add: prepareLLMDisplacementCreate_def)
next
  case (Some q)
  define p where "p = (if dp_Phase q = '''' then q\<lparr>dp_Phase := ''planned''\<rparr> else q)"
  have "unsealed_planned p \<and> validateLLMDisplacementIdentity (p\<lparr>dp_Revision := 1\<rparr>) = None \<and>
      (\<exists>c u. v = p\<lparr>dp_Revision := 1, dp_CreatedAt := c, dp_UpdatedAt := u\<rparr>)"
    using assms unfolding prepareLLMDisplacementCreate_def Some option.case Let_def p_def [symmetric] guards
    by blast
  moreover from this have "\<exists>c u. prepareLLMDisplacementCreate now' op =
      Inr (p\<lparr>dp_Revision := 1, dp_CreatedAt := c, dp_UpdatedAt := u\<rparr>)" for now'
    unfolding prepareLLMDisplacementCreate_def Some option.case Let_def p_def [symmetric]
    by (simp del: if_split) blast
  ultimately show ?thesis using that by blast
qed

lemma create_displacement_newD:
  assumes "CreateLLMDisplacementOperation clock m op = (m', Inr (v, True))"
  shows "prepareLLMDisplacementCreate (fst clock) op = Inr v"
    and "map_of (llmDisplacementOps m) (dp_ID v) = None"
    and "mget_zero '''' (llmDisplacementKeys m) (displacement_key v) = ''''"
    and "\<forall>p \<in> set (mvalues (llmDisplacementOps m)).
           \<not> (dp_AcceleratorID p = dp_AcceleratorID v \<and> displacementRecordRetainsCustody p)"
    and "validateLLMDisplacementWorld v (map_of (workloads m) (dp_VictimWorkloadID v))
           (map_of (workloads m) (dp_UrgentWorkloadID v)) (map_of (leases m) (dp_AcceleratorID v)) (snd clock) = None"
    and "m' = m\<lparr>llmDisplacementOps := mput (dp_ID v) v (llmDisplacementOps m),
               llmDisplacementKeys := mput (displacement_key v) (dp_ID v) (llmDisplacementKeys m)\<rparr>"
  using assms unfolding CreateLLMDisplacementOperation_def Let_def replay_displacement_def
  by (auto simp: list_ex_iff split: sum.splits option.splits if_splits)

lemma create_displacement_oldD:
  assumes "CreateLLMDisplacementOperation clock m op = (m', Inr (v, False))"
  shows "m' = m" and "\<exists>rid. map_of (llmDisplacementOps m) rid = Some v"
  using assms unfolding CreateLLMDisplacementOperation_def Let_def replay_displacement_def
  by (auto split: sum.splits option.splits if_splits)

lemma create_displacement_errD:
  "CreateLLMDisplacementOperation clock m op = (m', Inl e) \<Longrightarrow> m' = m"
  unfolding CreateLLMDisplacementOperation_def Let_def replay_displacement_def
  by (auto split: sum.splits option.splits if_splits)

lemma update_displacement_errD:
  "UpdateLLMDisplacementOperation now e m op = (m', Inl x) \<Longrightarrow> m' = m"
  unfolding UpdateLLMDisplacementOperation_def Let_def by (auto split: option.splits)

lemma validateDisplacementUpdate_okD:
  assumes "validateDisplacementUpdate old nxt e = None"
  shows "validateLLMDisplacementIdentity old = None" and "dp_Revision nxt = e" and "dp_Revision old = e"
    and "e < word_of_int max_i64" and "displacementIdentityEqual old nxt"
    and "displacementTransitionAllowed (dp_Phase old) (dp_Phase nxt)"
    and "dp_SnapshotIdentity old \<noteq> '''' \<Longrightarrow> dp_SnapshotIdentity nxt = dp_SnapshotIdentity old"
    and "flags_monotone old nxt"
    and "take (length (dp_CommandIntents old)) (dp_CommandIntents nxt) = dp_CommandIntents old"
    and "take (length (dp_ObservedResults old)) (dp_ObservedResults nxt) = dp_ObservedResults old"
    and "validateLLMDisplacementIdentity (nxt\<lparr>dp_Revision := dp_Revision nxt + 1\<rparr>) = None"
  using assms unfolding validateDisplacementUpdate_def guards not_not de_Morgan_disj not_le
  by blast+

lemma update_displacement_okD:
  assumes "UpdateLLMDisplacementOperation now e m op = (m', Inr v)"
  obtains old where "map_of (llmDisplacementOps m) (dp_ID v) = Some old" and "dp_ID v = dp_ID (the op)"
    and "dp_Revision old = e" and "dp_Revision v = e + 1" and "dp_CreatedAt v = dp_CreatedAt old"
    and "validateLLMDisplacementIdentity old = None" and "validateLLMDisplacementIdentity v = None"
    and "displacementIdentityEqual old v" and "displacementTransitionAllowed (dp_Phase old) (dp_Phase v)"
    and "dp_SnapshotIdentity old \<noteq> '''' \<longrightarrow> dp_SnapshotIdentity v = dp_SnapshotIdentity old"
    and "take (length (dp_CommandIntents old)) (dp_CommandIntents v) = dp_CommandIntents old"
    and "take (length (dp_ObservedResults old)) (dp_ObservedResults v) = dp_ObservedResults old"
    and "m' = m\<lparr>llmDisplacementOps := mput (dp_ID v) v (llmDisplacementOps m)\<rparr>"
proof -
  obtain nxt old where u: "op = Some nxt" "map_of (llmDisplacementOps m) (dp_ID nxt) = Some old"
      "validateDisplacementUpdate old nxt e = None"
      "v = nxt\<lparr>dp_Revision := dp_Revision old + 1, dp_CreatedAt := dp_CreatedAt old,
              dp_UpdatedAt := truncate_us now\<rparr>"
      "m' = m\<lparr>llmDisplacementOps := mput (dp_ID nxt) v (llmDisplacementOps m)\<rparr>"
    using assms unfolding UpdateLLMDisplacementOperation_def Let_def
    by (auto split: option.splits)
  note d = validateDisplacementUpdate_okD [OF u(3)]
  have "validateLLMDisplacementIdentity v = None"
    using d(2,3,11) unfolding u(4) validate_displacement_version by simp
  moreover have "displacementIdentityEqual old v"
    using d(5) unfolding u(4) displacementIdentityEqual_def by simp
  moreover have "dp_ID v = dp_ID nxt" "dp_Revision v = dp_Revision old + 1" "dp_CreatedAt v = dp_CreatedAt old"
      "dp_Phase v = dp_Phase nxt" "dp_SnapshotIdentity v = dp_SnapshotIdentity nxt"
      "dp_CommandIntents v = dp_CommandIntents nxt" "dp_ObservedResults v = dp_ObservedResults nxt"
    by (simp_all add: u(4))
  ultimately show ?thesis
    using u(1,2,5) d(1-3,6-7,9,10) by (intro that [of old]) simp_all
qed

section \<open>The contracts of the journal\<close>

interpretation displacement_create: idempotent_create
  "\<lambda>m. map_of (llmDisplacementOps m)" dp_ID CreateLLMDisplacementOperation
proof
  fix t m op m' v
  assume c: "CreateLLMDisplacementOperation t m op = (m', Inr (v, True))"
  note d = create_displacement_newD [OF c]
  from d show "map_of (llmDisplacementOps m) (dp_ID v) = None \<and>
      map_of (llmDisplacementOps m') = (map_of (llmDisplacementOps m))(dp_ID v \<mapsto> v)" by simp
  fix t' :: "time \<times> time"
  from d(1) obtain p created updated created' updated' where p:
      "validateLLMDisplacementIdentity (p\<lparr>dp_Revision := 1\<rparr>) = None"
      "v = p\<lparr>dp_Revision := 1, dp_CreatedAt := created, dp_UpdatedAt := updated\<rparr>"
      "prepareLLMDisplacementCreate (fst t') op =
         Inr (p\<lparr>dp_Revision := 1, dp_CreatedAt := created', dp_UpdatedAt := updated'\<rparr>)"
    by (rule prepare_displacement_okD) blast
  have "validateLLMDisplacementIdentity v = None"
    using p(1) unfolding p(2) validate_displacement_version .
  then show "CreateLLMDisplacementOperation t' m' op = (m', Inr (v, False))"
    using d(6) p(2)
    by (simp add: CreateLLMDisplacementOperation_def p(3) replay_displacement_def displacementIdentityEqual_def)
qed (auto dest: create_displacement_oldD create_displacement_errD)

interpretation displacement_cas: cas_row
  "\<lambda>m. map_of (llmDisplacementOps m)" dp_Revision "\<lambda>op. dp_ID (the op)"
  "UpdateLLMDisplacementOperation now" for now
proof
  fix e m op m' v
  assume "UpdateLLMDisplacementOperation now e m op = (m', Inr v)"
  then show "(\<exists>old. map_of (llmDisplacementOps m) (dp_ID (the op)) = Some old \<and> dp_Revision old = e) \<and>
      dp_Revision v = e + 1 \<and>
      map_of (llmDisplacementOps m') = (map_of (llmDisplacementOps m))(dp_ID (the op) \<mapsto> v)"
    by (rule update_displacement_okD) auto
qed (auto dest: update_displacement_errD)

section \<open>Invariants\<close>

definition custody_conflict :: "llm_displacement_operation \<Rightarrow> llm_displacement_operation \<Rightarrow> bool" where
  "custody_conflict p q \<longleftrightarrow>
     dp_AcceleratorID p = dp_AcceleratorID q \<and>
     displacementRecordRetainsCustody p \<and> displacementRecordRetainsCustody q"

definition displacement_inv :: "memory_store \<Rightarrow> bool" where
  "displacement_inv m \<longleftrightarrow>
     indexed_table dp_ID displacement_key (llmDisplacementOps m) (llmDisplacementKeys m) \<and>
     conflict_free custody_conflict (llmDisplacementOps m) \<and>
     (\<forall>i p. map_of (llmDisplacementOps m) i = Some p \<longrightarrow> validateLLMDisplacementIdentity p = None)"

lemma transition_progress:
  assumes "displacementTransitionAllowed src dst"
  shows "src \<noteq> ''completed'' \<and>
    (reconciling dst \<or>
     (\<exists>i. index_of src displacementPhases = Some i \<and> index_of dst displacementPhases = Some (i + 1)))"
proof (cases "reconciling dst")
  case True
  with assms show ?thesis by (auto simp: displacementTransitionAllowed_def)
next
  case False
  with assms obtain i where i: "index_of src displacementPhases = Some i" "i + 1 < length displacementPhases"
      "displacementPhases ! (i + 1) = dst"
    by (auto simp: displacementTransitionAllowed_def split: option.splits)
  have "list_all (\<lambda>j. index_of (displacementPhases ! j) displacementPhases = Some j) [0..<18]" by code_simp
  then have "index_of (displacementPhases ! j) displacementPhases = Some j" if "j < 18" for j
    using that by (simp add: list_all_iff)
  moreover have "length displacementPhases = 18" by (simp add: displacementPhases_def)
  ultimately show ?thesis using i index_of_phase [OF i(1)] by auto
qed

lemma index_of_mem: "index_of x xs = Some i \<Longrightarrow> x \<in> set xs"
  by (induction xs arbitrary: i) (auto split: if_splits)

lemma transition_not_reconciling:
  assumes "displacementTransitionAllowed src dst"
  shows "\<not> reconciling src"
proof (cases "reconciling dst")
  case True
  with assms show ?thesis by (simp add: displacementTransitionAllowed_def)
next
  case False
  have "list_all (\<lambda>phase. \<not> reconciling phase) displacementPhases" by code_simp
  moreover have "src \<in> set displacementPhases"
    using False assms index_of_mem by (auto simp: displacementTransitionAllowed_def split: option.splits)
  ultimately show ?thesis by (auto simp: list_all_iff)
qed

lemma create_displacement_state:
  "fst (CreateLLMDisplacementOperation clock m op) = m \<or>
   (\<exists>v. CreateLLMDisplacementOperation clock m op =
      (fst (CreateLLMDisplacementOperation clock m op), Inr (v, True)))"
proof (cases "CreateLLMDisplacementOperation clock m op")
  case (Pair m' r)
  then show ?thesis
  proof (cases r)
    case (Inr p)
    obtain v b where "p = (v, b)" by (cases p)
    with Pair Inr show ?thesis
      by (cases b) (auto dest: create_displacement_oldD(1))
  qed (auto dest: create_displacement_errD)
qed

lemma update_displacement_state:
  "fst (UpdateLLMDisplacementOperation now e m op) = m \<or>
   (\<exists>v. UpdateLLMDisplacementOperation now e m op =
      (fst (UpdateLLMDisplacementOperation now e m op), Inr v))"
proof (cases "UpdateLLMDisplacementOperation now e m op")
  case (Pair m' r)
  then show ?thesis by (cases r) (auto dest: update_displacement_errD)
qed

lemma created_displacement_valid:
  assumes "prepareLLMDisplacementCreate now op = Inr v"
  shows "validateLLMDisplacementIdentity v = None"
  using assms by (rule prepare_displacement_okD) (simp add: validate_displacement_version)

lemma valid_displacement_ID:
  "validateLLMDisplacementIdentity v = None \<Longrightarrow> dp_ID v \<noteq> ''''"
  unfolding validate_displacement_eq_None displacement_fields_ok_def by (elim conjE) auto

lemma create_displacement_inv:
  assumes "displacement_inv m"
  shows "displacement_inv (fst (CreateLLMDisplacementOperation clock m op))"
proof (cases "fst (CreateLLMDisplacementOperation clock m op) = m")
  case False
  then obtain v where c: "CreateLLMDisplacementOperation clock m op =
      (fst (CreateLLMDisplacementOperation clock m op), Inr (v, True))"
    using create_displacement_state by blast
  note d = create_displacement_newD [OF c]
  note valid = created_displacement_valid [OF d(1)]
  have "indexed_table dp_ID displacement_key (mput (dp_ID v) v (llmDisplacementOps m))
      (mput (displacement_key v) (dp_ID v) (llmDisplacementKeys m))"
    using assms valid_displacement_ID [OF valid] d(2,3) unfolding displacement_inv_def
    by (intro indexed_table_insert) simp_all
  moreover have "conflict_free custody_conflict (mput (dp_ID v) v (llmDisplacementOps m))"
    using assms d(4) map_of_in_mvalues [of "llmDisplacementOps m"]
    unfolding displacement_inv_def custody_conflict_def by (intro conflict_free_put) (metis | blast)+
  ultimately show ?thesis
    using assms valid unfolding displacement_inv_def d(6) by simp
qed (use assms in simp)

lemma update_displacement_inv:
  assumes "displacement_inv m"
  shows "displacement_inv (fst (UpdateLLMDisplacementOperation now e m op))"
proof (cases "fst (UpdateLLMDisplacementOperation now e m op) = m")
  case False
  then obtain v where c: "UpdateLLMDisplacementOperation now e m op =
      (fst (UpdateLLMDisplacementOperation now e m op), Inr v)" (is "_ = (?m, _)")
    using update_displacement_state by blast
  then obtain old where u: "map_of (llmDisplacementOps m) (dp_ID v) = Some old"
      "validateLLMDisplacementIdentity v = None" "displacementIdentityEqual old v"
      "displacementTransitionAllowed (dp_Phase old) (dp_Phase v)"
      "?m = m\<lparr>llmDisplacementOps := mput (dp_ID v) v (llmDisplacementOps m)\<rparr>"
    by (rule update_displacement_okD)
  note f = displacement_identity_fields [OF u(3)]
  have "displacementRecordRetainsCustody old"
    using transition_progress [OF u(4)] by (simp add: displacementRecordRetainsCustody_def)
  then have "\<not> custody_conflict q v \<and> \<not> custody_conflict v q"
    if "map_of (llmDisplacementOps m) j = Some q" "j \<noteq> dp_ID v" for j q
    using that assms u(1) f(2) unfolding displacement_inv_def conflict_free_def custody_conflict_def by metis
  then have "conflict_free custody_conflict (mput (dp_ID v) v (llmDisplacementOps m))"
    using assms unfolding displacement_inv_def by (intro conflict_free_put) blast+
  moreover have "indexed_table dp_ID displacement_key (mput (dp_ID v) v (llmDisplacementOps m)) (llmDisplacementKeys m)"
    using assms u(1) f(3) unfolding displacement_inv_def
    by (intro indexed_table_replace [where w = old]) simp_all
  ultimately show ?thesis
    using assms u(2) unfolding displacement_inv_def u(5) by simp
qed (use assms in simp)

lemma displacement_step_inv: "displacement_step m m' \<Longrightarrow> displacement_inv m \<Longrightarrow> displacement_inv m'"
  by (induction rule: displacement_step.induct) (simp_all add: create_displacement_inv update_displacement_inv)

lemma displacement_step_frame:
  assumes "displacement_step m m'"
  shows "m' = m\<lparr>llmDisplacementOps := llmDisplacementOps m', llmDisplacementKeys := llmDisplacementKeys m'\<rparr>"
  using assms
proof (cases rule: displacement_step.cases)
  case (create_displacement clock op)
  show ?thesis
  proof (cases "m' = m")
    case False
    then obtain v where "CreateLLMDisplacementOperation clock m op = (m', Inr (v, True))"
      using create_displacement_state [of clock m op] unfolding create_displacement by blast
    from create_displacement_newD(6) [OF this] show ?thesis by simp
  qed simp
next
  case (update_displacement now e op)
  show ?thesis
  proof (cases "m' = m")
    case False
    then obtain v where "UpdateLLMDisplacementOperation now e m op = (m', Inr v)"
      using update_displacement_state [of now e m op] unfolding update_displacement by blast
    then show ?thesis by (rule update_displacement_okD) simp
  qed simp
qed

section \<open>Properties\<close>

text \<open>A complete request, for concrete runs.\<close>

definition sample_binding :: "string \<Rightarrow> displacement_model_binding" where
  "sample_binding target = \<lparr>
     dmb_TargetID = target, dmb_NodeID = ''n'', dmb_AcceleratorID = ''gpu0'', dmb_CatalogModel = ''m'',
     dmb_CatalogAliases = [''a'', ''b''], dmb_ActualAlias = ''a'', dmb_LocalPlanID = ''lp'',
     dmb_LocalPlanHash = ''lh'', dmb_ControllerPlanID = ''cp'', dmb_ControllerPlanHash = ''ch'',
     dmb_ArtifactID = ''ar'', dmb_ArtifactDigest = ''ad'', dmb_RuntimeIdentity = ''r'',
     dmb_ProfileIdentity = ''p'', dmb_ContextIdentity = ''c'', dmb_CheckpointID = ''ck'',
     dmb_CheckpointDigest = ''cd'', dmb_ProofBinding = ''pb''\<rparr>"

definition zero_llm_displacement_operation :: llm_displacement_operation where
  "zero_llm_displacement_operation = \<lparr>
     dp_ID = '''', dp_IdempotencyKey = '''', dp_OwnerID = '''', dp_VictimWorkloadID = '''',
     dp_VictimOwnerID = '''', dp_VictimWorkloadRevision = 0, dp_UrgentWorkloadID = '''',
     dp_UrgentOwnerID = '''', dp_UrgentWorkloadRevision = 0, dp_AcceleratorID = '''',
     dp_NodeID = '''', dp_OriginalLease = None, dp_Fence = 0,
     dp_VictimBinding = sample_binding [],
     dp_UrgentBinding = sample_binding [], dp_ProofBinding = '''',
     dp_Phase = '''', dp_Revision = 0, dp_CommandIntents = [], dp_ObservedResults = [],
     dp_SnapshotIdentity = '''', dp_SafeBoundaryObserved = False, dp_VictimStopObserved = False,
     dp_SnapshotObserved = False, dp_UrgentLoadObserved = False, dp_UrgentStopObserved = False,
     dp_VictimReloadObserved = False, dp_KVRestoreObserved = False, dp_LeaseSettled = False,
     dp_SnapshotCustodySettled = False, dp_ObservedProof = '''', dp_LastError = '''',
     dp_CreatedAt = 0, dp_UpdatedAt = 0\<rparr>"

definition sample_displacement :: llm_displacement_operation where
  "sample_displacement = zero_llm_displacement_operation\<lparr>
     dp_ID := ''d-1'', dp_IdempotencyKey := ''k'', dp_OwnerID := ''o'', dp_VictimWorkloadID := ''v'',
     dp_VictimOwnerID := ''vo'', dp_VictimWorkloadRevision := 1, dp_UrgentWorkloadID := ''u'',
     dp_UrgentOwnerID := ''uo'', dp_UrgentWorkloadRevision := 1, dp_AcceleratorID := ''gpu0'',
     dp_NodeID := ''n'', dp_OriginalLease := Some \<lparr>ls_AcceleratorID = ''gpu0'', ls_WorkloadID = ''v'',
       ls_FencingToken = 7, ls_ExpiresAt = 90000\<rparr>,
     dp_Fence := 7, dp_VictimBinding := sample_binding ''tv'', dp_UrgentBinding := sample_binding ''tu'',
     dp_ProofBinding := ''pb'', dp_Phase := ''planned'', dp_Revision := 1\<rparr>"

definition sample_intent :: displacement_command_intent where
  "sample_intent = \<lparr>dci_Step = ''pause'', dci_CommandID = ''c1'', dci_Digest = ''dg'', dci_Signature = ''sg''\<rparr>"

definition sample_displacement_store :: memory_store where
  "sample_displacement_store = NewMemoryStore\<lparr>
     llmDisplacementOps := [(''d-1'', sample_displacement)],
     llmDisplacementKeys := [(''o'' @ NUL # ''k'', ''d-1'')]\<rparr>"



text \<open>A sequence of updates of the journal: the rows that the successful ones store.\<close>

fun displacement_updates :: "memory_store \<Rightarrow> (time \<times> u64 \<times> llm_displacement_operation option) list \<Rightarrow>
    llm_displacement_operation list" where
  "displacement_updates m [] = []"
| "displacement_updates m ((now, e, op) # us) =
     (case UpdateLLMDisplacementOperation now e m op of
        (m', Inl x) \<Rightarrow> displacement_updates m' us
      | (m', Inr v) \<Rightarrow> v # displacement_updates m' us)"

lemma valid_revision_bound:
  assumes "validateLLMDisplacementIdentity p = None"
  shows "unat (dp_Revision p) \<le> 18"
proof -
  have h: "phase_history_error p = None" and l: "length (dp_CommandIntents p) \<le> 8" "length (dp_ObservedResults p) \<le> 8"
    using assms by (auto simp: validate_displacement_eq_None displacementSteps_def)
  show ?thesis
  proof (cases "reconciling (dp_Phase p)")
    case True
    with h have "dp_Revision p = of_nat (length (dp_CommandIntents p) + length (dp_ObservedResults p) + 2)"
      by (auto simp: phase_history_error_def Let_def split: if_splits)
    then have "unat (dp_Revision p) \<le> length (dp_CommandIntents p) + length (dp_ObservedResults p) + 2"
      by (simp add: unat_of_nat del: of_nat_add of_nat_Suc)
    with l show ?thesis by simp
  next
    case False
    with h obtain i where i: "index_of (dp_Phase p) displacementPhases = Some i" "dp_Revision p = of_nat (i + 1)"
      by (auto simp: phase_history_error_def Let_def split: option.splits if_splits)
    then have "unat (dp_Revision p) \<le> i + 1" by (simp add: unat_of_nat del: of_nat_add of_nat_Suc)
    with index_of_phase [OF i(1)] show ?thesis by simp
  qed
qed

lemma unat_succ: "unat (e :: u64) \<le> 18 \<Longrightarrow> unat (e + 1) = unat e + 1"
  by (simp add: unat_word_ariths)

lemma displacement_updates_bound:
  assumes "displacement_inv m"
  shows "case map_of (llmDisplacementOps m) i of
      None \<Rightarrow> length (filter (\<lambda>v. dp_ID v = i) (displacement_updates m us)) = 0
    | Some p \<Rightarrow> unat (dp_Revision p) + length (filter (\<lambda>v. dp_ID v = i) (displacement_updates m us)) \<le> 18"
  using assms
proof (induction us arbitrary: m)
  case Nil
  then show ?case
    using valid_revision_bound by (auto simp: displacement_inv_def split: option.splits)
next
  case (Cons a us)
  obtain now e op where a: "a = (now, e, op)" by (cases a)
  obtain m' r where r: "UpdateLLMDisplacementOperation now e m op = (m', r)" by fastforce
  have inv: "displacement_inv m'" using update_displacement_inv [OF Cons.prems, of now e op] r by simp
  show ?case
  proof (cases r)
    case (Inl x)
    with r have "m' = m" by (simp add: update_displacement_errD)
    moreover have "displacement_updates m (a # us) = displacement_updates m' us" using r Inl a by simp
    ultimately show ?thesis using Cons.IH [OF inv] by (simp split: option.splits)
  next
    case (Inr v)
    with r have "UpdateLLMDisplacementOperation now e m op = (m', Inr v)" by simp
    then obtain old where o': "map_of (llmDisplacementOps m) (dp_ID v) = Some old" "dp_Revision old = e"
        "dp_Revision v = e + 1" "validateLLMDisplacementIdentity old = None"
        "m' = m\<lparr>llmDisplacementOps := mput (dp_ID v) v (llmDisplacementOps m)\<rparr>"
      by (rule update_displacement_okD)
    have "unat (e + 1) = unat e + 1"
      using valid_revision_bound [OF o'(4)] o'(2) by (intro unat_succ) simp
    moreover have eq: "displacement_updates m (a # us) = v # displacement_updates m' us" using r Inr a by simp
    ultimately show ?thesis
      using Cons.IH [OF inv] o' unfolding eq by (cases "dp_ID v = i") (simp_all split: option.splits)
  qed
qed

text \<open>
  C26 The journal of a displacement ends: from a consistent store, whatever updates arrive and in
  whatever order, a row is updated successfully at most 17 times after its creation. (It is
  created at revision 1, every success adds one, and validation admits no revision above 18.)
\<close>

theorem displacement_update_budget:
  assumes "displacement_inv m" and "map_of (llmDisplacementOps m) i = Some p" and "dp_Revision p = 1"
  shows "length (filter (\<lambda>v. dp_ID v = i) (displacement_updates m us)) \<le> 17"
  using displacement_updates_bound [OF assms(1), of i us] assms(2,3) by simp

theorem displacement_update_budget_witness:
  "length (filter (\<lambda>v. dp_ID v = ''d-1'') (displacement_updates sample_displacement_store
     [(5000, 1, Some (sample_displacement\<lparr>dp_Phase := ''pause_intent_sealed'',
        dp_CommandIntents := [sample_intent]\<rparr>)), (6000, 1, None)])) \<le> 17"
proof (rule displacement_update_budget)
  have "validateLLMDisplacementIdentity sample_displacement = None" by code_simp
  then show "displacement_inv sample_displacement_store"
    by (auto simp: displacement_inv_def sample_displacement_store_def indexed_table_def conflict_free_def
        gomap_wf_def sample_displacement_def displacement_key_def nul_join_def zero_llm_displacement_operation_def
        split: if_splits)
  show "map_of (llmDisplacementOps sample_displacement_store) ''d-1'' = Some sample_displacement"
    by (simp add: sample_displacement_store_def)
  show "dp_Revision sample_displacement = 1" by (simp add: sample_displacement_def)
qed

text \<open>
  C25 A row that validates in phase \<open>completed\<close> carries the whole protocol: eight sealed intents
  and eight observed results, in the order of \<open>displacementSteps\<close>, result by result bound to
  the command of its intent and to the proof of the displacement, every observation flag set,
  and the completion proof equal to the digest of the settlement result.
\<close>

theorem displacement_completed_evidence:
  assumes "validateLLMDisplacementIdentity p = None" and "dp_Phase p = ''completed''"
  shows "map dci_Step (dp_CommandIntents p) = displacementSteps \<and>
    map dor_Step (dp_ObservedResults p) = displacementSteps \<and>
    map dor_CommandID (dp_ObservedResults p) = map dci_CommandID (dp_CommandIntents p) \<and>
    distinct (map dci_CommandID (dp_CommandIntents p)) \<and>
    (\<forall>r \<in> set (dp_ObservedResults p). dor_ProofBinding r = dp_ProofBinding p) \<and>
    dp_SafeBoundaryObserved p \<and> dp_SnapshotObserved p \<and> dp_VictimStopObserved p \<and>
    dp_UrgentLoadObserved p \<and> dp_UrgentStopObserved p \<and> dp_VictimReloadObserved p \<and>
    dp_KVRestoreObserved p \<and> dp_LeaseSettled p \<and> dp_SnapshotCustodySettled p \<and>
    dp_ObservedProof p \<noteq> '''' \<and> dor_Digest (last (dp_ObservedResults p)) = dp_ObservedProof p"
proof -
  note j = valid_displacement_journal [OF assms(1), unfolded journal_ok_def Let_def]
  have h: "phase_history_error p = None" and c: "completion_error p = None"
    using assms(1) by (simp_all add: validate_displacement_eq_None)
  have n: "\<not> reconciling ''completed''" "index_of ''completed'' displacementPhases = Some 17"
    "length displacementSteps = 8" "last displacementSteps = ''settlement''" by code_simp+
  have l: "length (dp_CommandIntents p) = 8" "length (dp_ObservedResults p) = 8"
    using h assms(2) n(1,2) by (auto simp: phase_history_error_def Let_def split: if_splits)
  have r: "last (dp_ObservedResults p) \<in> set (dp_ObservedResults p)"
    using l(2) by (intro last_in_set) auto
  have "dor_Step (last (dp_ObservedResults p)) = last (map dor_Step (dp_ObservedResults p))"
    using l(2) by (intro last_map [symmetric]) auto
  also have "\<dots> = ''settlement''" using j l n(3,4) by simp
  finally have "dor_Digest (last (dp_ObservedResults p)) = dp_ObservedProof p"
    using c assms(2) r by (auto simp: completion_error_def list_ex_iff split: if_splits)
  moreover have "dp_SafeBoundaryObserved p \<and> dp_SnapshotObserved p \<and> dp_VictimStopObserved p \<and>
    dp_UrgentLoadObserved p \<and> dp_UrgentStopObserved p \<and> dp_VictimReloadObserved p \<and>
    dp_KVRestoreObserved p \<and> dp_LeaseSettled p \<and> dp_SnapshotCustodySettled p \<and> dp_ObservedProof p \<noteq> ''''"
    using c assms(2) by (simp add: completion_error_def guards)
  ultimately show ?thesis using j l n(3) by simp
qed

text \<open>A completed row, with digests computed by the code's own envelope function.\<close>

definition sample_result :: "string \<Rightarrow> displacement_observed_result" where
  "sample_result step =
     (let r = \<lparr>dor_Step = step, dor_CommandID = ''c-'' @ step, dor_ResultID = ''r-'' @ step, dor_Digest = ''dg'',
               dor_ProofBinding = ''pb'', dor_KeyID = ''key'', dor_Signature = ''sg'', dor_EnvelopeDigest = ''''\<rparr>
      in r\<lparr>dor_EnvelopeDigest := observedResultEnvelopeDigest r\<rparr>)"

definition sample_completed :: llm_displacement_operation where
  "sample_completed = sample_displacement\<lparr>
     dp_Phase := ''completed'', dp_Revision := 18,
     dp_CommandIntents := map (\<lambda>s. \<lparr>dci_Step = s, dci_CommandID = ''c-'' @ s, dci_Digest = ''dg'',
       dci_Signature = ''sg''\<rparr>) displacementSteps,
     dp_ObservedResults := map sample_result displacementSteps,
     dp_SnapshotIdentity := ''r-snapshot'', dp_SafeBoundaryObserved := True, dp_VictimStopObserved := True,
     dp_SnapshotObserved := True, dp_UrgentLoadObserved := True, dp_UrgentStopObserved := True,
     dp_VictimReloadObserved := True, dp_KVRestoreObserved := True, dp_LeaseSettled := True,
     dp_SnapshotCustodySettled := True, dp_ObservedProof := ''dg''\<rparr>"

lemma sample_result_sel:
  "dor_Step (sample_result s) = s" "dor_CommandID (sample_result s) = ''c-'' @ s"
  "dor_ResultID (sample_result s) = ''r-'' @ s" "dor_Digest (sample_result s) = ''dg''"
  "dor_ProofBinding (sample_result s) = ''pb''" "dor_KeyID (sample_result s) = ''key''"
  "dor_Signature (sample_result s) = ''sg''"
  "dor_EnvelopeDigest (sample_result s) = observedResultEnvelopeDigest (sample_result s)"
  by (simp_all add: sample_result_def Let_def observedResultEnvelopeDigest_def)

text \<open>The result check on the sample, as a computation that leaves the digest aside.\<close>

lemma check_sample_results:
  "check_results intents i seen (map sample_result ss) = None"
  if "list_all (\<lambda>s. \<not> blank s \<and> \<not> blank (''c-'' @ s) \<and> \<not> blank (''r-'' @ s)) ss"
    and "ss = take (length ss) (drop i displacementSteps)"
    and "map dci_CommandID intents = map (\<lambda>s. ''c-'' @ s) displacementSteps"
    and "distinct (map (\<lambda>s. ''r-'' @ s) ss)" and "set seen \<inter> set (map (\<lambda>s. ''r-'' @ s) ss) = {}"
    and "\<not> blank ''dg'' \<and> \<not> blank ''pb'' \<and> \<not> blank ''key'' \<and> \<not> blank ''sg''"
  using that
proof (induction ss arbitrary: i seen)
  case (Cons s ss)
  have i: "i < length displacementSteps"
    using Cons.prems(2) by (metis drop_eq_Nil leI list.distinct(1) take_Nil)
  then have "drop i displacementSteps = displacementSteps ! i # drop (i + 1) displacementSteps"
    by (simp add: Cons_nth_drop_Suc)
  then have s: "displacementSteps ! i = s" "ss = take (length ss) (drop (i + 1) displacementSteps)"
    using Cons.prems(2) by simp_all
  have len: "length intents = length displacementSteps" using Cons.prems(3) by (metis length_map)
  have "dci_CommandID (intents ! i) = map dci_CommandID intents ! i" using i len by simp
  then have c: "dci_CommandID (intents ! i) = ''c-'' @ s" using Cons.prems(3) i s(1) by simp
  have "''c-'' @ s \<in> set (map dci_CommandID intents)"
    unfolding c [symmetric] using i len by simp
  moreover have "check_results intents (i + 1) (dor_ResultID (sample_result s) # seen) (map sample_result ss) = None"
    using Cons.prems(1,3-6) s(2) by (intro Cons.IH) (auto simp: sample_result_sel)
  ultimately show ?case using Cons.prems(1,5,6) s(1) c by (simp add: sample_result_sel)
qed simp

theorem displacement_completed_evidence_witness:
  "dp_Phase sample_completed = ''completed'' \<and> validateLLMDisplacementIdentity sample_completed = None \<and>
   dor_Digest (last (dp_ObservedResults sample_completed)) = dp_ObservedProof sample_completed"
proof -
  let ?p = "sample_completed"
  let ?cs = "map (\<lambda>s. \<lparr>dci_Step = s, dci_CommandID = ''c-'' @ s, dci_Digest = ''dg'', dci_Signature = ''sg''\<rparr>)
    displacementSteps"
  have r: "dp_ObservedResults ?p = map sample_result displacementSteps" and c: "dp_CommandIntents ?p = ?cs"
    and i: "map dci_CommandID ?cs = map (\<lambda>s. ''c-'' @ s) displacementSteps"
    and p: "dp_ProofBinding ?p = ''pb''" "dp_Phase ?p = ''completed''"
    and b: "dp_VictimBinding ?p = sample_binding ''tv''" "dp_UrgentBinding ?p = sample_binding ''tu''"
    by (simp_all add: sample_completed_def sample_displacement_def)
  have "check_results ?cs 0 [] (map sample_result displacementSteps) = None"
    by (rule check_sample_results [OF _ _ i]; code_simp)
  moreover have "displacement_fields_ok (sample_displacement\<lparr>dp_Revision := 18\<rparr>)"
    "check_intents 0 [] ?cs = None" "length displacementSteps = 8"
    "validLLMDisplacementBinding (sample_binding ''tv'')" "validLLMDisplacementBinding (sample_binding ''tu'')"
    by code_simp+
  moreover have "displacement_fields_ok ?p = displacement_fields_ok (sample_displacement\<lparr>dp_Revision := 18\<rparr>)"
    by (simp add: displacement_fields_ok_def sample_completed_def cong: option.case_cong)
  moreover have "length (dp_ObservedProof ?p) \<le> 8192" "length (dp_LastError ?p) \<le> 2048"
    by (simp_all add: sample_completed_def sample_displacement_def zero_llm_displacement_operation_def)
  moreover have "displacement_flags_agree ?p" "snapshot_error ?p = None" "completion_error ?p = None"
    by (simp_all add: displacement_flags_agree_def snapshot_error_def completion_error_def hasDisplacementResult_def
        r displacementSteps_def sample_result_sel)
      (simp_all add: sample_completed_def)
  moreover have "phase_history_error ?p = None"
    by (simp add: phase_history_error_def r c p displacementSteps_def displacementPhases_def reconciling_def)
      (simp add: sample_completed_def)
  ultimately have "validateLLMDisplacementIdentity ?p = None" and "dp_Phase ?p = ''completed''"
    by (simp_all add: validate_displacement_eq_None r c p b sample_result_sel)
  with displacement_completed_evidence [of ?p] show ?thesis by blast
qed

end
