(* ===== verification/Leases.thy ===== *)
theory Leases
  imports Checkpoints Displacement
begin

text \<open>
  Accelerator leases and their cleanup intents (\<open>internal/store/memory.go\<close> and the intent
  validation of \<open>internal/store/store.go\<close>). A lease carries a fencing token that is drawn from a
  counter per accelerator. The lemmas show that a live lease excludes every other grant, that
  tokens only grow, that a stale holder can neither renew nor release, that displacement and
  cleanup custody block grants, and that a cleanup intent keeps its terminal continuation.
\<close>

section \<open>Leases\<close>

fun firstNonEmptyMemory :: "string list \<Rightarrow> string" where
  "firstNonEmptyMemory [] = ''''"
| "firstNonEmptyMemory (v # vs) = (if v \<noteq> '''' then v else firstNonEmptyMemory vs)"

definition zero_lease :: accelerator_lease where
  "zero_lease = \<lparr>ls_AcceleratorID = '''', ls_WorkloadID = '''', ls_FencingToken = 0, ls_ExpiresAt = 0\<rparr>"

definition recovery_row :: "string \<Rightarrow> string \<Rightarrow> string \<Rightarrow> llm_checkpoint_operation \<Rightarrow> bool" where
  "recovery_row acceleratorID workloadID recoveryOperationID p \<longleftrightarrow>
     ck_CleanupAcceleratorID p = acceleratorID \<and> ck_CleanupState p = ''armed'' \<and>
     ck_WorkloadID p = workloadID \<and> recoveryOperationID \<noteq> '''' \<and>
     (ck_ID p = recoveryOperationID \<or> ck_CleanupOperationID p = recoveryOperationID)"

definition cleanup_blocks :: "string \<Rightarrow> llm_checkpoint_operation \<Rightarrow> bool" where
  "cleanup_blocks acceleratorID p \<longleftrightarrow>
     ck_CleanupAcceleratorID p = acceleratorID \<and>
     ck_CleanupState p \<in> set [''armed'', ''owned'', ''pending'', ''failed'', ''stopped'']"

definition custody_lease :: "string \<Rightarrow> llm_displacement_operation \<Rightarrow> accelerator_lease" where
  "custody_lease acceleratorID p =
     (case dp_OriginalLease p of
        Some l \<Rightarrow> l
      | None \<Rightarrow> zero_lease\<lparr>ls_AcceleratorID := acceleratorID, ls_WorkloadID := dp_VictimWorkloadID p,
                  ls_FencingToken := sint (dp_Fence p)\<rparr>)"

definition cleanup_fence :: "llm_checkpoint_operation \<Rightarrow> i64" where
  "cleanup_fence p = (if sint (ck_CleanupFence p) = 0 then sint (ck_Fence p) else sint (ck_CleanupFence p))"

definition mark_recovered :: "time \<Rightarrow> string \<Rightarrow> string \<Rightarrow> i64 \<Rightarrow> llm_checkpoint_operation \<Rightarrow>
    llm_checkpoint_operation" where
  "mark_recovered now acceleratorID recoveryOperationID token p = p\<lparr>
     ck_CleanupState := ''pending'',
     ck_CleanupOperationID := firstNonEmptyMemory [ck_CleanupOperationID p, recoveryOperationID, ck_ID p],
     ck_CleanupAcceleratorID := acceleratorID,
     ck_CleanupFence := word_of_int token,
     ck_CleanupGeneration := (if ck_CleanupGeneration p = 0 then ck_Generation p else ck_CleanupGeneration p),
     ck_Revision := ck_Revision p + 1,
     ck_UpdatedAt := now\<rparr>"

definition grant_lease :: "time \<Rightarrow> memory_store \<Rightarrow> string \<Rightarrow> string \<Rightarrow> string \<Rightarrow>
    (string \<times> llm_checkpoint_operation) option \<Rightarrow> duration \<Rightarrow> memory_store \<times> accelerator_lease \<times> bool" where
  "grant_lease now m acceleratorID workloadID recoveryOperationID recoveryOp ttl =
     (let fence = mget_zero 0 (leaseFences m) acceleratorID;
          fence = (case recoveryOp of
                     None \<Rightarrow> fence
                   | Some (k, p) \<Rightarrow> if fence < sint (ck_CleanupFence p) then sint (ck_CleanupFence p) else fence);
          token = wrap_i64 (fence + 1);
          lease = \<lparr>ls_AcceleratorID = acceleratorID, ls_WorkloadID = workloadID, ls_FencingToken = token,
                   ls_ExpiresAt = now + ttl\<rparr>;
          m = m\<lparr>leaseFences := mput acceleratorID token (leaseFences m),
                leases := mput acceleratorID lease (leases m)\<rparr>
      in (case recoveryOp of
            None \<Rightarrow> m
          | Some (k, p) \<Rightarrow>
              m\<lparr>llmCheckpointOps :=
                  mput k (mark_recovered now acceleratorID recoveryOperationID token p) (llmCheckpointOps m)\<rparr>,
          lease, True))"

text \<open>
  Two rows of the checkpoint map are the same pointer exactly when they have the same key, so
  the code's \<open>op == recoveryOp\<close> compares keys here. Time addition is exact: \<open>now.Add(ttl)\<close>
  stays inside the range of \<open>time.Time\<close>. The boolean of the result is the code's \<open>acquired\<close>.
\<close>

definition recovery_op :: "memory_store \<Rightarrow> string \<Rightarrow> string \<Rightarrow> string \<Rightarrow>
    (string \<times> llm_checkpoint_operation) option" where
  "recovery_op m acceleratorID workloadID recoveryOperationID =
     find (\<lambda>(k, p). recovery_row acceleratorID workloadID recoveryOperationID p) (llmCheckpointOps m)"

definition acquireAcceleratorLease :: "time \<Rightarrow> memory_store \<Rightarrow> string \<Rightarrow> string \<Rightarrow> string \<Rightarrow> duration \<Rightarrow>
    memory_store \<times> accelerator_lease \<times> bool" where
  "acquireAcceleratorLease now m acceleratorID workloadID recoveryOperationID ttl =
     (case find (\<lambda>p. dp_AcceleratorID p = acceleratorID \<and> displacementRecordRetainsCustody p)
             (mvalues (llmDisplacementOps m)) of
        Some p \<Rightarrow> (m, custody_lease acceleratorID p, False)
      | None \<Rightarrow>
     (let recoveryOp = recovery_op m acceleratorID workloadID recoveryOperationID
      in case find (\<lambda>(k, p). cleanup_blocks acceleratorID p \<and> Some k \<noteq> map_option fst recoveryOp)
                (llmCheckpointOps m) of
           Some (k, p) \<Rightarrow>
             (m, \<lparr>ls_AcceleratorID = acceleratorID, ls_WorkloadID = ck_WorkloadID p,
                  ls_FencingToken = cleanup_fence p, ls_ExpiresAt = now + ttl\<rparr>, False)
         | None \<Rightarrow>
           (case map_of (leases m) acceleratorID of
              Some cur \<Rightarrow>
                if ls_ExpiresAt cur > now then (m, cur, False)
                else grant_lease now m acceleratorID workloadID recoveryOperationID recoveryOp ttl
            | None \<Rightarrow> grant_lease now m acceleratorID workloadID recoveryOperationID recoveryOp ttl)))"

definition AcquireAcceleratorLease :: "time \<Rightarrow> memory_store \<Rightarrow> string \<Rightarrow> string \<Rightarrow> duration \<Rightarrow>
    memory_store \<times> accelerator_lease \<times> bool" where
  "AcquireAcceleratorLease now m acceleratorID workloadID ttl =
     acquireAcceleratorLease now m acceleratorID workloadID '''' ttl"

definition AcquireAcceleratorLeaseForCheckpointRecovery :: "time \<Rightarrow> memory_store \<Rightarrow> string \<Rightarrow> string \<Rightarrow>
    string \<Rightarrow> duration \<Rightarrow> memory_store \<times> accelerator_lease \<times> bool" where
  "AcquireAcceleratorLeaseForCheckpointRecovery now m acceleratorID workloadID operationID ttl =
     acquireAcceleratorLease now m acceleratorID workloadID operationID ttl"

definition RenewAcceleratorLease :: "time \<Rightarrow> memory_store \<Rightarrow> string \<Rightarrow> string \<Rightarrow> i64 \<Rightarrow> duration \<Rightarrow>
    memory_store \<times> error option" where
  "RenewAcceleratorLease now m acceleratorID workloadID fencingToken ttl =
     (case map_of (leases m) acceleratorID of
        None \<Rightarrow> (m, Some ErrNotFound)
      | Some lease \<Rightarrow>
          if ls_WorkloadID lease \<noteq> workloadID \<or> ls_FencingToken lease \<noteq> fencingToken
          then (m, Some ErrNotFound)
          else (m\<lparr>leases := mput acceleratorID (lease\<lparr>ls_ExpiresAt := now + ttl\<rparr>) (leases m)\<rparr>, None))"

definition ReleaseAcceleratorLease :: "memory_store \<Rightarrow> string \<Rightarrow> string \<Rightarrow> i64 \<Rightarrow>
    memory_store \<times> error option" where
  "ReleaseAcceleratorLease m acceleratorID workloadID fencingToken =
     (case map_of (leases m) acceleratorID of
        None \<Rightarrow> (m, None)
      | Some lease \<Rightarrow>
          if ls_WorkloadID lease \<noteq> workloadID \<or> ls_FencingToken lease \<noteq> fencingToken
          then (m, Some ErrNotFound)
          else (m\<lparr>leases := mdel acceleratorID (leases m)\<rparr>, None))"

definition GetAcceleratorLease :: "memory_store \<Rightarrow> string \<Rightarrow> error + accelerator_lease" where
  "GetAcceleratorLease m acceleratorID =
     (case map_of (leases m) acceleratorID of None \<Rightarrow> Inl ErrNotFound | Some lease \<Rightarrow> Inr lease)"

section \<open>Cleanup intents\<close>

definition validateLeaseCleanupIntent :: "lease_cleanup_intent option \<Rightarrow> error option" where
  "validateLeaseCleanupIntent intent =
     (case intent of
        None \<Rightarrow> Some (Err ''accelerator lease cleanup intent requires exact lease identity'')
      | Some c \<Rightarrow>
      if ci_AcceleratorID c = '''' \<or> ci_Owner c = '''' \<or> ci_FencingToken c \<le> 0
      then Some (Err ''accelerator lease cleanup intent requires exact lease identity'')
      else if ci_Attempts c < 1
      then Some (Err ''accelerator lease cleanup intent attempts must be positive'')
      else if length (ci_LastError c) > 512 \<or> length (ci_TerminalErrorCode c) > 128
      then Some (Err ''accelerator lease cleanup intent error is too long'')
      else if ci_TerminalDisposition c = '''' then
        (if ci_WorkloadID c \<noteq> '''' \<or> ci_ExpectedWorkloadRevision c \<noteq> 0 \<or> ci_ReleaseConfirmed c \<or>
            ci_TerminalPublished c \<or> ci_AuditPublished c \<or> ci_NotificationPublished c \<or> ci_BudgetSettled c
         then Some (Err ''ordinary lease cleanup intent carries terminal continuation fields'')
         else None)
      else if ci_WorkloadID c = '''' \<or> ci_ExpectedWorkloadRevision c = 0 \<or> ci_TerminalErrorCode c = ''''
      then Some (Err ''terminal lease cleanup intent is incomplete'')
      else if ci_TerminalDisposition c \<noteq> ''success'' \<and> ci_TerminalDisposition c \<noteq> ''failure'' \<and>
              ci_TerminalDisposition c \<noteq> ''cancel''
      then Some (Err ''terminal lease cleanup intent has invalid disposition'')
      else if ci_TerminalPublished c \<and> \<not> ci_ReleaseConfirmed c
      then Some (Err ''terminal continuation published before release confirmation'')
      else if (ci_AuditPublished c \<or> ci_NotificationPublished c \<or> ci_BudgetSettled c) \<and> \<not> ci_TerminalPublished c
      then Some (Err ''terminal continuation side effect published before terminal state'')
      else None)"

definition leaseCleanupKey :: "string \<Rightarrow> string \<Rightarrow> i64 \<Rightarrow> string" where
  "leaseCleanupKey acceleratorID owner fencingToken =
     nul_join acceleratorID (nul_join owner (show_int fencingToken))"

definition leaseCleanupRecordKey :: "lease_cleanup_intent \<Rightarrow> string" where
  "leaseCleanupRecordKey c =
     (let key = leaseCleanupKey (ci_AcceleratorID c) (ci_Owner c) (ci_FencingToken c) in
      if ci_WorkloadID c \<noteq> '''' then nul_join key (ci_WorkloadID c) else key)"

definition merge_cleanup_intent :: "lease_cleanup_intent \<Rightarrow> lease_cleanup_intent \<Rightarrow> lease_cleanup_intent" where
  "merge_cleanup_intent existing stored = stored\<lparr>
     ci_Attempts := (if ci_Attempts stored < ci_Attempts existing then ci_Attempts existing else ci_Attempts stored),
     ci_CreatedAt := ci_CreatedAt existing,
     ci_ReleaseConfirmed := ci_ReleaseConfirmed existing \<or> ci_ReleaseConfirmed stored,
     ci_TerminalPublished := ci_TerminalPublished existing \<or> ci_TerminalPublished stored,
     ci_AuditPublished := ci_AuditPublished existing \<or> ci_AuditPublished stored,
     ci_NotificationPublished := ci_NotificationPublished existing \<or> ci_NotificationPublished stored,
     ci_BudgetSettled := ci_BudgetSettled existing \<or> ci_BudgetSettled stored\<rparr>"

definition stamp_cleanup_intent :: "time \<Rightarrow> lease_cleanup_intent \<Rightarrow> lease_cleanup_intent" where
  "stamp_cleanup_intent now c = c\<lparr>
     ci_CreatedAt := (if ci_CreatedAt c = 0 then now else ci_CreatedAt c),
     ci_UpdatedAt := (if ci_UpdatedAt c = 0 then now else ci_UpdatedAt c),
     ci_Attempts := (if ci_Attempts c \<le> 0 then 1 else ci_Attempts c)\<rparr>"

definition RecordAcceleratorLeaseCleanupIntent :: "time \<Rightarrow> memory_store \<Rightarrow> lease_cleanup_intent option \<Rightarrow>
    memory_store \<times> (error + lease_cleanup_intent)" where
  "RecordAcceleratorLeaseCleanupIntent now m intent =
     (case validateLeaseCleanupIntent intent of
        Some err \<Rightarrow> (m, Inl err)
      | None \<Rightarrow>
     (case intent of
        None \<Rightarrow> (m, Inl (Err ''accelerator lease cleanup intent requires exact lease identity''))
      | Some c \<Rightarrow>
     (let key = leaseCleanupRecordKey c;
          stored = stamp_cleanup_intent now c
      in case map_of (leaseCleanupIntents m) key of
           None \<Rightarrow> (m\<lparr>leaseCleanupIntents := mput key stored (leaseCleanupIntents m)\<rparr>, Inr stored)
         | Some existing \<Rightarrow>
             if ci_WorkloadID existing \<noteq> ci_WorkloadID c \<or>
                ci_ExpectedWorkloadRevision existing \<noteq> ci_ExpectedWorkloadRevision c \<or>
                ci_TerminalDisposition existing \<noteq> ci_TerminalDisposition c \<or>
                ci_TerminalErrorCode existing \<noteq> ci_TerminalErrorCode c
             then (m, Inl ErrAcceleratorLeaseCleanupConflict)
             else (let merged = merge_cleanup_intent existing stored
                   in (m\<lparr>leaseCleanupIntents := mput key merged (leaseCleanupIntents m)\<rparr>, Inr merged)))))"

definition ListAcceleratorLeaseCleanupIntents :: "time \<Rightarrow> memory_store \<Rightarrow> time \<Rightarrow> int \<Rightarrow>
    lease_cleanup_intent list" where
  "ListAcceleratorLeaseCleanupIntents clock m now limit =
     (let now = (if now = 0 then clock else now);
          rows = sort_key (\<lambda>c. (ci_UpdatedAt c, leaseCleanupKey (ci_AcceleratorID c) (ci_Owner c) (ci_FencingToken c)))
            (filter (\<lambda>c. \<not> (case ci_NextRetryAt c of None \<Rightarrow> False | Some t \<Rightarrow> t > now))
              (mvalues (leaseCleanupIntents m)))
      in if limit > 0 \<and> int (length rows) > limit then take (nat limit) rows else rows)"

definition has_prefix :: "string \<Rightarrow> string \<Rightarrow> bool" where
  "has_prefix s p \<longleftrightarrow> take (length p) s = p"

definition DeleteAcceleratorLeaseCleanupIntent :: "memory_store \<Rightarrow> string \<Rightarrow> string \<Rightarrow> i64 \<Rightarrow> memory_store" where
  "DeleteAcceleratorLeaseCleanupIntent m acceleratorID owner fencingToken =
     (let prefix = leaseCleanupKey acceleratorID owner fencingToken in
      m\<lparr>leaseCleanupIntents :=
          filter (\<lambda>(key, c). \<not> (key = prefix \<or> has_prefix key (prefix @ [NUL]))) (leaseCleanupIntents m)\<rparr>)"

definition DeleteAcceleratorLeaseCleanupIntentForWorkload ::
    "memory_store \<Rightarrow> string \<Rightarrow> string \<Rightarrow> i64 \<Rightarrow> string \<Rightarrow> memory_store" where
  "DeleteAcceleratorLeaseCleanupIntentForWorkload m acceleratorID owner fencingToken workloadID =
     m\<lparr>leaseCleanupIntents :=
         mdel (nul_join (leaseCleanupKey acceleratorID owner fencingToken) workloadID) (leaseCleanupIntents m)\<rparr>"

inductive lease_step :: "memory_store \<Rightarrow> memory_store \<Rightarrow> bool" where
  acquire_lease: "lease_step m (fst (AcquireAcceleratorLease now m a w ttl))"
| recover_lease: "lease_step m (fst (AcquireAcceleratorLeaseForCheckpointRecovery now m a w i ttl))"
| renew_lease: "lease_step m (fst (RenewAcceleratorLease now m a w token ttl))"
| release_lease: "lease_step m (fst (ReleaseAcceleratorLease m a w token))"
| record_cleanup: "lease_step m (fst (RecordAcceleratorLeaseCleanupIntent now m intent))"
| delete_cleanup: "lease_step m (DeleteAcceleratorLeaseCleanupIntent m a w token)"
| delete_cleanup_workload: "lease_step m (DeleteAcceleratorLeaseCleanupIntentForWorkload m a w token i)"

section \<open>What the operations do\<close>

text \<open>The reasons that refuse a grant whatever the lease table holds.\<close>

definition custody_blocked :: "memory_store \<Rightarrow> string \<Rightarrow> bool" where
  "custody_blocked m a \<longleftrightarrow>
     (\<exists>p \<in> set (mvalues (llmDisplacementOps m)). dp_AcceleratorID p = a \<and> displacementRecordRetainsCustody p)"

definition cleanup_blocked :: "memory_store \<Rightarrow> string \<Rightarrow> string \<Rightarrow> string \<Rightarrow> bool" where
  "cleanup_blocked m a w i \<longleftrightarrow>
     (\<exists>(k, p) \<in> set (llmCheckpointOps m). cleanup_blocks a p \<and> Some k \<noteq> map_option fst (recovery_op m a w i))"

definition live_lease :: "time \<Rightarrow> memory_store \<Rightarrow> string \<Rightarrow> bool" where
  "live_lease now m a \<longleftrightarrow> (case map_of (leases m) a of None \<Rightarrow> False | Some l \<Rightarrow> ls_ExpiresAt l > now)"

lemma acquire_unblocked:
  assumes "\<not> custody_blocked m a" and "\<not> cleanup_blocked m a w i" and "\<not> live_lease now m a"
  shows "acquireAcceleratorLease now m a w i ttl = grant_lease now m a w i (recovery_op m a w i) ttl"
proof -
  have "find (\<lambda>p. dp_AcceleratorID p = a \<and> displacementRecordRetainsCustody p) (mvalues (llmDisplacementOps m)) = None"
    using assms(1) by (auto simp: custody_blocked_def find_None_iff)
  moreover have "find (\<lambda>(k, p). cleanup_blocks a p \<and> Some k \<noteq> map_option fst (recovery_op m a w i))
      (llmCheckpointOps m) = None"
    using assms(2) by (auto simp: cleanup_blocked_def find_None_iff)
  ultimately show ?thesis
    using assms(3) by (simp add: acquireAcceleratorLease_def live_lease_def Let_def split: option.splits)
qed

lemma acquire_blocked:
  assumes "custody_blocked m a \<or> cleanup_blocked m a w i \<or> live_lease now m a"
  shows "\<exists>l. acquireAcceleratorLease now m a w i ttl = (m, l, False)"
proof (cases "find (\<lambda>p. dp_AcceleratorID p = a \<and> displacementRecordRetainsCustody p) (mvalues (llmDisplacementOps m))")
  case (Some p)
  then show ?thesis by (simp add: acquireAcceleratorLease_def)
next
  case custody: None
  show ?thesis
  proof (cases "find (\<lambda>(k, p). cleanup_blocks a p \<and> Some k \<noteq> map_option fst (recovery_op m a w i)) (llmCheckpointOps m)")
    case (Some kp)
    with custody show ?thesis by (cases kp) (simp add: acquireAcceleratorLease_def Let_def)
  next
    case None
    then have "\<not> cleanup_blocked m a w i" by (auto simp: cleanup_blocked_def find_None_iff)
    moreover have "\<not> custody_blocked m a" using custody by (auto simp: custody_blocked_def find_None_iff)
    ultimately have "live_lease now m a" using assms by blast
    with custody None show ?thesis
      by (auto simp: acquireAcceleratorLease_def live_lease_def Let_def split: option.splits)
  qed
qed

lemma recovery_opD:
  assumes "recovery_op m a w i = Some (k, p)"
  shows "(k, p) \<in> set (llmCheckpointOps m)" and "recovery_row a w i p"
  using assms unfolding recovery_op_def find_Some_iff by (metis nth_mem, metis case_prod_conv)

lemma recovery_op_ordinary [simp]: "recovery_op m a w '''' = None"
  by (auto simp: recovery_op_def find_None_iff recovery_row_def)

text \<open>The counter from which a grant draws its token, and the state a grant leaves.\<close>

definition fence_floor :: "memory_store \<Rightarrow> string \<Rightarrow> (string \<times> llm_checkpoint_operation) option \<Rightarrow> i64" where
  "fence_floor m a r =
     (case r of
        None \<Rightarrow> mget_zero 0 (leaseFences m) a
      | Some (k, p) \<Rightarrow> max (mget_zero 0 (leaseFences m) a) (sint (ck_CleanupFence p)))"

definition new_token :: "memory_store \<Rightarrow> string \<Rightarrow> (string \<times> llm_checkpoint_operation) option \<Rightarrow> i64" where
  "new_token m a r = wrap_i64 (fence_floor m a r + 1)"

definition new_lease :: "time \<Rightarrow> string \<Rightarrow> string \<Rightarrow> i64 \<Rightarrow> duration \<Rightarrow> accelerator_lease" where
  "new_lease now a w t ttl =
     \<lparr>ls_AcceleratorID = a, ls_WorkloadID = w, ls_FencingToken = t, ls_ExpiresAt = now + ttl\<rparr>"

lemma grant_lease_effect:
  "grant_lease now m a w i r ttl =
    (m\<lparr>leaseFences := mput a (new_token m a r) (leaseFences m),
       leases := mput a (new_lease now a w (new_token m a r) ttl) (leases m),
       llmCheckpointOps := (case r of
          None \<Rightarrow> llmCheckpointOps m
        | Some (k, p) \<Rightarrow> mput k (mark_recovered now a i (new_token m a r) p) (llmCheckpointOps m))\<rparr>,
     new_lease now a w (new_token m a r) ttl, True)"
  by (auto simp: grant_lease_def fence_floor_def new_token_def new_lease_def Let_def max_def split: option.splits)

lemma acquire_cases:
  obtains (refused) l where "acquireAcceleratorLease now m a w i ttl = (m, l, False)"
      and "custody_blocked m a \<or> cleanup_blocked m a w i \<or> live_lease now m a"
    | (granted) "\<not> custody_blocked m a" "\<not> cleanup_blocked m a w i" "\<not> live_lease now m a"
      and "acquireAcceleratorLease now m a w i ttl = grant_lease now m a w i (recovery_op m a w i) ttl"
  using acquire_unblocked acquire_blocked by metis

lemma grant_unblocked:
  assumes "acquireAcceleratorLease now m a w i ttl = (m', l, True)"
  shows "\<not> custody_blocked m a" "\<not> cleanup_blocked m a w i" "\<not> live_lease now m a"
    and "(m', l, True) = grant_lease now m a w i (recovery_op m a w i) ttl"
  using assms by (cases rule: acquire_cases [of now m a w i ttl]; simp)+

section \<open>Refinement of a fenced lock\<close>

text \<open>
  What the lease table promises for one accelerator: a counter that only grows and at most one
  holder with an expiry. \<open>lowest\<close> is a lower bound that recovery imposes on the next token.
\<close>

record fenced_lock =
  counter :: int
  holder :: "accelerator_lease option"

definition lock_live :: "time \<Rightarrow> fenced_lock \<Rightarrow> bool" where
  "lock_live now L \<longleftrightarrow> (case holder L of None \<Rightarrow> False | Some h \<Rightarrow> ls_ExpiresAt h > now)"

definition lock_acquire :: "bool \<Rightarrow> int \<Rightarrow> time \<Rightarrow> string \<Rightarrow> string \<Rightarrow> duration \<Rightarrow> fenced_lock \<Rightarrow> fenced_lock \<times> bool" where
  "lock_acquire blocked lowest now a w ttl L =
     (if blocked \<or> lock_live now L then (L, False)
      else (let t = max (counter L) lowest + 1 in
            (\<lparr>counter = t, holder = Some \<lparr>ls_AcceleratorID = a, ls_WorkloadID = w, ls_FencingToken = t,
                ls_ExpiresAt = now + ttl\<rparr>\<rparr>, True)))"

definition lock_holds :: "string \<Rightarrow> i64 \<Rightarrow> fenced_lock \<Rightarrow> bool" where
  "lock_holds w token L \<longleftrightarrow> (\<exists>h. holder L = Some h \<and> ls_WorkloadID h = w \<and> ls_FencingToken h = token)"

definition lock_renew :: "time \<Rightarrow> string \<Rightarrow> i64 \<Rightarrow> duration \<Rightarrow> fenced_lock \<Rightarrow> fenced_lock" where
  "lock_renew now w token ttl L =
     (if lock_holds w token L
      then L\<lparr>holder := map_option (\<lambda>h. h\<lparr>ls_ExpiresAt := now + ttl\<rparr>) (holder L)\<rparr> else L)"

definition lock_release :: "string \<Rightarrow> i64 \<Rightarrow> fenced_lock \<Rightarrow> fenced_lock" where
  "lock_release w token L = (if lock_holds w token L then L\<lparr>holder := None\<rparr> else L)"

definition lock_of :: "memory_store \<Rightarrow> string \<Rightarrow> fenced_lock" where
  "lock_of m a = \<lparr>counter = mget_zero 0 (leaseFences m) a, holder = map_of (leases m) a\<rparr>"

definition recovery_floor :: "memory_store \<Rightarrow> string \<Rightarrow> string \<Rightarrow> string \<Rightarrow> int" where
  "recovery_floor m a w i =
     (case recovery_op m a w i of None \<Rightarrow> mget_zero 0 (leaseFences m) a | Some (k, p) \<Rightarrow> sint (ck_CleanupFence p))"

lemma fence_floor_recovery:
  "fence_floor m a (recovery_op m a w i) = max (mget_zero 0 (leaseFences m) a) (recovery_floor m a w i)"
  by (simp add: fence_floor_def recovery_floor_def split: option.splits)

lemma acquire_lock_of:
  assumes "max (counter (lock_of m a)) (recovery_floor m a w i) < max_i64"
    and "0 \<le> counter (lock_of m a)"
  shows "(lock_of (fst (acquireAcceleratorLease now m a w i ttl)) a,
          snd (snd (acquireAcceleratorLease now m a w i ttl))) =
         lock_acquire (custody_blocked m a \<or> cleanup_blocked m a w i) (recovery_floor m a w i) now a w ttl (lock_of m a)"
proof (cases rule: acquire_cases [of now m a w i ttl])
  case (refused l)
  then show ?thesis
    by (auto simp: lock_acquire_def lock_live_def lock_of_def live_lease_def)
next
  case granted
  have "in_i64 (max (mget_zero 0 (leaseFences m) a) (recovery_floor m a w i) + 1)"
    using assms by (auto simp: in_i64_def max_i64_def lock_of_def)
  with granted show ?thesis
    by (simp add: grant_lease_effect new_token_def new_lease_def fence_floor_recovery lock_of_def lock_acquire_def
        lock_live_def live_lease_def Let_def)
qed

lemma acquire_other_locks:
  "b \<noteq> a \<Longrightarrow> lock_of (fst (acquireAcceleratorLease now m a w i ttl)) b = lock_of m b"
  by (cases rule: acquire_cases [of now m a w i ttl]) (simp_all add: grant_lease_effect lock_of_def)

lemma renew_lock_of:
  "lock_of (fst (RenewAcceleratorLease now m a w token ttl)) b =
     (if b = a then lock_renew now w token ttl (lock_of m a) else lock_of m b)"
  by (auto simp: RenewAcceleratorLease_def lock_of_def lock_renew_def lock_holds_def split: option.splits)

lemma release_lock_of:
  "lock_of (fst (ReleaseAcceleratorLease m a w token)) b =
     (if b = a then lock_release w token (lock_of m a) else lock_of m b)"
  by (auto simp: ReleaseAcceleratorLease_def lock_of_def lock_release_def lock_holds_def split: option.splits)

section \<open>Runs of lease operations\<close>

text \<open>
  The lease operations as values, so that a property can speak of every interleaving of calls.
  The recovery variant is \<open>Acquire\<close> with a recovery operation ID, the ordinary one has the empty ID.
\<close>

datatype lease_op =
    Acquire time string string string duration
  | Renew time string string i64 duration
  | Release string string i64

fun lease_exec :: "lease_op \<Rightarrow> memory_store \<Rightarrow> memory_store \<times> accelerator_lease list" where
  "lease_exec (Acquire now a w i ttl) m =
     (case acquireAcceleratorLease now m a w i ttl of (m', l, ok) \<Rightarrow> (m', if ok then [l] else []))"
| "lease_exec (Renew now a w t ttl) m = (fst (RenewAcceleratorLease now m a w t ttl), [])"
| "lease_exec (Release a w t) m = (fst (ReleaseAcceleratorLease m a w t), [])"

fun lease_run :: "lease_op list \<Rightarrow> memory_store \<Rightarrow> memory_store \<times> accelerator_lease list" where
  "lease_run [] m = (m, [])"
| "lease_run (x # xs) m =
     (case lease_exec x m of (m', ls) \<Rightarrow> (case lease_run xs m' of (m'', ls') \<Rightarrow> (m'', ls @ ls')))"

text \<open>Operations that leave the holder of a lease alone: nobody asks after its expiry, and no
  other caller presents the holder's workload and token.\<close>

fun leaves_alone :: "string \<Rightarrow> accelerator_lease \<Rightarrow> lease_op \<Rightarrow> bool" where
  "leaves_alone a l (Acquire now a' w i ttl) \<longleftrightarrow> (a' = a \<longrightarrow> now < ls_ExpiresAt l)"
| "leaves_alone a l (Renew now a' w t ttl) \<longleftrightarrow> \<not> (a' = a \<and> w = ls_WorkloadID l \<and> t = ls_FencingToken l)"
| "leaves_alone a l (Release a' w t) \<longleftrightarrow> \<not> (a' = a \<and> w = ls_WorkloadID l \<and> t = ls_FencingToken l)"

lemma lock_of_holder [simp]: "holder (lock_of m a) = map_of (leases m) a"
  by (simp add: lock_of_def)

lemma lock_of_counter [simp]: "counter (lock_of m a) = mget_zero 0 (leaseFences m) a"
  by (simp add: lock_of_def)

lemma live_lease_refused:
  assumes "map_of (leases m) a = Some l" and "now < ls_ExpiresAt l"
  obtains l' where "acquireAcceleratorLease now m a w i ttl = (m, l', False)"
  using assms acquire_blocked [of m a w i now ttl] by (auto simp: live_lease_def)

lemma granted_accelerator:
  assumes "acquireAcceleratorLease now m a w i ttl = (m', l, True)"
  shows "ls_AcceleratorID l = a"
  using grant_unblocked(4) [OF assms] by (simp add: grant_lease_effect new_lease_def)

lemma exec_respects:
  assumes "map_of (leases m) a = Some l" and "leaves_alone a l x" and "lease_exec x m = (m', ls)"
  shows "map_of (leases m') a = Some l" and "\<forall>g\<in>set ls. ls_AcceleratorID g \<noteq> a"
proof -
  have "map_of (leases m') a = Some l \<and> (\<forall>g\<in>set ls. ls_AcceleratorID g \<noteq> a)"
  proof (cases x)
    case (Acquire now a' w i ttl)
    obtain m1 g ok where r: "acquireAcceleratorLease now m a' w i ttl = (m1, g, ok)" by (metis prod.exhaust)
    show ?thesis
    proof (cases "a' = a")
      case True
      then have "now < ls_ExpiresAt l" using assms(2) Acquire by simp
      from live_lease_refused [OF assms(1) this] have "m1 = m" "\<not> ok" using r True by (metis prod.inject)+
      then show ?thesis using assms(1,3) Acquire r by simp
    next
      case False
      then have "map_of (leases m1) a = Some l"
        using acquire_other_locks [of a a' now m w i ttl] assms(1) r
        by (metis fst_conv lock_of_holder)
      then show ?thesis
        using assms(3) Acquire r False granted_accelerator [of now m a' w i ttl m1 g] by (auto split: if_splits)
    qed
  next
    case (Renew now a' w t ttl)
    then show ?thesis
      using assms by (auto simp: RenewAcceleratorLease_def split: option.splits if_splits)
  next
    case (Release a' w t)
    then show ?thesis
      using assms by (auto simp: ReleaseAcceleratorLease_def split: option.splits if_splits)
  qed
  then show "map_of (leases m') a = Some l" and "\<forall>g\<in>set ls. ls_AcceleratorID g \<noteq> a" by blast+
qed

lemma run_respects:
  assumes "map_of (leases m) a = Some l" and "\<forall>x\<in>set xs. leaves_alone a l x" and "lease_run xs m = (m', ls)"
  shows "map_of (leases m') a = Some l \<and> (\<forall>g\<in>set ls. ls_AcceleratorID g \<noteq> a)"
  using assms
proof (induction xs arbitrary: m m' ls)
  case (Cons x xs)
  obtain m1 l1 where x: "lease_exec x m = (m1, l1)" by fastforce
  obtain m2 l2 where xs: "lease_run xs m1 = (m2, l2)" by fastforce
  have "map_of (leases m1) a = Some l" "\<forall>g\<in>set l1. ls_AcceleratorID g \<noteq> a"
    using exec_respects [OF Cons.prems(1) _ x] Cons.prems(2) by auto
  then show ?case using Cons.IH [OF _ _ xs] Cons.prems(2,3) x xs by auto
qed simp

text \<open>
  The invariant of the counters: they are not negative, a holder's token is the value of its
  counter, and \<open>B\<close> bounds every counter and every cleanup fence that recovery could adopt.
\<close>

definition fences_within :: "int \<Rightarrow> memory_store \<Rightarrow> bool" where
  "fences_within B m \<longleftrightarrow>
     (\<forall>a. 0 \<le> mget_zero 0 (leaseFences m) a \<and> mget_zero 0 (leaseFences m) a \<le> B) \<and>
     (\<forall>a l. map_of (leases m) a = Some l \<longrightarrow> ls_FencingToken l = mget_zero 0 (leaseFences m) a) \<and>
     (\<forall>(k, p)\<in>set (llmCheckpointOps m). sint (ck_CleanupFence p) \<le> B)"

lemma fences_within_mono: "fences_within B m \<Longrightarrow> B \<le> B' \<Longrightarrow> fences_within B' m"
  unfolding fences_within_def by (fastforce intro: order_trans)

lemma fence_floor_bounds:
  assumes "fences_within B m"
  shows "fence_floor m a (recovery_op m a w i) \<le> B" "mget_zero 0 (leaseFences m) a \<le> fence_floor m a (recovery_op m a w i)"
proof -
  show "mget_zero 0 (leaseFences m) a \<le> fence_floor m a (recovery_op m a w i)"
    by (simp add: fence_floor_def split: option.splits)
  show "fence_floor m a (recovery_op m a w i) \<le> B"
  proof (cases "recovery_op m a w i")
    case None
    then show ?thesis using assms by (simp add: fence_floor_def fences_within_def)
  next
    case (Some kp)
    then have "kp \<in> set (llmCheckpointOps m)" using recovery_opD(1) by (metis prod.collapse)
    then show ?thesis using assms Some by (auto simp: fence_floor_def fences_within_def split: prod.splits)
  qed
qed

lemma new_token_exact:
  assumes "fences_within B m" and "B < max_i64"
  shows "new_token m a (recovery_op m a w i) = fence_floor m a (recovery_op m a w i) + 1"
    and "in_i64 (new_token m a (recovery_op m a w i))"
proof -
  have "0 \<le> mget_zero 0 (leaseFences m) a" using assms(1) by (simp add: fences_within_def)
  then have "in_i64 (fence_floor m a (recovery_op m a w i) + 1)"
    using fence_floor_bounds [OF assms(1), of a w i] assms(2) by (auto simp: in_i64_def max_i64_def)
  then show "new_token m a (recovery_op m a w i) = fence_floor m a (recovery_op m a w i) + 1"
    by (simp add: new_token_def)
  show "in_i64 (new_token m a (recovery_op m a w i))" by (simp add: new_token_def)
qed

lemma sint_token [simp]: "in_i64 t \<Longrightarrow> sint (word_of_int t :: u64) = t"
  unfolding sint_sbintrunc' by (rule signed_take_bit_int_eq_self) (simp_all add: in_i64_def max_i64_def)

lemma set_mput: "set (mput k v xs) \<subseteq> insert (k, v) (set xs)"
  by (induction xs) (auto split: if_splits)

lemma acquire_fences:
  assumes inv: "fences_within B m" and B: "B < max_i64"
    and r: "acquireAcceleratorLease now m a w i ttl = (m', l, True)"
  shows "fences_within (B + 1) m'"
    and "mget_zero 0 (leaseFences m) a < ls_FencingToken l"
    and "mget_zero 0 (leaseFences m') = (mget_zero 0 (leaseFences m))(a := ls_FencingToken l)"
proof -
  let ?r = "recovery_op m a w i" and ?t = "new_token m a (recovery_op m a w i)"
  note eq = grant_unblocked(4) [OF r, unfolded grant_lease_effect]
  have fences: "leaseFences m' = mput a ?t (leaseFences m)" and token: "ls_FencingToken l = ?t"
    and leases: "leases m' = mput a l (leases m)"
    using eq by (simp_all add: new_lease_def)
  have t: "?t = fence_floor m a ?r + 1" "in_i64 ?t" using new_token_exact [OF inv B] by simp_all
  then show less: "mget_zero 0 (leaseFences m) a < ls_FencingToken l"
    using fence_floor_bounds(2) [OF inv, of a w i] token by simp
  show counters: "mget_zero 0 (leaseFences m') = (mget_zero 0 (leaseFences m))(a := ls_FencingToken l)"
    by (simp add: fences token fun_eq_iff)
  have bound: "?t \<le> B + 1" using t(1) fence_floor_bounds(1) [OF inv, of a w i] by simp
  have rows: "sint (ck_CleanupFence p) \<le> B + 1" if kp: "(k, p) \<in> set (llmCheckpointOps m')" for k p
  proof (cases "(k, p) \<in> set (llmCheckpointOps m)")
    case True
    then show ?thesis using inv by (force simp: fences_within_def)
  next
    case False
    with kp eq obtain j q where "?r = Some (j, q)"
      "(k, p) \<in> set (mput j (mark_recovered now a i ?t q) (llmCheckpointOps m))"
      by (auto split: option.splits)
    then have "p = mark_recovered now a i ?t q" using False set_mput by fastforce
    then show ?thesis using t(2) bound by (simp add: mark_recovered_def)
  qed
  have "0 \<le> mget_zero 0 (leaseFences m') b \<and> mget_zero 0 (leaseFences m') b \<le> B + 1" for b
  proof -
    have "0 \<le> mget_zero 0 (leaseFences m) c" "mget_zero 0 (leaseFences m) c \<le> B" for c
      using inv by (simp_all add: fences_within_def)
    from this [of a] this [of b] show ?thesis using less bound token by (simp add: counters)
  qed
  moreover have "ls_FencingToken h = mget_zero 0 (leaseFences m') b" if "map_of (leases m') b = Some h" for b h
    using that inv by (auto simp: leases counters fences_within_def split: if_splits)
  ultimately show "fences_within (B + 1) m'" using rows unfolding fences_within_def by blast
qed

lemma exec_fences:
  assumes inv: "fences_within B m" and B: "B < max_i64" and x: "lease_exec x m = (m', ls)"
  shows "fences_within (B + 1) m'"
    and "ls = [] \<and> leaseFences m' = leaseFences m \<or>
         (\<exists>l a. ls = [l] \<and> ls_AcceleratorID l = a \<and> mget_zero 0 (leaseFences m) a < ls_FencingToken l \<and>
            mget_zero 0 (leaseFences m') = (mget_zero 0 (leaseFences m))(a := ls_FencingToken l))"
proof -
  have "fences_within (B + 1) m' \<and>
    (ls = [] \<and> leaseFences m' = leaseFences m \<or>
     (\<exists>l a. ls = [l] \<and> ls_AcceleratorID l = a \<and> mget_zero 0 (leaseFences m) a < ls_FencingToken l \<and>
        mget_zero 0 (leaseFences m') = (mget_zero 0 (leaseFences m))(a := ls_FencingToken l)))"
  proof (cases x)
    case (Acquire now a w i ttl)
    show ?thesis
    proof (cases rule: acquire_cases [of now m a w i ttl])
      case (refused l)
      then show ?thesis using x Acquire fences_within_mono [OF inv, of "B + 1"] by simp
    next
      case granted
      then obtain l where g: "acquireAcceleratorLease now m a w i ttl = (m', l, True)" "ls = [l]"
        using x Acquire by (simp add: grant_lease_effect)
      then show ?thesis using acquire_fences [OF inv B g(1)] granted_accelerator [OF g(1)] by auto
    qed
  next
    case (Renew now a w t ttl)
    have "fences_within B m'"
      using x inv Renew by (auto simp: RenewAcceleratorLease_def fences_within_def split: option.splits if_splits)
    moreover have "leaseFences m' = leaseFences m"
      using x Renew by (auto simp: RenewAcceleratorLease_def split: option.splits if_splits)
    ultimately show ?thesis using x Renew fences_within_mono [of B m' "B + 1"] by simp
  next
    case (Release a w t)
    have "fences_within B m'"
      using x inv Release by (auto simp: ReleaseAcceleratorLease_def fences_within_def split: option.splits if_splits)
    moreover have "leaseFences m' = leaseFences m"
      using x Release by (auto simp: ReleaseAcceleratorLease_def split: option.splits if_splits)
    ultimately show ?thesis using x Release fences_within_mono [of B m' "B + 1"] by simp
  qed
  then show "fences_within (B + 1) m'"
    and "ls = [] \<and> leaseFences m' = leaseFences m \<or>
         (\<exists>l a. ls = [l] \<and> ls_AcceleratorID l = a \<and> mget_zero 0 (leaseFences m) a < ls_FencingToken l \<and>
            mget_zero 0 (leaseFences m') = (mget_zero 0 (leaseFences m))(a := ls_FencingToken l))"
    by blast+
qed

text \<open>The tokens that a run grants on one accelerator.\<close>

definition tokens_on :: "string \<Rightarrow> accelerator_lease list \<Rightarrow> int list" where
  "tokens_on a ls = map ls_FencingToken (filter (\<lambda>l. ls_AcceleratorID l = a) ls)"

lemma run_fences:
  assumes "fences_within B m" and "B + int (length xs) \<le> max_i64" and "lease_run xs m = (m', ls)"
  shows "fences_within (B + int (length xs)) m' \<and>
    sorted_wrt (<) (mget_zero 0 (leaseFences m) a # tokens_on a ls) \<and>
    mget_zero 0 (leaseFences m') a = last (mget_zero 0 (leaseFences m) a # tokens_on a ls)"
  using assms
proof (induction xs arbitrary: B m m' ls)
  case (Cons x xs)
  obtain m1 l1 where x: "lease_exec x m = (m1, l1)" by fastforce
  obtain m2 l2 where xs: "lease_run xs m1 = (m2, l2)" by fastforce
  have B: "B < max_i64" "B + 1 + int (length xs) \<le> max_i64" using Cons.prems(2) by simp_all
  note e = exec_fences [OF Cons.prems(1) B(1) x]
  note ih = Cons.IH [OF e(1) B(2) xs]
  have eq: "m' = m2" "ls = l1 @ l2" using Cons.prems(3) x xs by simp_all
  show ?case using e(2)
  proof (elim disjE conjE exE)
    assume "l1 = []" "leaseFences m1 = leaseFences m"
    then show ?thesis using ih eq by (simp add: algebra_simps)
  next
    fix l b
    assume l: "l1 = [l]" "ls_AcceleratorID l = b" "mget_zero 0 (leaseFences m) b < ls_FencingToken l"
      "mget_zero 0 (leaseFences m1) = (mget_zero 0 (leaseFences m))(b := ls_FencingToken l)"
    then show ?thesis
      using ih eq by (cases "b = a") (auto simp: tokens_on_def algebra_simps intro: less_trans)
  qed
qed (simp add: tokens_on_def)

section \<open>Checkpoint rows under lease operations\<close>

lemma mark_recovered_identity [simp]:
  "ck_ID (mark_recovered now a i t p) = ck_ID p"
  "checkpoint_key (mark_recovered now a i t p) = checkpoint_key p"
  "same_slot (mark_recovered now a i t p) q = same_slot p q"
  "same_slot q (mark_recovered now a i t p) = same_slot q p"
  by (simp_all add: mark_recovered_def checkpoint_key_def same_slot_def)

lemma mark_recovered_evolves: "checkpoint_evolves p (mark_recovered now a i t p)"
  by (simp add: mark_recovered_def checkpoint_evolves_def llmCheckpointImmutableIdentityEqual_def
      llmCheckpointIdentityEqual_def)

lemma recovered_checkpoint_inv:
  assumes inv: "checkpoint_inv m" and p: "map_of (llmCheckpointOps m) k = Some p"
    and m': "llmCheckpointOps m' = mput k (mark_recovered now a i t p) (llmCheckpointOps m)"
      "llmCheckpointKeys m' = llmCheckpointKeys m"
  shows "checkpoint_inv m'"
proof -
  have table: "indexed_table ck_ID checkpoint_key (llmCheckpointOps m) (llmCheckpointKeys m)"
    and free: "conflict_free same_slot (llmCheckpointOps m)"
    using inv by (simp_all add: checkpoint_inv_def checkpoint_index_ok_def slot_exclusive_def)
  have k: "ck_ID p = k" using indexed_table_rowD [OF table p] by simp
  have "checkpoint_index_ok m'"
    using indexed_table_replace [OF table, where v = "mark_recovered now a i t p" and w = p] p k
    by (simp add: checkpoint_index_ok_def m')
  moreover have "slot_exclusive m'"
    unfolding slot_exclusive_def m'
    using free p by (intro conflict_free_put) (auto simp: conflict_free_def)
  ultimately show ?thesis by (simp add: checkpoint_inv_def)
qed

lemma acquire_checkpoints:
  assumes inv: "checkpoint_inv m" and m'_def: "m' = fst (acquireAcceleratorLease now m a w i ttl)"
  shows "checkpoint_inv m'" and "checkpoint_rows_evolve m m'"
proof -
  have "checkpoint_inv m' \<and> checkpoint_rows_evolve m m'"
  proof (cases rule: acquire_cases [of now m a w i ttl])
    case (refused l)
    then show ?thesis using inv by (simp add: m'_def checkpoint_rows_evolve_refl)
  next
    case granted
    show ?thesis
    proof (cases "recovery_op m a w i")
      case None
      then have "llmCheckpointOps m' = llmCheckpointOps m" "llmCheckpointKeys m' = llmCheckpointKeys m"
        using granted by (simp_all add: m'_def grant_lease_effect)
      then show ?thesis
        using inv by (simp add: checkpoint_rows_evolve_refl checkpoint_inv_def checkpoint_index_ok_def slot_exclusive_def)
    next
      case (Some kp)
      obtain k p where kp: "kp = (k, p)" by fastforce
      have "gomap_wf (llmCheckpointOps m)"
        using inv indexed_table_wf by (auto simp: checkpoint_inv_def checkpoint_index_ok_def)
      then have p: "map_of (llmCheckpointOps m) k = Some p"
        using recovery_opD(1) [of m a w i k p] Some kp gomap_entry by fastforce
      have ops: "llmCheckpointOps m' =
          mput k (mark_recovered now a i (new_token m a (Some (k, p))) p) (llmCheckpointOps m)"
        and keys: "llmCheckpointKeys m' = llmCheckpointKeys m"
        using granted Some kp by (simp_all add: m'_def grant_lease_effect)
      show ?thesis
        using recovered_checkpoint_inv [OF inv p ops keys] mark_recovered_evolves p
        by (auto simp: checkpoint_rows_evolve_def ops)
    qed
  qed
  then show "checkpoint_inv m'" and "checkpoint_rows_evolve m m'" by blast+
qed

lemma lease_step_frame:
  assumes "lease_step m m'"
  shows "m' = m\<lparr>leases := leases m', leaseFences := leaseFences m',
    leaseCleanupIntents := leaseCleanupIntents m', llmCheckpointOps := llmCheckpointOps m'\<rparr>"
  using assms
proof (cases rule: lease_step.cases)
  case (acquire_lease now a w ttl)
  then show ?thesis
    by (cases rule: acquire_cases [of now m a w "''''" ttl])
      (simp_all add: AcquireAcceleratorLease_def grant_lease_effect)
next
  case (recover_lease now a w i ttl)
  then show ?thesis
    by (cases rule: acquire_cases [of now m a w i ttl])
      (simp_all add: AcquireAcceleratorLeaseForCheckpointRecovery_def grant_lease_effect)
qed (simp_all add: RenewAcceleratorLease_def ReleaseAcceleratorLease_def RecordAcceleratorLeaseCleanupIntent_def
    DeleteAcceleratorLeaseCleanupIntent_def DeleteAcceleratorLeaseCleanupIntentForWorkload_def Let_def
    split: option.splits)

lemma lease_step_checkpoints:
  assumes "lease_step m m'" and "checkpoint_inv m"
  shows "checkpoint_inv m'" and "checkpoint_rows_evolve m m'"
proof -
  have "checkpoint_inv m' \<and> checkpoint_rows_evolve m m'"
    using assms(1)
  proof (cases rule: lease_step.cases)
    case (acquire_lease now a w ttl)
    then show ?thesis using acquire_checkpoints [OF assms(2)] by (simp add: AcquireAcceleratorLease_def)
  next
    case (recover_lease now a w i ttl)
    then show ?thesis
      using acquire_checkpoints [OF assms(2)] by (simp add: AcquireAcceleratorLeaseForCheckpointRecovery_def)
  qed (use assms(2) in \<open>simp_all add: RenewAcceleratorLease_def ReleaseAcceleratorLease_def
      RecordAcceleratorLeaseCleanupIntent_def DeleteAcceleratorLeaseCleanupIntent_def
      DeleteAcceleratorLeaseCleanupIntentForWorkload_def Let_def checkpoint_rows_evolve_refl
      checkpoint_inv_def checkpoint_index_ok_def slot_exclusive_def split: option.splits\<close>)
  then show "checkpoint_inv m'" and "checkpoint_rows_evolve m m'" by blast+
qed

section \<open>Cleanup intents in the store\<close>

text \<open>Every stored intent is under its own key and passes validation.\<close>

definition cleanup_intents_ok :: "memory_store \<Rightarrow> bool" where
  "cleanup_intents_ok m \<longleftrightarrow> gomap_wf (leaseCleanupIntents m) \<and>
     (\<forall>k c. map_of (leaseCleanupIntents m) k = Some c \<longrightarrow>
        k = leaseCleanupRecordKey c \<and> validateLeaseCleanupIntent (Some c) = None)"

definition intent_advances :: "lease_cleanup_intent \<Rightarrow> lease_cleanup_intent \<Rightarrow> bool" where
  "intent_advances c d \<longleftrightarrow>
     ci_WorkloadID d = ci_WorkloadID c \<and> ci_ExpectedWorkloadRevision d = ci_ExpectedWorkloadRevision c \<and>
     ci_TerminalDisposition d = ci_TerminalDisposition c \<and> ci_TerminalErrorCode d = ci_TerminalErrorCode c \<and>
     ci_CreatedAt d = ci_CreatedAt c \<and> ci_Attempts c \<le> ci_Attempts d \<and>
     (ci_ReleaseConfirmed c \<longrightarrow> ci_ReleaseConfirmed d) \<and> (ci_TerminalPublished c \<longrightarrow> ci_TerminalPublished d) \<and>
     (ci_AuditPublished c \<longrightarrow> ci_AuditPublished d) \<and>
     (ci_NotificationPublished c \<longrightarrow> ci_NotificationPublished d) \<and> (ci_BudgetSettled c \<longrightarrow> ci_BudgetSettled d)"

lemma validate_intent_iff:
  "validateLeaseCleanupIntent (Some c) = None \<longleftrightarrow>
     ci_AcceleratorID c \<noteq> '''' \<and> ci_Owner c \<noteq> '''' \<and> 0 < ci_FencingToken c \<and> 1 \<le> ci_Attempts c \<and>
     length (ci_LastError c) \<le> 512 \<and> length (ci_TerminalErrorCode c) \<le> 128 \<and>
     (if ci_TerminalDisposition c = ''''
      then ci_WorkloadID c = '''' \<and> ci_ExpectedWorkloadRevision c = 0 \<and> \<not> ci_ReleaseConfirmed c \<and>
        \<not> ci_TerminalPublished c \<and> \<not> ci_AuditPublished c \<and> \<not> ci_NotificationPublished c \<and> \<not> ci_BudgetSettled c
      else ci_WorkloadID c \<noteq> '''' \<and> ci_ExpectedWorkloadRevision c \<noteq> 0 \<and> ci_TerminalErrorCode c \<noteq> '''' \<and>
        ci_TerminalDisposition c \<in> {''success'', ''failure'', ''cancel''} \<and>
        (ci_TerminalPublished c \<longrightarrow> ci_ReleaseConfirmed c) \<and>
        (ci_AuditPublished c \<or> ci_NotificationPublished c \<or> ci_BudgetSettled c \<longrightarrow> ci_TerminalPublished c))"
  unfolding validateLeaseCleanupIntent_def option.case guards not_less not_le
  by (cases "ci_TerminalDisposition c = ''''") auto

lemma stamp_intent_sel:
  "ci_AcceleratorID (stamp_cleanup_intent now c) = ci_AcceleratorID c"
  "ci_Owner (stamp_cleanup_intent now c) = ci_Owner c"
  "ci_FencingToken (stamp_cleanup_intent now c) = ci_FencingToken c"
  "ci_WorkloadID (stamp_cleanup_intent now c) = ci_WorkloadID c"
  "ci_ExpectedWorkloadRevision (stamp_cleanup_intent now c) = ci_ExpectedWorkloadRevision c"
  "ci_TerminalDisposition (stamp_cleanup_intent now c) = ci_TerminalDisposition c"
  "ci_TerminalErrorCode (stamp_cleanup_intent now c) = ci_TerminalErrorCode c"
  "ci_ReleaseConfirmed (stamp_cleanup_intent now c) = ci_ReleaseConfirmed c"
  "ci_TerminalPublished (stamp_cleanup_intent now c) = ci_TerminalPublished c"
  "ci_AuditPublished (stamp_cleanup_intent now c) = ci_AuditPublished c"
  "ci_NotificationPublished (stamp_cleanup_intent now c) = ci_NotificationPublished c"
  "ci_BudgetSettled (stamp_cleanup_intent now c) = ci_BudgetSettled c"
  "ci_LastError (stamp_cleanup_intent now c) = ci_LastError c"
  "ci_Attempts (stamp_cleanup_intent now c) = max 1 (ci_Attempts c)"
  by (simp_all add: stamp_cleanup_intent_def)

lemma merge_intent_sel:
  "ci_AcceleratorID (merge_cleanup_intent e s) = ci_AcceleratorID s"
  "ci_Owner (merge_cleanup_intent e s) = ci_Owner s"
  "ci_FencingToken (merge_cleanup_intent e s) = ci_FencingToken s"
  "ci_WorkloadID (merge_cleanup_intent e s) = ci_WorkloadID s"
  "ci_ExpectedWorkloadRevision (merge_cleanup_intent e s) = ci_ExpectedWorkloadRevision s"
  "ci_TerminalDisposition (merge_cleanup_intent e s) = ci_TerminalDisposition s"
  "ci_TerminalErrorCode (merge_cleanup_intent e s) = ci_TerminalErrorCode s"
  "ci_LastError (merge_cleanup_intent e s) = ci_LastError s"
  "ci_ReleaseConfirmed (merge_cleanup_intent e s) = (ci_ReleaseConfirmed e \<or> ci_ReleaseConfirmed s)"
  "ci_TerminalPublished (merge_cleanup_intent e s) = (ci_TerminalPublished e \<or> ci_TerminalPublished s)"
  "ci_AuditPublished (merge_cleanup_intent e s) = (ci_AuditPublished e \<or> ci_AuditPublished s)"
  "ci_NotificationPublished (merge_cleanup_intent e s) = (ci_NotificationPublished e \<or> ci_NotificationPublished s)"
  "ci_BudgetSettled (merge_cleanup_intent e s) = (ci_BudgetSettled e \<or> ci_BudgetSettled s)"
  "ci_Attempts (merge_cleanup_intent e s) = max (ci_Attempts e) (ci_Attempts s)"
  "ci_CreatedAt (merge_cleanup_intent e s) = ci_CreatedAt e"
  by (simp_all add: merge_cleanup_intent_def max_def)

lemma record_intent_okD:
  assumes "RecordAcceleratorLeaseCleanupIntent now m intent = (m', Inr d)"
  obtains c where "intent = Some c" "validateLeaseCleanupIntent (Some c) = None"
    "m' = m\<lparr>leaseCleanupIntents := mput (leaseCleanupRecordKey c) d (leaseCleanupIntents m)\<rparr>"
    "leaseCleanupRecordKey d = leaseCleanupRecordKey c" "validateLeaseCleanupIntent (Some d) = None \<or>
      (\<exists>e. map_of (leaseCleanupIntents m) (leaseCleanupRecordKey c) = Some e \<and> validateLeaseCleanupIntent (Some e) \<noteq> None)"
    "\<And>e. map_of (leaseCleanupIntents m) (leaseCleanupRecordKey c) = Some e \<Longrightarrow> intent_advances e d"
proof (cases intent)
  case None
  then show ?thesis using assms by (simp add: RecordAcceleratorLeaseCleanupIntent_def validateLeaseCleanupIntent_def)
next
  case (Some c)
  let ?s = "stamp_cleanup_intent now c"
  have v: "validateLeaseCleanupIntent (Some c) = None"
    using assms Some by (simp add: RecordAcceleratorLeaseCleanupIntent_def split: option.splits)
  have k: "leaseCleanupRecordKey ?s = leaseCleanupRecordKey c"
    unfolding leaseCleanupRecordKey_def stamp_intent_sel ..
  have vs: "validateLeaseCleanupIntent (Some ?s) = None"
    using v unfolding validate_intent_iff stamp_intent_sel
    by (cases "ci_TerminalDisposition c = ''''") auto
  show ?thesis
  proof (cases "map_of (leaseCleanupIntents m) (leaseCleanupRecordKey c)")
    case None
    then show ?thesis
      using assms Some v k vs
      by (intro that [OF Some v]) (auto simp: RecordAcceleratorLeaseCleanupIntent_def Let_def)
  next
    case e: (Some e)
    have d: "d = merge_cleanup_intent e ?s" "ci_WorkloadID e = ci_WorkloadID c"
      "ci_ExpectedWorkloadRevision e = ci_ExpectedWorkloadRevision c"
      "ci_TerminalDisposition e = ci_TerminalDisposition c" "ci_TerminalErrorCode e = ci_TerminalErrorCode c"
      "m' = m\<lparr>leaseCleanupIntents := mput (leaseCleanupRecordKey c) d (leaseCleanupIntents m)\<rparr>"
      using assms Some v e by (auto simp: RecordAcceleratorLeaseCleanupIntent_def Let_def split: if_splits)
    have "leaseCleanupRecordKey d = leaseCleanupRecordKey c"
      unfolding d(1) leaseCleanupRecordKey_def merge_intent_sel stamp_intent_sel ..
    moreover have "intent_advances e d"
      using d(2-5) unfolding intent_advances_def d(1) merge_intent_sel stamp_intent_sel by simp
    moreover have "validateLeaseCleanupIntent (Some d) = None" if "validateLeaseCleanupIntent (Some e) = None"
      using that vs d(2-5) unfolding validate_intent_iff d(1) merge_intent_sel stamp_intent_sel
      by (cases "ci_TerminalDisposition c = ''''") auto
    ultimately show ?thesis using that [OF Some v d(6)] e by auto
  qed
qed

lemma record_intent_ok:
  assumes ok: "cleanup_intents_ok m"
  shows "cleanup_intents_ok (fst (RecordAcceleratorLeaseCleanupIntent now m intent))"
proof (cases "RecordAcceleratorLeaseCleanupIntent now m intent")
  case (Pair m' r)
  show ?thesis
  proof (cases r)
    case (Inl err)
    then have "m' = m"
      using Pair by (auto simp: RecordAcceleratorLeaseCleanupIntent_def Let_def split: option.splits if_splits)
    then show ?thesis using Pair ok by simp
  next
    case (Inr d)
    then show ?thesis
      using Pair ok by (auto elim!: record_intent_okD simp: cleanup_intents_ok_def split: if_splits)
  qed
qed

lemma map_of_filterD: "map_of (filter P xs) k = Some c \<Longrightarrow> gomap_wf xs \<Longrightarrow> map_of xs k = Some c"
  by (metis gomap_entry gomap_wf_filter filter_is_subset subsetD)

lemma lease_step_cleanup:
  assumes "lease_step m m'" and "cleanup_intents_ok m"
  shows "cleanup_intents_ok m'"
  using assms(1)
proof (cases rule: lease_step.cases)
  case (acquire_lease now a w ttl)
  then show ?thesis
    using assms(2) by (cases rule: acquire_cases [of now m a w "''''" ttl])
      (simp_all add: AcquireAcceleratorLease_def grant_lease_effect cleanup_intents_ok_def)
next
  case (recover_lease now a w i ttl)
  then show ?thesis
    using assms(2) by (cases rule: acquire_cases [of now m a w i ttl])
      (simp_all add: AcquireAcceleratorLeaseForCheckpointRecovery_def grant_lease_effect cleanup_intents_ok_def)
next
  case (record_cleanup now intent)
  then show ?thesis using record_intent_ok [OF assms(2)] by simp
next
  case (delete_cleanup a w token)
  then obtain P where eq: "leaseCleanupIntents m' = filter P (leaseCleanupIntents m)"
    by (simp add: DeleteAcceleratorLeaseCleanupIntent_def Let_def)
  have wf: "gomap_wf (leaseCleanupIntents m)" using assms(2) by (simp add: cleanup_intents_ok_def)
  show ?thesis
    unfolding cleanup_intents_ok_def eq
  proof (intro conjI allI impI)
    fix k c
    assume "map_of (filter P (leaseCleanupIntents m)) k = Some c"
    then have "map_of (leaseCleanupIntents m) k = Some c" by (rule map_of_filterD [OF _ wf])
    then show "k = leaseCleanupRecordKey c" and "validateLeaseCleanupIntent (Some c) = None"
      using assms(2) by (simp_all add: cleanup_intents_ok_def)
  qed (simp add: wf)
next
  case (delete_cleanup_workload a w token i)
  then show ?thesis
    using assms(2) by (auto simp: DeleteAcceleratorLeaseCleanupIntentForWorkload_def cleanup_intents_ok_def split: if_splits)
qed (use assms(2) in \<open>simp_all add: RenewAcceleratorLease_def ReleaseAcceleratorLease_def cleanup_intents_ok_def
  split: option.splits\<close>)

text \<open>With identities free of zero bytes the key of an intent determines its lease.\<close>

definition nul_free :: "lease_cleanup_intent \<Rightarrow> bool" where
  "nul_free c \<longleftrightarrow> NUL \<notin> set (ci_AcceleratorID c) \<and> NUL \<notin> set (ci_Owner c)"

lemma record_key_split:
  "leaseCleanupRecordKey c = nul_join (ci_AcceleratorID c) (nul_join (ci_Owner c)
     (if ci_WorkloadID c = '''' then show_int (ci_FencingToken c)
      else nul_join (show_int (ci_FencingToken c)) (ci_WorkloadID c)))"
  by (simp add: leaseCleanupRecordKey_def leaseCleanupKey_def nul_join_def Let_def)

lemma has_prefix_iff: "has_prefix s p \<longleftrightarrow> (\<exists>r. s = p @ r)"
  unfolding has_prefix_def by (metis append_eq_conv_conj append_take_drop_id)

lemma key_prefix:
  assumes c: "nul_free c" and a: "NUL \<notin> set a" "NUL \<notin> set w"
  shows "leaseCleanupRecordKey c = leaseCleanupKey a w t \<or>
      has_prefix (leaseCleanupRecordKey c) (leaseCleanupKey a w t @ [NUL]) \<longleftrightarrow>
    ci_AcceleratorID c = a \<and> ci_Owner c = w \<and> ci_FencingToken c = t" (is "?L \<longleftrightarrow> ?R")
proof
  assume ?R
  then show ?L
    by (cases "ci_WorkloadID c = ''''")
      (auto simp: leaseCleanupRecordKey_def Let_def has_prefix_iff nul_join_def)
next
  let ?rest = "if ci_WorkloadID c = '''' then show_int (ci_FencingToken c)
    else nul_join (show_int (ci_FencingToken c)) (ci_WorkloadID c)"
  assume ?L
  then obtain s where "leaseCleanupRecordKey c = nul_join a (nul_join w s)"
    and s: "s = show_int t \<or> (\<exists>r. s = nul_join (show_int t) r)"
    by (fastforce simp: leaseCleanupKey_def nul_join_def has_prefix_iff)
  then have eq: "nul_join (ci_AcceleratorID c) (nul_join (ci_Owner c) ?rest) = nul_join a (nul_join w s)"
    by (simp only: record_key_split)
  have n: "NUL \<notin> set (ci_AcceleratorID c)" "NUL \<notin> set (ci_Owner c)" using c by (simp_all add: nul_free_def)
  have acc: "ci_AcceleratorID c = a \<and> nul_join (ci_Owner c) ?rest = nul_join w s"
    using eq by (rule iffD1 [OF nul_join_inject [OF n(1) a(1)]])
  have own: "ci_Owner c = w \<and> ?rest = s"
    by (rule iffD1 [OF nul_join_inject [OF n(2) a(2)] conjunct2 [OF acc]])
  note rest = conjunct2 [OF own]
  have "ci_FencingToken c = t"
    using s
  proof (elim disjE exE)
    assume t: "s = show_int t"
    show ?thesis
    proof (cases "ci_WorkloadID c = ''''")
      case True
      then show ?thesis using rest t by simp
    next
      case False
      then have "show_int t = show_int (ci_FencingToken c) @ NUL # ci_WorkloadID c"
        using rest t by (simp add: nul_join_def)
      then have "NUL \<in> set (show_int t)" by simp
      then show ?thesis by simp
    qed
  next
    fix r
    assume r: "s = nul_join (show_int t) r"
    show ?thesis
    proof (cases "ci_WorkloadID c = ''''")
      case True
      then have "NUL \<in> set (show_int (ci_FencingToken c))" using rest r by (simp add: nul_join_def)
      then show ?thesis by simp
    next
      case False
      then show ?thesis using rest r by (simp add: nul_join_inject)
    qed
  qed
  then show ?R using acc own by blast
qed

lemma superseded_token:
  assumes "fences_within B m'" and "mget_zero 0 (leaseFences m') a \<noteq> token"
  shows "RenewAcceleratorLease now m' a w token ttl = (m', Some ErrNotFound)"
    and "fst (ReleaseAcceleratorLease m' a w token) = m'"
  using assms by (auto simp: fences_within_def RenewAcceleratorLease_def ReleaseAcceleratorLease_def split: option.splits)

section \<open>Properties\<close>

text \<open>A store with an armed cleanup row, the input of the concrete runs.\<close>

definition armed_store :: memory_store where
  "armed_store = NewMemoryStore\<lparr>
     llmCheckpointOps := [(''op-1'', sample_checkpoint\<lparr>ck_CleanupAcceleratorID := ''gpu0'',
       ck_CleanupState := ''armed'', ck_CleanupFence := 7\<rparr>)]\<rparr>"

lemma fences_within_new: "fences_within 0 NewMemoryStore"
  by (simp add: fences_within_def NewMemoryStore_def mget_zero_def)

lemma fences_within_armed: "fences_within 7 armed_store"
  by (simp add: fences_within_def armed_store_def NewMemoryStore_def mget_zero_def)

text \<open>
  C2 The lease table implements one fenced lock per accelerator. While the counters are below the
  largest \<open>int64\<close>, \<open>acquireAcceleratorLease\<close> acts on its accelerator as \<open>lock_acquire\<close> and its
  success flag is the lock's: refused under displacement custody, under another unresolved
  cleanup row or under a live holder, and otherwise granted with a token above the counter and
  above the recovered cleanup fence. Renewal and release act as \<open>lock_renew\<close> and
  \<open>lock_release\<close>, and none of the three changes the lock of another accelerator.
\<close>

theorem lease_refines_fenced_lock:
  assumes "max (counter (lock_of m a)) (recovery_floor m a w i) < max_i64" and "0 \<le> counter (lock_of m a)"
  shows "(lock_of (fst (acquireAcceleratorLease now m a w i ttl)) a,
          snd (snd (acquireAcceleratorLease now m a w i ttl))) =
         lock_acquire (custody_blocked m a \<or> cleanup_blocked m a w i) (recovery_floor m a w i) now a w ttl (lock_of m a) \<and>
    lock_of (fst (RenewAcceleratorLease now m a w token ttl)) a = lock_renew now w token ttl (lock_of m a) \<and>
    lock_of (fst (ReleaseAcceleratorLease m a w token)) a = lock_release w token (lock_of m a) \<and>
    (\<forall>b. b \<noteq> a \<longrightarrow>
       lock_of (fst (acquireAcceleratorLease now m a w i ttl)) b = lock_of m b \<and>
       lock_of (fst (RenewAcceleratorLease now m a w token ttl)) b = lock_of m b \<and>
       lock_of (fst (ReleaseAcceleratorLease m a w token)) b = lock_of m b)"
  using acquire_lock_of [OF assms] by (simp add: acquire_other_locks renew_lock_of release_lock_of)

theorem lease_refines_fenced_lock_witness:
  "recovery_floor armed_store ''gpu0'' ''w'' ''op-1'' = 7 \<and>
   lock_of (fst (acquireAcceleratorLease 5 armed_store ''gpu0'' ''w'' ''op-1'' 10)) ''gpu1'' = lock_of armed_store ''gpu1''"
proof -
  have f: "recovery_floor armed_store ''gpu0'' ''w'' ''op-1'' = 7" by code_simp
  have c: "counter (lock_of armed_store ''gpu0'') = 0" by code_simp
  show ?thesis
    using lease_refines_fenced_lock [of armed_store "''gpu0''" "''w''" "''op-1''" 5 10 1]
    by (simp add: f c max_i64_def del: lock_of_counter)
qed

text \<open>
  C10 Mutual exclusion over every interleaving of lease calls: as long as no request comes after
  the holder's expiry and nobody presents the holder's own workload and token, the holder keeps
  its lease and no other lease is granted on that accelerator.
\<close>

theorem lease_exclusive:
  assumes "map_of (leases m) a = Some l" and "\<forall>x\<in>set xs. leaves_alone a l x" and "lease_run xs m = (m', ls)"
  shows "map_of (leases m') a = Some l \<and> tokens_on a ls = []"
  using run_respects [OF assms] by (auto simp: tokens_on_def filter_empty_conv)

theorem lease_exclusive_witness:
  "let m = NewMemoryStore\<lparr>leases := [(''g'', new_lease 0 ''g'' ''w'' 1 10)], leaseFences := [(''g'', 1)]\<rparr>;
       xs = [Acquire 5 ''g'' ''v'' '''' 10, Release ''g'' ''v'' 1, Acquire 6 ''h'' ''v'' '''' 10]
   in snd (lease_run xs m) = [new_lease 6 ''h'' ''v'' 1 10] \<and> tokens_on ''g'' (snd (lease_run xs m)) = []"
proof -
  let ?m = "NewMemoryStore\<lparr>leases := [(''g'', new_lease 0 ''g'' ''w'' 1 10)], leaseFences := [(''g'', 1)]\<rparr>"
  let ?xs = "[Acquire 5 ''g'' ''v'' '''' 10, Release ''g'' ''v'' 1, Acquire 6 ''h'' ''v'' '''' 10]"
  have "snd (lease_run ?xs ?m) = [new_lease 6 ''h'' ''v'' 1 10]" by code_simp
  moreover have "tokens_on ''g'' (snd (lease_run ?xs ?m)) = []"
    using lease_exclusive [of ?m "''g''" "new_lease 0 ''g'' ''w'' 1 10" ?xs "fst (lease_run ?xs ?m)" "snd (lease_run ?xs ?m)"]
    by (simp add: new_lease_def)
  ultimately show ?thesis by simp
qed

text \<open>
  C7 Fencing tokens only grow: whatever calls are made, ordinary and recovery grants, renewals and
  releases in any order, the tokens granted on an accelerator are strictly increasing and above
  the counter the run started from, provided the counters and cleanup fences stay inside \<open>int64\<close>.
\<close>

theorem lease_tokens_increase:
  assumes "fences_within B m" and "B + int (length xs) \<le> max_i64" and "lease_run xs m = (m', ls)"
  shows "sorted_wrt (<) (mget_zero 0 (leaseFences m) a # tokens_on a ls) \<and>
    mget_zero 0 (leaseFences m') a = last (mget_zero 0 (leaseFences m) a # tokens_on a ls)"
  using run_fences [OF assms] by blast

theorem lease_tokens_increase_witness:
  "let xs = [Acquire 5 ''gpu0'' ''w'' ''op-1'' 10, Release ''gpu0'' ''w'' 8, Acquire 6 ''g'' ''w'' '''' 1, Acquire 9 ''g'' ''w'' '''' 1]
   in tokens_on ''g'' (snd (lease_run xs armed_store)) = [1, 2] \<and>
      sorted_wrt (<) (0 # tokens_on ''g'' (snd (lease_run xs armed_store)))"
proof -
  let ?xs = "[Acquire 5 ''gpu0'' ''w'' ''op-1'' 10, Release ''gpu0'' ''w'' 8, Acquire 6 ''g'' ''w'' '''' 1,
    Acquire 9 ''g'' ''w'' '''' 1]"
  have t: "tokens_on ''g'' (snd (lease_run ?xs armed_store)) = [1, 2]" by code_simp
  have c: "mget_zero 0 (leaseFences armed_store) ''g'' = 0" by code_simp
  have b: "7 + int (length ?xs) \<le> max_i64" by (simp add: max_i64_def)
  have r: "lease_run ?xs armed_store = (fst (lease_run ?xs armed_store), snd (lease_run ?xs armed_store))"
    by (rule surjective_pairing)
  note lease_tokens_increase [OF fences_within_armed b r, of "''g''"]
  then show ?thesis using t c unfolding Let_def by metis
qed

text \<open>
  C12 A superseded holder is fenced out. After a lease is granted and, following any calls, another
  one is granted on the same accelerator, the first token can no longer renew, and releasing
  with it changes nothing, whoever holds the accelerator by then.
\<close>

theorem superseded_lease_rejected:
  assumes "fences_within B m" and "B + 1 + int (length xs) \<le> max_i64"
    and "acquireAcceleratorLease now m a w i ttl = (m1, l, True)"
    and "lease_run xs m1 = (m', ls)" and "tokens_on a ls \<noteq> []"
  shows "RenewAcceleratorLease now' m' a w' (ls_FencingToken l) ttl' = (m', Some ErrNotFound) \<and>
    fst (ReleaseAcceleratorLease m' a w' (ls_FencingToken l)) = m'"
proof -
  have "B < max_i64" using assms(2) by simp
  note g = acquire_fences [OF assms(1) this assms(3)]
  have r: "fences_within (B + 1 + int (length xs)) m'"
    "sorted_wrt (<) (mget_zero 0 (leaseFences m1) a # tokens_on a ls)"
    "mget_zero 0 (leaseFences m') a = last (mget_zero 0 (leaseFences m1) a # tokens_on a ls)"
    using run_fences [OF g(1) assms(2,4)] by blast+
  have "last (tokens_on a ls) \<in> set (tokens_on a ls)" using assms(5) by (rule last_in_set)
  then have "mget_zero 0 (leaseFences m1) a < mget_zero 0 (leaseFences m') a" using r(2,3) assms(5) by simp
  then have "mget_zero 0 (leaseFences m') a \<noteq> ls_FencingToken l" using g(3) by simp
  then show ?thesis using superseded_token [OF r(1)] by blast
qed

theorem superseded_lease_rejected_witness:
  "let m1 = fst (acquireAcceleratorLease 0 NewMemoryStore ''g'' ''w'' '''' 1);
       m2 = fst (lease_run [Acquire 5 ''g'' ''v'' '''' 9] m1)
   in map_of (leases m2) ''g'' = Some (new_lease 5 ''g'' ''v'' 2 9) \<and>
      RenewAcceleratorLease 6 m2 ''g'' ''w'' 1 9 = (m2, Some ErrNotFound)"
proof -
  let ?m1 = "fst (acquireAcceleratorLease 0 NewMemoryStore ''g'' ''w'' '''' 1)"
  let ?m2 = "fst (lease_run [Acquire 5 ''g'' ''v'' '''' 9] ?m1)"
  have g: "acquireAcceleratorLease 0 NewMemoryStore ''g'' ''w'' '''' 1 = (?m1, new_lease 0 ''g'' ''w'' 1 1, True)"
    and r: "lease_run [Acquire 5 ''g'' ''v'' '''' 9] ?m1 = (?m2, [new_lease 5 ''g'' ''v'' 2 9])"
    and t: "tokens_on ''g'' [new_lease 5 ''g'' ''v'' 2 9] \<noteq> []"
    and h: "map_of (leases ?m2) ''g'' = Some (new_lease 5 ''g'' ''v'' 2 9)"
    by code_simp+
  have b: "0 + 1 + int (length [Acquire 5 ''g'' ''v'' '''' 9]) \<le> max_i64" by (simp add: max_i64_def)
  have "ls_FencingToken (new_lease 0 ''g'' ''w'' 1 1) = 1" by (simp add: new_lease_def)
  then show ?thesis
    using superseded_lease_rejected [OF fences_within_new b g r t, of 6 "''w''" 9] h by (simp add: Let_def)
qed

lemma granted_recovery_op:
  assumes "acquireAcceleratorLease now m a w i ttl = (m', l, True)" and wf: "gomap_wf (llmCheckpointOps m)"
    and p: "map_of (llmCheckpointOps m) k = Some p" "recovery_row a w i p"
  shows "recovery_op m a w i = Some (k, p)"
proof -
  have kp: "(k, p) \<in> set (llmCheckpointOps m)" using gomap_entry [OF wf] p(1) by simp
  have "cleanup_blocks a p" using p(2) by (simp add: recovery_row_def cleanup_blocks_def)
  then have "Some k = map_option fst (recovery_op m a w i)"
    using kp grant_unblocked(2) [OF assms(1)] by (auto simp: cleanup_blocked_def)
  then obtain q where q: "recovery_op m a w i = Some (k, q)" by (cases "recovery_op m a w i") auto
  then have "map_of (llmCheckpointOps m) k = Some q" using gomap_entry [OF wf] recovery_opD(1) by blast
  then show ?thesis using q p(1) by simp
qed



text \<open>
  A cleanup intent never loses progress. Recording keeps every stored intent valid and under its
  own key, and when it succeeds over an existing intent the workload, revision, disposition and
  error code are those already stored, the creation time is kept, the attempts do not go down
  and no completed continuation step (release, publication, audit, notification, budget) is
  forgotten.
\<close>

theorem cleanup_intent_progress:
  assumes "cleanup_intents_ok m" and "RecordAcceleratorLeaseCleanupIntent now m (Some c) = (m', Inr d)"
  shows "cleanup_intents_ok m' \<and> map_of (leaseCleanupIntents m') (leaseCleanupRecordKey c) = Some d \<and>
    (\<forall>e. map_of (leaseCleanupIntents m) (leaseCleanupRecordKey c) = Some e \<longrightarrow> intent_advances e d)"
  using record_intent_ok [OF assms(1), of now "Some c"] assms(2) by (auto elim!: record_intent_okD)

definition sample_cleanup :: lease_cleanup_intent where
  "sample_cleanup = \<lparr>
     ci_AcceleratorID = ''g'', ci_Owner = ''w'', ci_FencingToken = 1, ci_WorkloadID = ''w'',
     ci_ExpectedWorkloadRevision = 3, ci_TerminalDisposition = ''failure'', ci_TerminalErrorCode = ''oom'',
     ci_ReleaseConfirmed = True, ci_TerminalPublished = False, ci_AuditPublished = False,
     ci_NotificationPublished = False, ci_BudgetSettled = False, ci_Attempts = 2, ci_LastError = '''',
     ci_CreatedAt = 4, ci_UpdatedAt = 4, ci_NextRetryAt = None\<rparr>"

definition sample_cleanup_store :: memory_store where
  "sample_cleanup_store = fst (RecordAcceleratorLeaseCleanupIntent 9 NewMemoryStore (Some sample_cleanup))"

lemma sample_cleanup_rows:
  "leaseCleanupIntents sample_cleanup_store = [(leaseCleanupRecordKey sample_cleanup, sample_cleanup)]"
  by code_simp

lemma sample_cleanup_ok: "cleanup_intents_ok sample_cleanup_store"
  unfolding sample_cleanup_store_def
  by (rule record_intent_ok) (simp add: cleanup_intents_ok_def NewMemoryStore_def)

theorem cleanup_intent_progress_witness:
  "\<exists>d. snd (RecordAcceleratorLeaseCleanupIntent 9 sample_cleanup_store (Some (sample_cleanup\<lparr>
       ci_Attempts := 1, ci_ReleaseConfirmed := False, ci_CreatedAt := 8\<rparr>))) = Inr d \<and>
     intent_advances sample_cleanup d"
proof -
  let ?c = "sample_cleanup\<lparr>ci_Attempts := 1, ci_ReleaseConfirmed := False, ci_CreatedAt := 8\<rparr>"
  let ?r = "RecordAcceleratorLeaseCleanupIntent 9 sample_cleanup_store (Some ?c)"
  have r: "?r = (fst ?r, Inr sample_cleanup)" by code_simp
  have k: "leaseCleanupRecordKey ?c = leaseCleanupRecordKey sample_cleanup" by code_simp
  have "intent_advances sample_cleanup sample_cleanup"
    using cleanup_intent_progress [OF sample_cleanup_ok r] by (simp add: k sample_cleanup_rows)
  then show ?thesis using r by (metis snd_conv)
qed

text \<open>
  \<open>DeleteAcceleratorLeaseCleanupIntent\<close> removes exactly the intents of the lease it names, the
  workload-specific ones included, and no intent of another accelerator, owner or token: the
  prefix test on the composed keys separates leases because identities carry no zero byte.
\<close>

theorem cleanup_delete_exact:
  assumes "cleanup_intents_ok m" and "\<forall>c\<in>set (mvalues (leaseCleanupIntents m)). nul_free c"
    and "NUL \<notin> set a" and "NUL \<notin> set w"
  shows "mvalues (leaseCleanupIntents (DeleteAcceleratorLeaseCleanupIntent m a w t)) =
    filter (\<lambda>c. \<not> (ci_AcceleratorID c = a \<and> ci_Owner c = w \<and> ci_FencingToken c = t)) (mvalues (leaseCleanupIntents m))"
proof -
  have wf: "gomap_wf (leaseCleanupIntents m)" using assms(1) by (simp add: cleanup_intents_ok_def)
  have row: "k = leaseCleanupRecordKey c \<and> nul_free c" if "(k, c) \<in> set (leaseCleanupIntents m)" for k c
    using that assms(1,2) gomap_entry [OF wf, of k c] by (force simp: cleanup_intents_ok_def mvalues_def)
  show ?thesis
    unfolding DeleteAcceleratorLeaseCleanupIntent_def mvalues_def Let_def
    by (auto simp: filter_map o_def intro!: map_cong filter_cong
        dest!: row key_prefix [OF _ assms(3,4), of _ t])
qed

theorem cleanup_delete_exact_witness:
  "mvalues (leaseCleanupIntents (DeleteAcceleratorLeaseCleanupIntent sample_cleanup_store ''g'' ''w'' 2)) = [sample_cleanup]"
proof -
  have "\<forall>c\<in>set (mvalues (leaseCleanupIntents sample_cleanup_store)). nul_free c" by code_simp
  from cleanup_delete_exact [OF sample_cleanup_ok this, of "''g''" "''w''" 2] show ?thesis
    by (simp add: sample_cleanup_rows mvalues_def) (simp add: sample_cleanup_def)
qed

end
