(* ===== verification/Workloads.thy ===== *)
theory Workloads
  imports Tables Store_State
begin

text \<open>
  The workload table of \<open>internal/store/memory.go\<close>: idempotent creation, the two optimistic
  updates and the settlement guard of \<open>internal/store/store.go\<close>. Callers of \<open>CreateWorkload\<close> and
  \<open>CompareAndSwapWorkload\<close> pass a workload, never nil. The lemmas show that creation is total on
  reachable tables and idempotent, and that concurrent writers of one revision have at most one
  winner.
\<close>

section \<open>Operations\<close>

definition workloadRequiresSettlementIntent :: "workload option \<Rightarrow> bool" where
  "workloadRequiresSettlementIntent w =
     (case w of
        None \<Rightarrow> False
      | Some w \<Rightarrow>
          if wl_BudgetReservationToken w = '''' \<or> wl_BudgetReservationAttempt w = 0 then False
          else if wl_Status w \<in> {WorkloadSucceeded, WorkloadFailed, WorkloadRejected, WorkloadCancelled}
          then \<not> wl_BudgetSettlementPending w
          else False)"

abbreviation wl_ID :: "workload \<Rightarrow> string" where
  "wl_ID w \<equiv> rq_ID (wl_Request w)"

definition CreateWorkload :: "memory_store \<Rightarrow> workload \<Rightarrow> memory_store \<times> (error + workload \<times> bool)" where
  "CreateWorkload m w =
     (let w = w\<lparr>wl_Revision := 1\<rparr>;
          key = nul_join (rq_OwnerID (wl_Request w)) (rq_IdempotencyKey (wl_Request w));
          bound = (if rq_IdempotencyKey (wl_Request w) \<noteq> '''' then map_of (idempotency m) key else None)
      in case bound of
           Some i \<Rightarrow> (m, case map_of (workloads m) i of None \<Rightarrow> Inl Panic | Some existing \<Rightarrow> Inr (existing, False))
         | None \<Rightarrow>
             (let m = (if rq_IdempotencyKey (wl_Request w) \<noteq> ''''
                       then m\<lparr>idempotency := mput key (wl_ID w) (idempotency m)\<rparr> else m)
              in case map_of (workloads m) (wl_ID w) of
                   Some existing \<Rightarrow> (m, Inr (existing, False))
                 | None \<Rightarrow> (m\<lparr>workloads := mput (wl_ID w) w (workloads m)\<rparr>, Inr (w, True))))"

definition UpdateWorkload :: "memory_store \<Rightarrow> workload option \<Rightarrow> memory_store \<times> (error + workload)" where
  "UpdateWorkload m w =
     (case w of
        None \<Rightarrow> (m, Inl ErrWorkloadConflict)
      | Some w \<Rightarrow>
          if wl_Revision w = 0 then (m, Inl ErrWorkloadConflict)
          else (case map_of (workloads m) (wl_ID w) of
             None \<Rightarrow> (m, Inl ErrNotFound)
           | Some current \<Rightarrow>
               if wl_Revision current \<noteq> wl_Revision w then (m, Inl ErrWorkloadConflict)
               else if wl_CancellationOwner current \<noteq> wl_CancellationOwner w then (m, Inl ErrWorkloadConflict)
               else (let updated = w\<lparr>wl_Revision := wl_Revision current + 1\<rparr>
                     in (m\<lparr>workloads := mput (wl_ID w) updated (workloads m)\<rparr>, Inr updated))))"

definition settlement_intent_held :: "workload \<Rightarrow> workload \<Rightarrow> bool" where
  "settlement_intent_held current w \<longleftrightarrow>
     wl_BudgetSettlementPending current \<and> wl_BudgetReservationToken current = wl_BudgetReservationToken w \<and>
     wl_BudgetSettlementAttempt current = wl_BudgetReservationAttempt w"

definition CompareAndSwapWorkload :: "memory_store \<Rightarrow> workload \<Rightarrow> u64 \<Rightarrow> string \<Rightarrow> string \<Rightarrow>
    memory_store \<times> (error + workload)" where
  "CompareAndSwapWorkload m w expectedRevision expectedStatus expectedCancellationOwner =
     (case map_of (workloads m) (wl_ID w) of
        None \<Rightarrow> (m, Inl ErrNotFound)
      | Some current \<Rightarrow>
          if workloadRequiresSettlementIntent (Some w) \<and> \<not> settlement_intent_held current w
          then (m, Inl ErrWorkloadConflict)
          else if wl_Revision current \<noteq> expectedRevision \<or> wl_Status current \<noteq> expectedStatus \<or>
                  wl_CancellationOwner current \<noteq> expectedCancellationOwner
          then (m, Inl ErrWorkloadConflict)
          else (let updated = w\<lparr>wl_Revision := wl_Revision current + 1\<rparr>
                in (m\<lparr>workloads := mput (wl_ID w) updated (workloads m)\<rparr>, Inr updated)))"

definition GetWorkload :: "memory_store \<Rightarrow> string \<Rightarrow> error + workload" where
  "GetWorkload m i = (case map_of (workloads m) i of None \<Rightarrow> Inl ErrNotFound | Some w \<Rightarrow> Inr w)"

definition ListWorkloads :: "memory_store \<Rightarrow> workload list" where
  "ListWorkloads m = oldest_first wl_CreatedAt (mvalues (workloads m))"

section \<open>Outcomes\<close>

lemma create_workload_newD:
  assumes "CreateWorkload m w = (m', Inr (v, True))"
  shows "v = w\<lparr>wl_Revision := 1\<rparr>" and "map_of (workloads m) (wl_ID w) = None"
    and "workloads m' = mput (wl_ID w) v (workloads m)"
    and "rq_IdempotencyKey (wl_Request w) \<noteq> '''' \<Longrightarrow>
      idempotency m' = mput (nul_join (rq_OwnerID (wl_Request w)) (rq_IdempotencyKey (wl_Request w))) (wl_ID w) (idempotency m)"
    and "rq_IdempotencyKey (wl_Request w) = '''' \<Longrightarrow> idempotency m' = idempotency m"
    and "m' = m\<lparr>workloads := workloads m', idempotency := idempotency m'\<rparr>"
  using assms by (auto simp: CreateWorkload_def Let_def split: option.splits if_splits)

lemma create_workload_oldD:
  assumes "CreateWorkload m w = (m', Inr (v, False))"
  shows "workloads m' = workloads m" and "\<exists>i. map_of (workloads m) i = Some v"
    and "m' = m\<lparr>idempotency := idempotency m'\<rparr>"
    and "m' = m \<or> idempotency m' = mput (nul_join (rq_OwnerID (wl_Request w)) (rq_IdempotencyKey (wl_Request w))) (wl_ID w) (idempotency m) \<and>
      map_of (workloads m) (wl_ID w) = Some v"
  using assms by (auto simp: CreateWorkload_def Let_def split: option.splits if_splits)

lemma create_workload_errD: "CreateWorkload m w = (m', Inl e) \<Longrightarrow> m' = m"
  by (auto simp: CreateWorkload_def Let_def split: option.splits if_splits)

lemma create_workload_again:
  assumes "CreateWorkload m w = (m', Inr (v, b))"
  shows "CreateWorkload m' w = (m', Inr (v, False))"
  using assms by (auto simp: CreateWorkload_def Let_def split: option.splits if_splits)

lemma update_workload_okD:
  assumes "UpdateWorkload m w = (m', Inr v)"
  obtains u current where "w = Some u" "wl_Revision u \<noteq> 0" "map_of (workloads m) (wl_ID u) = Some current"
    "wl_Revision current = wl_Revision u" "wl_CancellationOwner current = wl_CancellationOwner u"
    "v = u\<lparr>wl_Revision := wl_Revision current + 1\<rparr>" "m' = m\<lparr>workloads := mput (wl_ID u) v (workloads m)\<rparr>"
  using assms unfolding UpdateWorkload_def Let_def guards by (auto split: option.splits if_splits)

lemma update_workload_errD: "UpdateWorkload m w = (m', Inl e) \<Longrightarrow> m' = m"
  by (auto simp: UpdateWorkload_def Let_def split: option.splits if_splits)

lemma swap_workload_okD:
  assumes "CompareAndSwapWorkload m w e s c = (m', Inr v)"
  obtains current where "map_of (workloads m) (wl_ID w) = Some current"
    "wl_Revision current = e" "wl_Status current = s" "wl_CancellationOwner current = c"
    "workloadRequiresSettlementIntent (Some w) \<longrightarrow> settlement_intent_held current w"
    "v = w\<lparr>wl_Revision := e + 1\<rparr>" "m' = m\<lparr>workloads := mput (wl_ID w) v (workloads m)\<rparr>"
  using assms unfolding CompareAndSwapWorkload_def Let_def by (auto split: option.splits if_splits)

lemma swap_workload_errD: "CompareAndSwapWorkload m w e s c = (m', Inl x) \<Longrightarrow> m' = m"
  by (auto simp: CompareAndSwapWorkload_def Let_def split: option.splits if_splits)

interpretation workload_create: idempotent_create
  "\<lambda>m. map_of (workloads m)" wl_ID "\<lambda>_ :: unit. CreateWorkload"
proof
  fix m w m' v
  assume c: "CreateWorkload m w = (m', Inr (v, True))"
  note d = create_workload_newD [OF c]
  show "map_of (workloads m) (wl_ID v) = None \<and> map_of (workloads m') = (map_of (workloads m))(wl_ID v \<mapsto> v)"
    using d(1-3) by simp
  show "CreateWorkload m' w = (m', Inr (v, False))" using c by (rule create_workload_again)
next
  fix m w m' v
  assume "CreateWorkload m w = (m', Inr (v, False))"
  note d = create_workload_oldD [OF this]
  show "map_of (workloads m') = map_of (workloads m) \<and> (\<exists>k. map_of (workloads m) k = Some v)"
    using d(1,2) by simp
qed (rule create_workload_errD)

section \<open>The table invariant\<close>

text \<open>Rows stand under their own ID, and every idempotency key names an existing row.\<close>

definition workload_inv :: "memory_store \<Rightarrow> bool" where
  "workload_inv m \<longleftrightarrow> gomap_wf (workloads m) \<and>
     (\<forall>i w. map_of (workloads m) i = Some w \<longrightarrow> wl_ID w = i) \<and>
     (\<forall>k i. map_of (idempotency m) k = Some i \<longrightarrow> map_of (workloads m) i \<noteq> None)"

lemma workload_inv_put:
  assumes "workload_inv m" and "wl_ID v = i" and "workloads m' = mput i v (workloads m)"
    and "\<And>k j. map_of (idempotency m') k = Some j \<Longrightarrow> j = i \<or> map_of (idempotency m) k = Some j"
  shows "workload_inv m'"
  using assms by (fastforce simp: workload_inv_def)

lemma workload_inv_put_row:
  "workload_inv m \<Longrightarrow> wl_ID v = i \<Longrightarrow> workload_inv (m\<lparr>workloads := mput i v (workloads m)\<rparr>)"
  by (rule workload_inv_put [of m v i]) simp_all

lemma create_workload_inv:
  assumes inv: "workload_inv m"
  shows "workload_inv (fst (CreateWorkload m w))" and "snd (CreateWorkload m w) \<noteq> Inl Panic"
proof -
  obtain m' r where c: "CreateWorkload m w = (m', r)" by fastforce
  have "r = Inl e \<Longrightarrow> False" for e
    using c inv by (fastforce simp: CreateWorkload_def workload_inv_def Let_def split: option.splits if_splits)
  then obtain v b where r: "r = Inr (v, b)" by (cases r) auto
  have "workload_inv m'"
  proof (cases b)
    case True
    then have "CreateWorkload m w = (m', Inr (v, True))" using c r by simp
    note d = create_workload_newD [OF this]
    have "j = wl_ID w \<or> map_of (idempotency m) k = Some j" if "map_of (idempotency m') k = Some j" for k j
      using that d(4,5) by (cases "rq_IdempotencyKey (wl_Request w) = ''''") (auto split: if_splits)
    from workload_inv_put [OF inv _ d(3) this] show ?thesis by (simp add: d(1))
  next
    case False
    then have "CreateWorkload m w = (m', Inr (v, False))" using c r by simp
    note d = create_workload_oldD [OF this]
    from d(4) show ?thesis using inv d(1) by (auto simp: workload_inv_def split: if_splits)
  qed
  then show "workload_inv (fst (CreateWorkload m w))" and "snd (CreateWorkload m w) \<noteq> Inl Panic"
    using c r by simp_all
qed

lemma update_workload_inv: "workload_inv m \<Longrightarrow> UpdateWorkload m w = (m', r) \<Longrightarrow> workload_inv m'"
  by (cases r) (auto dest: update_workload_errD elim!: update_workload_okD intro: workload_inv_put_row)

lemma swap_workload_inv: "workload_inv m \<Longrightarrow> CompareAndSwapWorkload m w e s c = (m', r) \<Longrightarrow> workload_inv m'"
  by (cases r) (auto dest: swap_workload_errD elim!: swap_workload_okD intro: workload_inv_put_row)

section \<open>Properties\<close>

text \<open>The zero values of the Go structs and a queued workload, for concrete runs.\<close>

definition zero_capability_requirements :: capability_requirements where
  "zero_capability_requirements = \<lparr>
     cr_Features = []\<rparr>"


definition zero_profile_preferences :: profile_preferences where
  "zero_profile_preferences = \<lparr>
     prf_Preferred = [], prf_Acceptable = [], prf_FallbackPolicy = ''''\<rparr>"


definition zero_parallelism_policy :: parallelism_policy where
  "zero_parallelism_policy = \<lparr>
     par_Parallelizable = False\<rparr>"


definition zero_workload_bounds :: workload_bounds where
  "zero_workload_bounds = \<lparr>
     wb_ContextTokens = 0, wb_MaxOutput = 0, wb_Frames = 0, wb_Width = 0, wb_Height = 0,
     wb_Steps = 0\<rparr>"


definition zero_notification_preferences :: notification_preferences where
  "zero_notification_preferences = \<lparr>
     np_InApp = False, np_Webhooks = [], np_OnStart = False, np_OnFinish = False\<rparr>"


definition zero_workload_request :: workload_request where
  "zero_workload_request = \<lparr>
     rq_ID = '''', rq_PrincipalID = '''', rq_OwnerID = '''', rq_Plane = '''', rq_Adapter = '''',
     rq_WorkloadType = '''', rq_Operation = '''', rq_QualityClass = '''',
     rq_CapabilityRequirements = zero_capability_requirements,
     rq_ProfilePreferences = zero_profile_preferences, rq_SessionID = '''', rq_BatchID = '''',
     rq_AffinityKey = '''', rq_Ordered = False, rq_Parallelism = zero_parallelism_policy,
     rq_Dependencies = [], rq_LatencyClass = '''', rq_PriorityClass = '''',
     rq_ContinuationRef = '''', rq_CompatibilityToken = '''', rq_Payload = '''',
     rq_ArtifactRefs = [], rq_ItemID = '''', rq_PinnedTargetID = '''',
     rq_OperationVersion = '''', rq_IdempotencyKey = '''', rq_QoS = '''', rq_Priority = 0,
     rq_Deadline = None, rq_QueuePolicy = '''',
     rq_Notifications = zero_notification_preferences, rq_Disruption = '''',
     rq_InterruptionConsent = False, rq_Egress = '''', rq_Bounds = zero_workload_bounds,
     rq_PlacementKey = '''', rq_PlacementPolicy = '''', rq_InteractiveStream = False,
     rq_Recoverable = False, rq_ConcurrencyLimit = 0, rq_BudgetLimitCents = 0,
     rq_TransformationPolicy = '''', rq_Transformations = [],
     rq_TransformationParameters = '''', rq_PreemptionBudget = 0, rq_CreatedAt = 0\<rparr>"


definition zero_admission_decision :: admission_decision where
  "zero_admission_decision = \<lparr>
     ad_Admitted = False, ad_Blocker = '''', ad_BlockerCode = '''', ad_EstimatedStart = None,
     ad_EstimatedEnd = None, ad_RetryAfter = None, ad_ETA = None, ad_NotificationID = '''',
     ad_Confidence = 0, ad_Alternatives = [], ad_TargetID = '''', ad_AcceleratorID = '''',
     ad_ContextLimit = 0, ad_TargetSlots = 0, ad_CapacitySource = '''',
     ad_CapacityVerified = False, ad_ProfileID = '''', ad_ProfileVersion = '''',
     ad_ProfileDigest = '''', ad_CapabilityVersion = '''', ad_WarmModelBytesVerified = False,
     ad_SessionCheckpointable = False, ad_MaxAcceleratorsPerWorkload = 0\<rparr>"


definition zero_workload :: workload where
  "zero_workload = \<lparr>
     wl_Request = zero_workload_request, wl_Revision = 0, wl_Status = '''',
     wl_Decision = zero_admission_decision, wl_Plan = None, wl_Execution = None,
     wl_Progress = 0, wl_ProgressStage = '''', wl_ProgressNode = '''', wl_ProgressCurrent = 0,
     wl_ProgressTotal = 0, wl_OutputRefs = [], wl_InlineOutput = '''', wl_Error = '''',
     wl_CreatedAt = 0, wl_StartedAt = None, wl_UpdatedAt = 0, wl_FinishedAt = None,
     wl_ExecutionAttempts = 0, wl_TargetRetryAfter = [], wl_CheckpointRef = '''',
     wl_PreemptionCount = 0, wl_RuntimePriority = None, wl_ActualCostCents = 0,
     wl_PreemptionsInitiated = 0, wl_TransitionPlanIDs = [], wl_CancellationOwner = '''',
     wl_BudgetReservationToken = '''', wl_BudgetReservationAttempt = 0,
     wl_BudgetReservationCents = 0, wl_BudgetReservationLimitCents = 0,
     wl_BudgetReservationCurrency = '''', wl_BudgetCleanupToken = '''',
     wl_BudgetCleanupAttempt = 0, wl_BudgetSettlementPending = False,
     wl_BudgetSettlementAttempt = 0, wl_BudgetSettlementActualCents = 0\<rparr>"


definition sample_workload :: "string \<Rightarrow> string \<Rightarrow> string \<Rightarrow> workload" where
  "sample_workload i owner key = zero_workload\<lparr>
     wl_Request := zero_workload_request\<lparr>rq_ID := i, rq_OwnerID := owner, rq_IdempotencyKey := key\<rparr>,
     wl_Status := WorkloadQueued\<rparr>"

lemma sample_workload_sel:
  "rq_ID (wl_Request (sample_workload i owner key)) = i"
  "rq_OwnerID (wl_Request (sample_workload i owner key)) = owner"
  "rq_IdempotencyKey (wl_Request (sample_workload i owner key)) = key"
  "rq_PrincipalID (wl_Request (sample_workload i owner key)) = ''''"
  "wl_Revision (sample_workload i owner key) = 0" "wl_Status (sample_workload i owner key) = WorkloadQueued"
  "wl_CancellationOwner (sample_workload i owner key) = ''''"
  "wl_BudgetReservationToken (sample_workload i owner key) = ''''"
  by (simp_all add: sample_workload_def zero_workload_def zero_workload_request_def)

definition sample_workload_store :: memory_store where
  "sample_workload_store = fst (CreateWorkload NewMemoryStore (sample_workload ''w1'' ''alice'' ''k''))"

lemma workload_inv_new: "workload_inv NewMemoryStore"
  by (simp add: workload_inv_def NewMemoryStore_def)

lemma sample_workload_rows:
  "workloads sample_workload_store = [(''w1'', (sample_workload ''w1'' ''alice'' ''k'')\<lparr>wl_Revision := 1\<rparr>)]"
  by (simp add: sample_workload_store_def CreateWorkload_def NewMemoryStore_def sample_workload_def Let_def)

text \<open>
  C30 \<open>CreateWorkload\<close> always answers on a consistent table: it never dereferences a missing row,
  it keeps the table consistent, and repeating the request returns the same workload without
  creating anything, whether the first call inserted the row or found it.
\<close>

theorem workload_create_total:
  assumes "workload_inv m"
  shows "\<exists>m' v b. CreateWorkload m w = (m', Inr (v, b)) \<and> workload_inv m' \<and>
    CreateWorkload m' w = (m', Inr (v, False)) \<and>
    (\<forall>i u. map_of (workloads m) i = Some u \<longrightarrow> map_of (workloads m') i = Some u)"
proof -
  obtain m' r where c: "CreateWorkload m w = (m', r)" by fastforce
  have "r \<noteq> Inl e" for e
    using c create_workload_inv(2) [OF assms, of w]
    by (auto simp: CreateWorkload_def Let_def split: option.splits if_splits)
  then obtain v b where r: "r = Inr (v, b)" by (cases r) auto
  have "workload_inv m'" using create_workload_inv(1) [OF assms, of w] c by simp
  moreover have "CreateWorkload m' w = (m', Inr (v, False))" using create_workload_again c r by blast
  ultimately show ?thesis using c r workload_create.create_keeps_rows [OF c] by auto
qed

theorem workload_create_total_witness:
  "\<exists>m' v b. CreateWorkload sample_workload_store (sample_workload ''w2'' ''bob'' ''k'') = (m', Inr (v, b)) \<and>
     (\<forall>i u. map_of (workloads sample_workload_store) i = Some u \<longrightarrow> map_of (workloads m') i = Some u)"
proof -
  have "workload_inv sample_workload_store"
    unfolding sample_workload_store_def by (rule create_workload_inv(1) [OF workload_inv_new])
  from workload_create_total [OF this, of "sample_workload ''w2'' ''bob'' ''k''"] show ?thesis by blast
qed

text \<open>
  \<open>CompareAndSwapWorkload\<close>, whenever it succeeds, replaced a row that had exactly the revision,
  status and cancellation owner the caller expected, stores the next revision and touches no
  other row; and it never commits a terminal workload with a priced reservation unless the
  settlement intent is in the new row or was already durable for that very claim.
\<close>

theorem workload_swap_effect:
  assumes "CompareAndSwapWorkload m w e s c = (m', Inr v)"
  shows "\<exists>current. map_of (workloads m) (wl_ID w) = Some current \<and> wl_Revision current = e \<and>
    wl_Status current = s \<and> wl_CancellationOwner current = c \<and> v = w\<lparr>wl_Revision := e + 1\<rparr> \<and>
    map_of (workloads m') = (map_of (workloads m))(wl_ID w \<mapsto> v) \<and>
    (wl_Status v \<in> {WorkloadSucceeded, WorkloadFailed, WorkloadRejected, WorkloadCancelled} \<and>
     wl_BudgetReservationToken v \<noteq> '''' \<and> wl_BudgetReservationAttempt v \<noteq> 0 \<longrightarrow>
     wl_BudgetSettlementPending v \<or> settlement_intent_held current v)"
  using assms
proof (rule swap_workload_okD)
  fix current
  assume u: "map_of (workloads m) (wl_ID w) = Some current" "wl_Revision current = e" "wl_Status current = s"
    "wl_CancellationOwner current = c" "workloadRequiresSettlementIntent (Some w) \<longrightarrow> settlement_intent_held current w"
    "v = w\<lparr>wl_Revision := e + 1\<rparr>" "m' = m\<lparr>workloads := mput (wl_ID w) v (workloads m)\<rparr>"
  then show ?thesis
    by (intro exI [of _ current]) (auto simp: workloadRequiresSettlementIntent_def settlement_intent_held_def)
qed

theorem workload_swap_effect_witness:
  "let w = sample_workload ''w1'' ''alice'' ''k''; r = CompareAndSwapWorkload sample_workload_store (w\<lparr>wl_Status := WorkloadRunning\<rparr>) 1 WorkloadQueued ''''
   in \<exists>v. snd r = Inr v \<and> wl_Revision v = 2 \<and> map_of (workloads (fst r)) ''w1'' = Some v"
proof -
  let ?w = "(sample_workload ''w1'' ''alice'' ''k'')\<lparr>wl_Status := WorkloadRunning\<rparr>"
  let ?r = "CompareAndSwapWorkload sample_workload_store ?w 1 WorkloadQueued ''''"
  have r: "?r = (fst ?r, Inr (?w\<lparr>wl_Revision := 2\<rparr>))"
    by (simp add: CompareAndSwapWorkload_def sample_workload_rows sample_workload_sel
        workloadRequiresSettlementIntent_def Let_def)
  obtain current where "map_of (workloads (fst ?r)) = (map_of (workloads sample_workload_store))(wl_ID ?w \<mapsto> ?w\<lparr>wl_Revision := 2\<rparr>)"
    using workload_swap_effect [OF r] by blast
  then have "map_of (workloads (fst ?r)) ''w1'' = Some (?w\<lparr>wl_Revision := 2\<rparr>)" by (simp add: sample_workload_sel)
  moreover have "snd ?r = Inr (?w\<lparr>wl_Revision := 2\<rparr>)" by (metis r snd_conv)
  ultimately show ?thesis by (simp add: Let_def)
qed

text \<open>
  C39 The idempotency key of one owner can end up naming a workload of another: when a create
  under a fresh key carries an ID that is already taken, the key is bound to that ID before the
  collision is noticed, the existing row is returned whoever owns it, and every later create
  under that key, even with a fresh ID, returns the foreign row again.
\<close>

theorem workload_key_binds_foreign_row:
  assumes "map_of (workloads m) (wl_ID w) = Some u" and "rq_OwnerID (wl_Request u) \<noteq> rq_OwnerID (wl_Request w)"
    and "rq_IdempotencyKey (wl_Request w) \<noteq> ''''"
    and "map_of (idempotency m) (nul_join (rq_OwnerID (wl_Request w)) (rq_IdempotencyKey (wl_Request w))) = None"
    and "rq_OwnerID (wl_Request w') = rq_OwnerID (wl_Request w)"
    and "rq_IdempotencyKey (wl_Request w') = rq_IdempotencyKey (wl_Request w)"
  shows "\<exists>m'. CreateWorkload m w = (m', Inr (u, False)) \<and> CreateWorkload m' w' = (m', Inr (u, False))"
  using assms by (auto simp: CreateWorkload_def Let_def)

theorem workload_key_binds_foreign_row_witness:
  "\<exists>m'. CreateWorkload sample_workload_store (sample_workload ''w1'' ''bob'' ''x'') =
      (m', Inr ((sample_workload ''w1'' ''alice'' ''k'')\<lparr>wl_Revision := 1\<rparr>, False)) \<and>
    CreateWorkload m' (sample_workload ''w9'' ''bob'' ''x'') =
      (m', Inr ((sample_workload ''w1'' ''alice'' ''k'')\<lparr>wl_Revision := 1\<rparr>, False))"
proof (rule workload_key_binds_foreign_row)
  show "map_of (idempotency sample_workload_store) (nul_join (rq_OwnerID (wl_Request (sample_workload ''w1'' ''bob'' ''x'')))
      (rq_IdempotencyKey (wl_Request (sample_workload ''w1'' ''bob'' ''x'')))) = None"
    by (simp add: sample_workload_store_def CreateWorkload_def NewMemoryStore_def sample_workload_def nul_join_def Let_def)
qed (simp_all add: sample_workload_rows, simp_all add: sample_workload_def)

end
