(* ===== verification/Budgets.thy ===== *)
theory Budgets
  imports Workloads
begin

text \<open>
  Budget reservations of \<open>internal/store/memory.go\<close>: reserving, reserving together with the link
  in the workload row, settling and releasing. Amounts are \<open>int64\<close> cents and sums wrap as in Go.
  The lemmas show the status machine of a reservation, that settled rows are final, that links and
  reservations are published together, and that a limit bounds what a principal has committed.
\<close>

section \<open>Operations\<close>

definition defaultBudgetCurrency :: string where
  "defaultBudgetCurrency = ''USD''"

definition normalize_reservation :: "string \<Rightarrow> budget_reservation \<Rightarrow> budget_reservation" where
  "normalize_reservation workloadID r =
     (let r = (if br_Revision r = 0 then r\<lparr>br_Revision := 1\<rparr> else r);
          r = (if br_Attempt r = 0 then r\<lparr>br_Attempt := 1\<rparr> else r)
      in if br_OwnershipToken r = ''''
         then r\<lparr>br_OwnershipToken := ''budget:'' @ workloadID @ '':'' @ show_nat (unat (br_Attempt r))\<rparr>
         else r)"

definition active_reservation :: "memory_store \<Rightarrow> string \<Rightarrow> budget_reservation option" where
  "active_reservation m workloadID =
     (case map_of (budgets m) workloadID of
        None \<Rightarrow> None
      | Some existing \<Rightarrow> if br_Status existing \<noteq> BudgetReleased then Some existing else None)"

definition same_claim :: "budget_reservation \<Rightarrow> string \<Rightarrow> string \<Rightarrow> string \<Rightarrow> i64 \<Rightarrow> i64 \<Rightarrow> bool" where
  "same_claim r principalID workloadID attemptToken amountCents limitCents \<longleftrightarrow>
     br_Status r = BudgetReserved \<and> br_WorkloadID r = workloadID \<and> br_PrincipalID r = principalID \<and>
     br_OwnershipToken r = attemptToken \<and> br_ReservedCents r = amountCents \<and>
     br_LimitCents r = limitCents \<and> br_Currency r = defaultBudgetCurrency"

definition committed_cents :: "memory_store \<Rightarrow> string \<Rightarrow> i64" where
  "committed_cents m principalID =
     foldl (\<lambda>committed r.
        if br_PrincipalID r \<noteq> principalID then committed
        else if br_Status r = BudgetReserved then wrap_i64 (committed + br_ReservedCents r)
        else if br_Status r = BudgetSettled then wrap_i64 (committed + br_ActualCents r)
        else committed) 0 (mvalues (budgets m))"

definition new_reservation :: "time \<Rightarrow> memory_store \<Rightarrow> string \<Rightarrow> string \<Rightarrow> i64 \<Rightarrow> i64 \<Rightarrow> string \<Rightarrow> budget_reservation" where
  "new_reservation now m principalID workloadID amountCents limitCents attemptToken =
     \<lparr>br_WorkloadID = workloadID, br_PrincipalID = principalID, br_Revision = 1,
      br_Attempt = (case map_of (budgets m) workloadID of None \<Rightarrow> 1 | Some existing \<Rightarrow> br_Attempt existing + 1),
      br_OwnershipToken = attemptToken, br_ReservedCents = amountCents, br_LimitCents = limitCents,
      br_Currency = defaultBudgetCurrency, br_ActualCents = 0, br_Status = BudgetReserved,
      br_CreatedAt = (case map_of (budgets m) workloadID of None \<Rightarrow> now | Some existing \<Rightarrow> br_CreatedAt existing),
      br_UpdatedAt = now\<rparr>"

text \<open>The result holds the reservation (nil is \<open>None\<close>), \<open>allowed\<close>, \<open>created\<close> and the error.\<close>

definition ReserveBudgetClaim :: "time \<Rightarrow> memory_store \<Rightarrow> string \<Rightarrow> string \<Rightarrow> i64 \<Rightarrow> i64 \<Rightarrow> string \<Rightarrow>
    memory_store \<times> budget_reservation option \<times> bool \<times> bool \<times> error option" where
  "ReserveBudgetClaim now m principalID workloadID amountCents limitCents attemptToken =
     (if blank attemptToken then (m, None, False, False, Some ErrWorkloadConflict)
      else case active_reservation m workloadID of
        Some existing \<Rightarrow>
          (let existing = normalize_reservation workloadID existing;
               m = m\<lparr>budgets := mput workloadID existing (budgets m)\<rparr>
           in if \<not> same_claim existing principalID workloadID attemptToken amountCents limitCents
              then (m, Some existing, False, False, Some ErrWorkloadConflict)
              else (m, Some existing, True, False, None))
      | None \<Rightarrow>
          if limitCents > 0 \<and> wrap_i64 (committed_cents m principalID + amountCents) > limitCents
          then (m, None, False, False, None)
          else (let r = new_reservation now m principalID workloadID amountCents limitCents attemptToken
                in (m\<lparr>budgets := mput workloadID r (budgets m)\<rparr>, Some r, True, True, None)))"

definition ReserveBudget :: "time \<Rightarrow> memory_store \<Rightarrow> string \<Rightarrow> string \<Rightarrow> i64 \<Rightarrow> i64 \<Rightarrow>
    memory_store \<times> budget_reservation option \<times> bool \<times> error option" where
  "ReserveBudget now m principalID workloadID amountCents limitCents =
     (case ReserveBudgetClaim now m principalID workloadID amountCents limitCents (''budget:'' @ workloadID @ '':legacy'') of
        (m', r, allowed, created, err) \<Rightarrow> (m', r, allowed, err))"

definition link_reservation :: "time \<Rightarrow> budget_reservation \<Rightarrow> workload \<Rightarrow> workload" where
  "link_reservation now r w = w\<lparr>
     wl_BudgetReservationToken := br_OwnershipToken r,
     wl_BudgetReservationAttempt := br_Attempt r,
     wl_BudgetReservationCents := br_ReservedCents r,
     wl_BudgetReservationLimitCents := br_LimitCents r,
     wl_BudgetReservationCurrency := br_Currency r,
     wl_Revision := wl_Revision w + 1,
     wl_UpdatedAt := now\<rparr>"

definition link_conflict :: "workload \<Rightarrow> i64 \<Rightarrow> i64 \<Rightarrow> string \<Rightarrow> bool" where
  "link_conflict w amountCents limitCents attemptToken \<longleftrightarrow>
     wl_BudgetReservationToken w \<noteq> '''' \<and>
     (wl_BudgetReservationToken w \<noteq> attemptToken \<or>
      wl_BudgetReservationCents w \<noteq> 0 \<and> wl_BudgetReservationCents w \<noteq> amountCents \<or>
      wl_BudgetReservationLimitCents w \<noteq> 0 \<and> wl_BudgetReservationLimitCents w \<noteq> limitCents \<or>
      wl_BudgetReservationCurrency w \<noteq> '''' \<and> wl_BudgetReservationCurrency w \<noteq> defaultBudgetCurrency)"

definition ReserveAndLinkBudgetClaim :: "time \<Rightarrow> memory_store \<Rightarrow> string \<Rightarrow> string \<Rightarrow> i64 \<Rightarrow> i64 \<Rightarrow> string \<Rightarrow>
    u64 \<Rightarrow> string \<Rightarrow> string \<Rightarrow>
    memory_store \<times> budget_reservation option \<times> workload option \<times> bool \<times> bool \<times> error option" where
  "ReserveAndLinkBudgetClaim now m principalID workloadID amountCents limitCents attemptToken
       expectedRevision expectedStatus expectedCancellationOwner =
     (if blank attemptToken then (m, None, None, False, False, Some ErrWorkloadConflict)
      else case map_of (workloads m) workloadID of
        None \<Rightarrow> (m, None, None, False, False, Some ErrWorkloadConflict)
      | Some w \<Rightarrow>
      if wl_Revision w \<noteq> expectedRevision \<or> wl_Status w \<noteq> expectedStatus \<or>
         wl_CancellationOwner w \<noteq> expectedCancellationOwner \<or>
         rq_PrincipalID (wl_Request w) \<noteq> '''' \<and> rq_PrincipalID (wl_Request w) \<noteq> principalID
      then (m, None, None, False, False, Some ErrWorkloadConflict)
      else if link_conflict w amountCents limitCents attemptToken
      then (m, None, None, False, False, Some ErrWorkloadConflict)
      else (case active_reservation m workloadID of
        Some existing \<Rightarrow>
          (let existing = normalize_reservation workloadID existing;
               m = m\<lparr>budgets := mput workloadID existing (budgets m)\<rparr>
           in if \<not> same_claim existing principalID workloadID attemptToken amountCents limitCents \<or>
                 wl_BudgetReservationAttempt w \<noteq> 0 \<and> wl_BudgetReservationAttempt w \<noteq> br_Attempt existing
              then (m, Some existing, None, False, False, Some ErrWorkloadConflict)
              else (let updated = link_reservation now existing w
                    in (m\<lparr>workloads := mput workloadID updated (workloads m)\<rparr>,
                        Some existing, Some updated, True, False, None)))
      | None \<Rightarrow>
          if limitCents > 0 \<and> wrap_i64 (committed_cents m principalID + amountCents) > limitCents
          then (m, None, Some w, False, False, None)
          else (let r = new_reservation now m principalID workloadID amountCents limitCents attemptToken;
                    updated = link_reservation now r w
                in (m\<lparr>budgets := mput workloadID r (budgets m),
                      workloads := mput workloadID updated (workloads m)\<rparr>,
                    Some r, Some updated, True, True, None))))"

definition SettleBudget :: "memory_store \<Rightarrow> string \<Rightarrow> i64 \<Rightarrow> memory_store \<times> (error + budget_reservation)" where
  "SettleBudget m workloadID actualCents = (m, Inl (Err ''budget settlement requires ownership token''))"

definition SettleBudgetClaim :: "time \<Rightarrow> memory_store \<Rightarrow> string \<Rightarrow> string \<Rightarrow> u64 \<Rightarrow> i64 \<Rightarrow>
    memory_store \<times> (error + budget_reservation)" where
  "SettleBudgetClaim now m workloadID ownershipToken attempt actualCents =
     (case map_of (budgets m) workloadID of
        None \<Rightarrow> (m, Inl ErrNotFound)
      | Some r \<Rightarrow>
          if ownershipToken = '''' \<or> br_OwnershipToken r \<noteq> ownershipToken \<or> attempt = 0 \<or> br_Attempt r \<noteq> attempt
          then (m, Inl ErrWorkloadConflict)
          else (let actualCents = (if actualCents < 0 then 0 else actualCents) in
            if br_Status r = BudgetSettled
            then (if br_ActualCents r = actualCents then (m, Inr r) else (m, Inl ErrWorkloadConflict))
            else if br_Status r \<noteq> BudgetReserved then (m, Inl ErrWorkloadConflict)
            else (let r = r\<lparr>br_ActualCents := actualCents, br_Status := BudgetSettled,
                            br_Revision := br_Revision r + 1, br_UpdatedAt := now\<rparr>
                  in (m\<lparr>budgets := mput workloadID r (budgets m)\<rparr>, Inr r))))"

definition ReleaseBudget :: "memory_store \<Rightarrow> string \<Rightarrow> memory_store \<times> error option" where
  "ReleaseBudget m workloadID = (m, Some (Err ''budget release requires ownership token''))"

definition ReleaseBudgetClaim :: "time \<Rightarrow> memory_store \<Rightarrow> string \<Rightarrow> string \<Rightarrow> u64 \<Rightarrow> memory_store \<times> error option" where
  "ReleaseBudgetClaim now m workloadID ownershipToken attempt =
     (case map_of (budgets m) workloadID of
        None \<Rightarrow> (m, None)
      | Some r \<Rightarrow>
          if ownershipToken = '''' \<or> br_OwnershipToken r \<noteq> ownershipToken \<or> attempt = 0 \<or> br_Attempt r \<noteq> attempt
          then (m, Some ErrWorkloadConflict)
          else if br_Status r = BudgetReleased then (m, None)
          else if br_Status r \<noteq> BudgetReserved then (m, Some ErrWorkloadConflict)
          else (m\<lparr>budgets := mput workloadID (r\<lparr>br_Revision := br_Revision r + 1, br_Status := BudgetReleased,
                   br_UpdatedAt := now\<rparr>) (budgets m)\<rparr>, None))"

definition ListBudgetReservations :: "memory_store \<Rightarrow> string \<Rightarrow> budget_reservation list" where
  "ListBudgetReservations m principalID =
     newest_first br_CreatedAt
       (filter (\<lambda>r. principalID = '''' \<or> br_PrincipalID r = principalID) (mvalues (budgets m)))"

section \<open>The status machine of a reservation\<close>

definition reservation_ok :: "string \<Rightarrow> budget_reservation \<Rightarrow> bool" where
  "reservation_ok k r \<longleftrightarrow> br_WorkloadID r = k \<and> br_OwnershipToken r \<noteq> '''' \<and> br_Currency r = defaultBudgetCurrency \<and>
     (br_Status r = BudgetReserved \<and> br_Revision r = 1 \<or>
      br_Status r = BudgetSettled \<and> br_Revision r = 2 \<and> br_Attempt r \<noteq> 0 \<and> 0 \<le> br_ActualCents r \<or>
      br_Status r = BudgetReleased \<and> br_Revision r = 2)"

definition budget_inv :: "memory_store \<Rightarrow> bool" where
  "budget_inv m \<longleftrightarrow> gomap_wf (budgets m) \<and> (\<forall>k r. map_of (budgets m) k = Some r \<longrightarrow> reservation_ok k r)"

text \<open>What one operation may do to a row: \<open>None\<close> is a row that does not exist yet.\<close>

definition reservation_move :: "string \<Rightarrow> budget_reservation option \<Rightarrow> budget_reservation \<Rightarrow> bool" where
  "reservation_move k old r \<longleftrightarrow>
     (case old of
        None \<Rightarrow> br_Status r = BudgetReserved \<and> br_Attempt r = 1
      | Some q \<Rightarrow>
          br_Status q = BudgetReleased \<and> br_Status r = BudgetReserved \<and> br_Attempt r = br_Attempt q + 1 \<and>
            br_CreatedAt r = br_CreatedAt q \<or>
          br_Status q = BudgetReserved \<and> r = normalize_reservation k q \<or>
          br_Status q = BudgetSettled \<and> r = q \<or>
          br_Status q = BudgetReserved \<and> br_Status r \<in> {BudgetSettled, BudgetReleased} \<and>
            br_Attempt r = br_Attempt q \<and> br_OwnershipToken r = br_OwnershipToken q \<and>
            br_PrincipalID r = br_PrincipalID q \<and> br_ReservedCents r = br_ReservedCents q)"

datatype budget_op =
    Reserve time string string i64 i64 string
  | ReserveLink time string string i64 i64 string u64 string string
  | Settle time string string u64 i64
  | Free time string string u64

fun budget_exec :: "budget_op \<Rightarrow> memory_store \<Rightarrow> memory_store" where
  "budget_exec (Reserve now p w amount limit tok) m = fst (ReserveBudgetClaim now m p w amount limit tok)"
| "budget_exec (ReserveLink now p w amount limit tok e s c) m =
     fst (ReserveAndLinkBudgetClaim now m p w amount limit tok e s c)"
| "budget_exec (Settle now w tok att actual) m = fst (SettleBudgetClaim now m w tok att actual)"
| "budget_exec (Free now w tok att) m = fst (ReleaseBudgetClaim now m w tok att)"

lemma budget_inv_put: "budget_inv m \<Longrightarrow> reservation_ok k r \<Longrightarrow> budgets m' = mput k r (budgets m) \<Longrightarrow> budget_inv m'"
  by (simp add: budget_inv_def)

lemma normalize_ok:
  assumes "reservation_ok k q" and "br_Status q \<noteq> BudgetReleased"
  shows "reservation_ok k (normalize_reservation k q)" and "reservation_move k (Some q) (normalize_reservation k q)"
    and "br_Attempt q \<noteq> 0 \<Longrightarrow> normalize_reservation k q = q"
    and "br_Status (normalize_reservation k q) = br_Status q"
    and "br_PrincipalID (normalize_reservation k q) = br_PrincipalID q"
    and "br_ReservedCents (normalize_reservation k q) = br_ReservedCents q"
    and "br_ActualCents (normalize_reservation k q) = br_ActualCents q"
  using assms by (auto simp: reservation_ok_def normalize_reservation_def reservation_move_def Let_def)

lemma new_reservation_ok:
  assumes "\<not> blank tok"
  shows "reservation_ok w (new_reservation now m p w amount limit tok)"
  using not_blank_nonempty [OF assms] by (simp add: reservation_ok_def new_reservation_def)

lemma new_reservation_move:
  assumes "\<forall>q. map_of (budgets m) w = Some q \<longrightarrow> br_Status q = BudgetReleased"
  shows "reservation_move w (map_of (budgets m) w) (new_reservation now m p w amount limit tok)"
  using assms by (simp add: reservation_move_def new_reservation_def split: option.splits)

text \<open>The two reserving operations treat the reservation table alike.\<close>

definition reserved_table :: "time \<Rightarrow> memory_store \<Rightarrow> string \<Rightarrow> string \<Rightarrow> i64 \<Rightarrow> i64 \<Rightarrow> string \<Rightarrow>
    (string, budget_reservation) gomap" where
  "reserved_table now m p w amount limit tok =
     (case active_reservation m w of
        Some q \<Rightarrow> mput w (normalize_reservation w q) (budgets m)
      | None \<Rightarrow> mput w (new_reservation now m p w amount limit tok) (budgets m))"

definition within_limit :: "memory_store \<Rightarrow> string \<Rightarrow> i64 \<Rightarrow> i64 \<Rightarrow> bool" where
  "within_limit m p amount limit \<longleftrightarrow> \<not> (limit > 0 \<and> wrap_i64 (committed_cents m p + amount) > limit)"

lemma reserve_budgets:
  "budgets (fst (ReserveBudgetClaim now m p w amount limit tok)) =
     (if \<not> blank tok \<and> (active_reservation m w = None \<longrightarrow> within_limit m p amount limit)
      then reserved_table now m p w amount limit tok else budgets m)"
  by (cases "active_reservation m w")
    (simp_all add: ReserveBudgetClaim_def reserved_table_def within_limit_def Let_def)

lemma reserve_frame:
  "fst (ReserveBudgetClaim now m p w amount limit tok) =
     m\<lparr>budgets := budgets (fst (ReserveBudgetClaim now m p w amount limit tok))\<rparr>"
  by (cases "active_reservation m w") (simp_all add: ReserveBudgetClaim_def Let_def)

definition link_refused :: "memory_store \<Rightarrow> string \<Rightarrow> string \<Rightarrow> i64 \<Rightarrow> i64 \<Rightarrow> string \<Rightarrow> u64 \<Rightarrow> string \<Rightarrow> string \<Rightarrow> bool" where
  "link_refused m p w amount limit tok e s c \<longleftrightarrow> blank tok \<or>
     (case map_of (workloads m) w of
        None \<Rightarrow> True
      | Some v \<Rightarrow> wl_Revision v \<noteq> e \<or> wl_Status v \<noteq> s \<or> wl_CancellationOwner v \<noteq> c \<or>
          rq_PrincipalID (wl_Request v) \<noteq> '''' \<and> rq_PrincipalID (wl_Request v) \<noteq> p \<or>
          link_conflict v amount limit tok)"

lemma link_refused_result:
  "link_refused m p w amount limit tok e s c \<Longrightarrow>
     ReserveAndLinkBudgetClaim now m p w amount limit tok e s c = (m, None, None, False, False, Some ErrWorkloadConflict)"
  by (auto simp: link_refused_def ReserveAndLinkBudgetClaim_def split: option.splits)

lemma link_budgets:
  "budgets (fst (ReserveAndLinkBudgetClaim now m p w amount limit tok e s c)) =
     (if \<not> link_refused m p w amount limit tok e s c \<and> (active_reservation m w = None \<longrightarrow> within_limit m p amount limit)
      then reserved_table now m p w amount limit tok else budgets m)"
proof (cases "link_refused m p w amount limit tok e s c")
  case True
  then show ?thesis by (simp add: link_refused_result)
next
  case False
  then show ?thesis
    by (cases "active_reservation m w"; cases "map_of (workloads m) w")
      (auto simp: link_refused_def ReserveAndLinkBudgetClaim_def reserved_table_def within_limit_def Let_def)
qed

text \<open>Each operation leaves the table alone or moves one row along the status machine.\<close>

lemma reserved_table_move:
  assumes inv: "budget_inv m" and "\<not> blank tok"
  shows "\<exists>r. reserved_table now m p w amount limit tok = mput w r (budgets m) \<and> reservation_ok w r \<and>
    reservation_move w (map_of (budgets m) w) r"
proof (cases "active_reservation m w")
  case None
  then have "\<forall>q. map_of (budgets m) w = Some q \<longrightarrow> br_Status q = BudgetReleased"
    by (auto simp: active_reservation_def split: if_splits)
  then show ?thesis
    using None assms new_reservation_ok [of tok] new_reservation_move [of m w] by (auto simp: reserved_table_def)
next
  case (Some q)
  then have q: "map_of (budgets m) w = Some q" "br_Status q \<noteq> BudgetReleased"
    by (auto simp: active_reservation_def split: option.splits if_splits)
  then have "reservation_ok w q" using inv by (simp add: budget_inv_def)
  then show ?thesis using Some q normalize_ok(1,2) by (auto simp: reserved_table_def)
qed

lemma settle_move:
  assumes inv: "budget_inv m"
  shows "budgets (fst (SettleBudgetClaim now m w tok att actual)) = budgets m \<or>
    (\<exists>r. budgets (fst (SettleBudgetClaim now m w tok att actual)) = mput w r (budgets m) \<and> reservation_ok w r \<and>
       reservation_move w (map_of (budgets m) w) r)"
proof (cases "map_of (budgets m) w")
  case None
  then show ?thesis by (simp add: SettleBudgetClaim_def)
next
  case (Some q)
  then have "reservation_ok w q" using inv by (simp add: budget_inv_def)
  then show ?thesis
    using Some by (auto simp: SettleBudgetClaim_def reservation_ok_def reservation_move_def Let_def)
qed

lemma release_move:
  assumes inv: "budget_inv m"
  shows "budgets (fst (ReleaseBudgetClaim now m w tok att)) = budgets m \<or>
    (\<exists>r. budgets (fst (ReleaseBudgetClaim now m w tok att)) = mput w r (budgets m) \<and> reservation_ok w r \<and>
       reservation_move w (map_of (budgets m) w) r)"
proof (cases "map_of (budgets m) w")
  case None
  then show ?thesis by (simp add: ReleaseBudgetClaim_def)
next
  case (Some q)
  then have "reservation_ok w q" using inv by (simp add: budget_inv_def)
  then show ?thesis
    using Some by (auto simp: ReleaseBudgetClaim_def reservation_ok_def reservation_move_def Let_def)
qed

lemma budget_exec_move:
  assumes inv: "budget_inv m"
  shows "budgets (budget_exec x m) = budgets m \<or>
    (\<exists>w r. budgets (budget_exec x m) = mput w r (budgets m) \<and> reservation_ok w r \<and>
       reservation_move w (map_of (budgets m) w) r)"
proof (cases x)
  case (Reserve now p w amount limit tok)
  then show ?thesis using reserved_table_move [OF inv, of tok now p w amount limit] by (auto simp: reserve_budgets)
next
  case (ReserveLink now p w amount limit tok e s c)
  then show ?thesis
    using reserved_table_move [OF inv, of tok now p w amount limit] by (auto simp: link_budgets link_refused_def)
next
  case (Settle now w tok att actual)
  then show ?thesis using settle_move [OF inv, of now w tok att actual] by auto
next
  case (Free now w tok att)
  then show ?thesis using release_move [OF inv, of now w tok att] by auto
qed

lemma budget_exec_inv: "budget_inv m \<Longrightarrow> budget_inv (budget_exec x m)"
  using budget_exec_move [of m x] by (auto simp: budget_inv_def split: if_splits)

lemma budget_run_inv: "budget_inv m \<Longrightarrow> budget_inv (fold budget_exec xs m)"
  by (induction xs arbitrary: m) (simp_all add: budget_exec_inv)

lemma settled_kept:
  assumes inv: "budget_inv m" and q: "map_of (budgets m) k = Some q" "br_Status q = BudgetSettled"
  shows "map_of (budgets (budget_exec x m)) k = Some q"
proof -
  have "r = q" if "reservation_move k (Some q) r" for r
    using that q(2) by (auto simp: reservation_move_def)
  then show ?thesis using budget_exec_move [OF inv, of x] q(1) by auto
qed

section \<open>Commitments and limits\<close>

definition cost_to :: "string \<Rightarrow> budget_reservation \<Rightarrow> int" where
  "cost_to p r =
     (if br_PrincipalID r \<noteq> p then 0
      else if br_Status r = BudgetReserved then br_ReservedCents r
      else if br_Status r = BudgetSettled then br_ActualCents r else 0)"

definition spent :: "memory_store \<Rightarrow> string \<Rightarrow> int" where
  "spent m p = sum_list (map (cost_to p) (mvalues (budgets m)))"

lemma wrap_wrap_add: "wrap_i64 (wrap_i64 x + y) = wrap_i64 (x + y)"
proof -
  have "wrap_i64 x + y + 2 ^ 63 = (x + 2 ^ 63) mod 2 ^ 64 + y"
    unfolding wrap_i64_def by linarith
  then have "(wrap_i64 x + y + 2 ^ 63) mod 2 ^ 64 = (x + y + 2 ^ 63) mod 2 ^ 64"
    by (simp only: mod_add_left_eq) (simp add: ac_simps)
  then show ?thesis unfolding wrap_i64_def [of "wrap_i64 x + y"] wrap_i64_def [of "x + y"] by simp
qed

lemma committed_wrap: "committed_cents m p = wrap_i64 (spent m p)"
proof -
  have "foldl (\<lambda>c r. if br_PrincipalID r \<noteq> p then c
        else if br_Status r = BudgetReserved then wrap_i64 (c + br_ReservedCents r)
        else if br_Status r = BudgetSettled then wrap_i64 (c + br_ActualCents r) else c) (wrap_i64 a) rs =
      wrap_i64 (a + sum_list (map (cost_to p) rs))" for a rs
    by (induction rs arbitrary: a) (simp_all add: cost_to_def wrap_wrap_add add.assoc)
  from this [of 0] show ?thesis by (simp add: committed_cents_def spent_def wrap_i64_def)
qed

lemma mvalues_mput_sum:
  fixes f :: "'v \<Rightarrow> int"
  assumes "gomap_wf t"
  shows "sum_list (map f (mvalues (mput k v t))) =
    sum_list (map f (mvalues t)) - (case map_of t k of None \<Rightarrow> 0 | Some u \<Rightarrow> f u) + f v"
  using assms by (induction t) (auto simp: mvalues_def gomap_wf_def)

lemma spent_put:
  assumes "budget_inv m" and "budgets m' = mput w r (budgets m)"
  shows "spent m' p = spent m p - (case map_of (budgets m) w of None \<Rightarrow> 0 | Some q \<Rightarrow> cost_to p q) + cost_to p r"
  using assms by (simp add: spent_def budget_inv_def mvalues_mput_sum)

text \<open>
  Calls that stay inside the limit \<open>L\<close> of principal \<open>p\<close>: its reservations name that limit and an
  amount whose sum with it is an \<open>int64\<close>, and a settlement charges at most what was reserved.
\<close>

fun within_reservation :: "string \<Rightarrow> int \<Rightarrow> memory_store \<Rightarrow> budget_op \<Rightarrow> bool" where
  "within_reservation p L m (Reserve now q w amount limit tok) \<longleftrightarrow>
     (q = p \<longrightarrow> limit = L \<and> 0 \<le> amount \<and> amount \<le> max_i64 - L)"
| "within_reservation p L m (ReserveLink now q w amount limit tok e s c) \<longleftrightarrow>
     (q = p \<longrightarrow> limit = L \<and> 0 \<le> amount \<and> amount \<le> max_i64 - L)"
| "within_reservation p L m (Settle now w tok att actual) \<longleftrightarrow>
     (case map_of (budgets m) w of None \<Rightarrow> True | Some r \<Rightarrow> br_PrincipalID r = p \<longrightarrow> actual \<le> br_ReservedCents r)"
| "within_reservation p L m (Free now w tok att) \<longleftrightarrow> True"

fun careful_run :: "string \<Rightarrow> int \<Rightarrow> memory_store \<Rightarrow> budget_op list \<Rightarrow> bool" where
  "careful_run p L m [] = True"
| "careful_run p L m (x # xs) = (within_reservation p L m x \<and> careful_run p L (budget_exec x m) xs)"

definition limit_inv :: "string \<Rightarrow> int \<Rightarrow> memory_store \<Rightarrow> bool" where
  "limit_inv p L m \<longleftrightarrow> budget_inv m \<and> spent m p \<le> L \<and>
     (\<forall>k r. map_of (budgets m) k = Some r \<longrightarrow> br_PrincipalID r = p \<longrightarrow> 0 \<le> br_ReservedCents r)"

lemma spent_nonneg:
  assumes "limit_inv p L m"
  shows "0 \<le> spent m p"
proof -
  have "0 \<le> cost_to p r" if r: "r \<in> set (mvalues (budgets m))" for r
  proof -
    obtain k where k: "map_of (budgets m) k = Some r"
      using r assms by (auto simp: limit_inv_def budget_inv_def mvalues_iff)
    then have "reservation_ok k r" using assms by (simp add: limit_inv_def budget_inv_def)
    then show ?thesis using assms k by (auto simp: limit_inv_def cost_to_def reservation_ok_def)
  qed
  then show ?thesis unfolding spent_def by (intro sum_list_nonneg) auto
qed

lemma limit_inv_put:
  assumes inv: "limit_inv p L m" and eq: "budgets m' = mput w r (budgets m)" and ok: "reservation_ok w r"
    and nonneg: "br_PrincipalID r = p \<Longrightarrow> 0 \<le> br_ReservedCents r"
    and cost: "spent m p - (case map_of (budgets m) w of None \<Rightarrow> 0 | Some q \<Rightarrow> cost_to p q) + cost_to p r \<le> L"
  shows "limit_inv p L m'"
proof -
  have "budget_inv m" using inv by (simp add: limit_inv_def)
  then have "budget_inv m'" and "spent m' p \<le> L" using eq ok cost budget_inv_put spent_put by simp_all
  moreover have "0 \<le> br_ReservedCents q" if "map_of (budgets m') k = Some q" "br_PrincipalID q = p" for k q
    using that inv nonneg by (auto simp: eq limit_inv_def split: if_splits)
  ultimately show ?thesis by (simp add: limit_inv_def)
qed

lemma limit_inv_same: "limit_inv p L m \<Longrightarrow> budgets m' = budgets m \<Longrightarrow> limit_inv p L m'"
  by (simp add: limit_inv_def budget_inv_def spent_def)

lemma reserved_table_limit:
  assumes inv: "limit_inv p L m" and L: "0 < L" "L \<le> max_i64" and tok: "\<not> blank tok"
    and op: "q = p \<longrightarrow> limit = L \<and> 0 \<le> amount \<and> amount \<le> max_i64 - L"
    and lim: "active_reservation m w = None \<longrightarrow> within_limit m q amount limit"
    and eq: "budgets m' = reserved_table now m q w amount limit tok"
  shows "limit_inv p L m'"
proof (cases "active_reservation m w")
  case None
  let ?r = "new_reservation now m q w amount limit tok"
  have "cost_to p u = 0" if "map_of (budgets m) w = Some u" for u
    using None that by (simp add: active_reservation_def cost_to_def split: if_splits)
  then have old: "(case map_of (budgets m) w of None \<Rightarrow> 0 | Some u \<Rightarrow> cost_to p u) = 0"
    by (simp split: option.splits)
  have "spent m p + cost_to p ?r \<le> L"
  proof (cases "q = p")
    case True
    have s: "0 \<le> spent m p" "spent m p \<le> L" using inv spent_nonneg by (auto simp: limit_inv_def)
    have "in_i64 (spent m p)" "in_i64 (spent m p + amount)"
      using s L op True by (auto simp: in_i64_def max_i64_def)
    then show ?thesis
      using lim None True op L by (simp add: within_limit_def committed_wrap cost_to_def new_reservation_def)
  next
    case False
    then show ?thesis using inv by (simp add: limit_inv_def cost_to_def new_reservation_def)
  qed
  then have cost: "spent m p - (case map_of (budgets m) w of None \<Rightarrow> 0 | Some u \<Rightarrow> cost_to p u) + cost_to p ?r \<le> L"
    unfolding old by simp
  have b: "budgets m' = mput w ?r (budgets m)" using None by (simp add: eq reserved_table_def)
  show ?thesis
    by (rule limit_inv_put [OF inv b new_reservation_ok [OF tok] _ cost]) (use op in \<open>simp add: new_reservation_def\<close>)
next
  case (Some u)
  then have u: "map_of (budgets m) w = Some u" "br_Status u \<noteq> BudgetReleased"
    by (auto simp: active_reservation_def split: option.splits if_splits)
  have ok: "reservation_ok w u" using inv u by (simp add: limit_inv_def budget_inv_def)
  have "cost_to p (normalize_reservation w u) = cost_to p u"
    using normalize_ok [OF ok u(2)] by (simp add: cost_to_def)
  then show ?thesis
    using inv u Some normalize_ok(5,6) [OF ok u(2)]
    by (intro limit_inv_put [OF inv _ normalize_ok(1) [OF ok u(2)]])
      (simp_all add: eq reserved_table_def limit_inv_def)
qed

lemma budget_exec_limit:
  assumes inv: "limit_inv p L m" and L: "0 < L" "L \<le> max_i64" and op: "within_reservation p L m x"
  shows "limit_inv p L (budget_exec x m)"
proof (cases x)
  case (Reserve now q w amount limit tok)
  show ?thesis
  proof (cases "\<not> blank tok \<and> (active_reservation m w = None \<longrightarrow> within_limit m q amount limit)")
    case True
    then have "budgets (budget_exec x m) = reserved_table now m q w amount limit tok"
      by (simp add: Reserve reserve_budgets)
    then show ?thesis by (intro reserved_table_limit [OF inv L]) (use True op Reserve in simp_all)
  next
    case False
    then have "budgets (budget_exec x m) = budgets m" by (simp only: Reserve budget_exec.simps reserve_budgets if_False)
    then show ?thesis by (rule limit_inv_same [OF inv])
  qed
next
  case (ReserveLink now q w amount limit tok e s c)
  show ?thesis
  proof (cases "\<not> link_refused m q w amount limit tok e s c \<and>
      (active_reservation m w = None \<longrightarrow> within_limit m q amount limit)")
    case True
    then have "budgets (budget_exec x m) = reserved_table now m q w amount limit tok"
      by (simp add: ReserveLink link_budgets)
    moreover have "\<not> blank tok" using True by (simp add: link_refused_def)
    ultimately show ?thesis by (intro reserved_table_limit [OF inv L]) (use True op ReserveLink in simp_all)
  next
    case False
    then have "budgets (budget_exec x m) = budgets m" by (simp only: ReserveLink budget_exec.simps link_budgets if_False)
    then show ?thesis by (rule limit_inv_same [OF inv])
  qed
next
  case (Settle now w tok att actual)
  show ?thesis
  proof (cases "budgets (budget_exec x m) = budgets m")
    case True
    then show ?thesis by (rule limit_inv_same [OF inv])
  next
    case False
    define a where "a = (if actual < 0 then 0 else actual)"
    from False obtain u where u: "map_of (budgets m) w = Some u" "br_Status u = BudgetReserved" "br_Attempt u = att" "att \<noteq> 0"
      and b: "budgets (budget_exec x m) = mput w (u\<lparr>br_ActualCents := a, br_Status := BudgetSettled,
          br_Revision := br_Revision u + 1, br_UpdatedAt := now\<rparr>) (budgets m)"
      using Settle by (auto simp: SettleBudgetClaim_def Let_def a_def split: option.splits if_splits)
    have ok: "reservation_ok w u" using inv u by (simp add: limit_inv_def budget_inv_def)
    have "br_PrincipalID u = p \<longrightarrow> a \<le> br_ReservedCents u" and "0 \<le> a"
      using inv u(1) op Settle by (auto simp: limit_inv_def a_def)
    then show ?thesis
      by (intro limit_inv_put [OF inv b])
        (use ok u inv in \<open>auto simp: reservation_ok_def limit_inv_def cost_to_def\<close>)
  qed
next
  case (Free now w tok att)
  show ?thesis
  proof (cases "budgets (budget_exec x m) = budgets m")
    case True
    then show ?thesis by (rule limit_inv_same [OF inv])
  next
    case False
    then obtain u where u: "map_of (budgets m) w = Some u" "br_Status u = BudgetReserved"
      and b: "budgets (budget_exec x m) = mput w (u\<lparr>br_Revision := br_Revision u + 1, br_Status := BudgetReleased,
          br_UpdatedAt := now\<rparr>) (budgets m)"
      using Free by (auto simp: ReleaseBudgetClaim_def Let_def split: option.splits if_splits)
    have ok: "reservation_ok w u" using inv u by (simp add: limit_inv_def budget_inv_def)
    have s: "br_PrincipalID u = p \<longrightarrow> 0 \<le> br_ReservedCents u" "spent m p \<le> L" using inv u(1) by (simp_all add: limit_inv_def)
    show ?thesis
      by (rule limit_inv_put [OF inv b]) (use ok u s in \<open>auto simp: reservation_ok_def cost_to_def\<close>)
  qed
qed

lemma careful_run_limit:
  assumes "limit_inv p L m" and "0 < L" "L \<le> max_i64" and "careful_run p L m xs"
  shows "limit_inv p L (fold budget_exec xs m)"
  using assms by (induction xs arbitrary: m) (simp_all add: budget_exec_limit)

section \<open>Links\<close>

text \<open>The workload row carries exactly the reservation.\<close>

definition linked :: "budget_reservation \<Rightarrow> workload \<Rightarrow> bool" where
  "linked r v \<longleftrightarrow>
     wl_BudgetReservationToken v = br_OwnershipToken r \<and> wl_BudgetReservationAttempt v = br_Attempt r \<and>
     wl_BudgetReservationCents v = br_ReservedCents r \<and> wl_BudgetReservationLimitCents v = br_LimitCents r \<and>
     wl_BudgetReservationCurrency v = br_Currency r"

lemma link_reservation_sel [simp]:
  "linked r (link_reservation now r w)" "wl_Revision (link_reservation now r w) = wl_Revision w + 1"
  "wl_Request (link_reservation now r w) = wl_Request w" "wl_Status (link_reservation now r w) = wl_Status w"
  by (simp_all add: linked_def link_reservation_def)

lemma link_allowedD:
  assumes "ReserveAndLinkBudgetClaim now m p w amount limit tok e s c = (m', r, v, True, created, err)"
  obtains q u where "\<not> link_refused m p w amount limit tok e s c" "r = Some q" "err = None"
    "map_of (workloads m) w = Some u" "wl_Revision u = e" "v = Some (link_reservation now q u)"
    "same_claim q p w tok amount limit"
    "m' = m\<lparr>budgets := mput w q (budgets m), workloads := mput w (link_reservation now q u) (workloads m)\<rparr>"
proof (cases "link_refused m p w amount limit tok e s c")
  case True
  then show ?thesis using assms by (simp add: link_refused_result)
next
  case False
  then obtain u where u: "map_of (workloads m) w = Some u" "wl_Revision u = e"
    by (auto simp: link_refused_def split: option.splits)
  show ?thesis
  proof (cases "active_reservation m w")
    case None
    then show ?thesis
      using assms False u that [OF False _ _ u]
      by (auto simp: ReserveAndLinkBudgetClaim_def link_refused_def Let_def same_claim_def new_reservation_def split: if_splits)
  next
    case (Some q)
    then show ?thesis
      using assms False u that [OF False _ _ u]
      by (auto simp: ReserveAndLinkBudgetClaim_def link_refused_def Let_def split: if_splits)
  qed
qed

lemma link_denied_workloads:
  assumes "ReserveAndLinkBudgetClaim now m p w amount limit tok e s c = (m', r, v, False, created, err)"
  shows "workloads m' = workloads m"
proof (cases "link_refused m p w amount limit tok e s c")
  case True
  then show ?thesis using assms by (simp add: link_refused_result)
next
  case False
  then obtain u where "map_of (workloads m) w = Some u"
    by (auto simp: link_refused_def split: option.splits)
  then show ?thesis
    using assms by (cases "active_reservation m w")
      (auto simp: ReserveAndLinkBudgetClaim_def Let_def split: if_splits)
qed

section \<open>Concurrent writers of a workload row\<close>

text \<open>The three operations that replace a workload row at an expected revision.\<close>

datatype workload_write =
    Put workload
  | Swap workload string string
  | Link time string string i64 i64 string string string

fun write_key :: "workload_write \<Rightarrow> string" where
  "write_key (Put w) = wl_ID w"
| "write_key (Swap w s c) = wl_ID w"
| "write_key (Link now p w amount limit tok s c) = w"

fun write_workload :: "u64 \<Rightarrow> memory_store \<Rightarrow> workload_write \<Rightarrow> memory_store \<times> (error + workload)" where
  "write_workload e m (Put w) = UpdateWorkload m (Some (w\<lparr>wl_Revision := e\<rparr>))"
| "write_workload e m (Swap w s c) = CompareAndSwapWorkload m w e s c"
| "write_workload e m (Link now p w amount limit tok s c) =
     (case ReserveAndLinkBudgetClaim now m p w amount limit tok e s c of (m', r, v, allowed, created, err) \<Rightarrow>
        (m', if allowed then (case v of Some u \<Rightarrow> Inr u | None \<Rightarrow> Inl Panic)
             else Inl (case err of Some x \<Rightarrow> x | None \<Rightarrow> ErrWorkloadConflict)))"

lemma write_link_okD:
  assumes "write_workload e m (Link now p w amount limit tok s c) = (m', Inr v)"
  shows "\<exists>u. map_of (workloads m) w = Some u \<and> wl_Revision u = e" and "wl_Revision v = e + 1"
    and "map_of (workloads m') = (map_of (workloads m))(w \<mapsto> v)"
proof -
  obtain r v' created err where "ReserveAndLinkBudgetClaim now m p w amount limit tok e s c = (m', r, v', True, created, err)"
    and v: "v' = Some v"
    using assms by (auto split: prod.splits if_splits option.splits)
  then obtain u q where "map_of (workloads m) w = Some u" "wl_Revision u = e" "v = link_reservation now q u"
      "workloads m' = mput w v (workloads m)"
    by (auto elim!: link_allowedD)
  then show "\<exists>u. map_of (workloads m) w = Some u \<and> wl_Revision u = e" and "wl_Revision v = e + 1"
    and "map_of (workloads m') = (map_of (workloads m))(w \<mapsto> v)"
    by simp_all
qed

lemma write_link_errD:
  assumes "write_workload e m (Link now p w amount limit tok s c) = (m', Inl x)"
  shows "workloads m' = workloads m"
proof -
  obtain r v allowed created err where l: "ReserveAndLinkBudgetClaim now m p w amount limit tok e s c = (m', r, v, allowed, created, err)"
    using assms by (auto split: prod.splits)
  have "\<not> allowed"
  proof
    assume a: allowed
    then have "\<exists>u. v = Some u" using l by (auto elim!: link_allowedD)
    then show False using assms l a by auto
  qed
  then show ?thesis using l link_denied_workloads by simp
qed

interpretation workload_cas: cas_row "\<lambda>m. map_of (workloads m)" wl_Revision write_key write_workload
proof
  fix e m a m' v
  assume w: "write_workload e m a = (m', Inr v)"
  show "(\<exists>old. map_of (workloads m) (write_key a) = Some old \<and> wl_Revision old = e) \<and> wl_Revision v = e + 1 \<and>
      map_of (workloads m') = (map_of (workloads m))(write_key a \<mapsto> v)"
  proof (cases a)
    case (Put u)
    then show ?thesis using w by (auto elim!: update_workload_okD)
  next
    case (Swap u s c)
    then show ?thesis using w by (auto elim!: swap_workload_okD)
  next
    case (Link now p k amount limit tok s c)
    then show ?thesis using write_link_okD w by simp
  qed
next
  fix e m a m' x
  assume w: "write_workload e m a = (m', Inl x)"
  show "map_of (workloads m') = map_of (workloads m)"
  proof (cases a)
    case (Put u)
    then show ?thesis using w by (auto dest: update_workload_errD)
  next
    case (Swap u s c)
    then show ?thesis using w by (auto dest: swap_workload_errD)
  next
    case (Link now p k amount limit tok s c)
    then show ?thesis using write_link_errD w by simp
  qed
qed

section \<open>Properties\<close>

lemma budget_inv_new: "budget_inv NewMemoryStore"
  by (simp add: budget_inv_def NewMemoryStore_def)

definition sample_budget_store :: memory_store where
  "sample_budget_store = fst (ReserveBudgetClaim 5 sample_workload_store ''p'' ''w1'' 40 100 ''t'')"

definition sample_reservation :: budget_reservation where
  "sample_reservation =
     \<lparr>br_WorkloadID = ''w1'', br_PrincipalID = ''p'', br_Revision = 1, br_Attempt = 1, br_OwnershipToken = ''t'',
      br_ReservedCents = 40, br_LimitCents = 100, br_Currency = ''USD'', br_ActualCents = 0,
      br_Status = BudgetReserved, br_CreatedAt = 5, br_UpdatedAt = 5\<rparr>"

lemma budgets_sample_workloads [simp]: "budgets sample_workload_store = []"
  by (simp add: sample_workload_store_def CreateWorkload_def NewMemoryStore_def Let_def)

lemma not_blank_t [simp]: "\<not> blank ''t''"
  by code_simp

lemma sample_budget_rows: "budgets sample_budget_store = [(''w1'', sample_reservation)]"
  by (simp add: sample_budget_store_def reserve_budgets reserved_table_def active_reservation_def within_limit_def
      committed_cents_def mvalues_def wrap_i64_def new_reservation_def sample_reservation_def defaultBudgetCurrency_def)

lemma sample_budget_inv: "budget_inv sample_budget_store"
  by (simp add: budget_inv_def sample_budget_rows gomap_wf_def reservation_ok_def sample_reservation_def defaultBudgetCurrency_def)

text \<open>
  C3 A budget limit bounds what its principal has committed. Start from a consistent table in
  which the principal's reserved and settled cents are within the limit \<open>L\<close>; then after any
  sequence of reservations (plain or linked), settlements and releases in which the principal
  reserves under that limit and is charged at most what was reserved, they still are. The
  hypothesis on the amounts keeps the code's \<open>int64\<close> sum from wrapping.
\<close>

theorem budget_limit_respected:
  assumes "limit_inv p L m" and "0 < L" and "L \<le> max_i64" and "careful_run p L m xs"
  shows "spent (fold budget_exec xs m) p \<le> L"
  using careful_run_limit [OF assms] by (simp add: limit_inv_def)

theorem budget_limit_respected_witness:
  "let xs = [Reserve 6 ''p'' ''w2'' 60 100 ''u'', Reserve 7 ''p'' ''w3'' 1 100 ''v'', Settle 8 ''w1'' ''t'' 1 30]
   in spent (fold budget_exec xs sample_budget_store) ''p'' \<le> 100"
proof -
  let ?xs = "[Reserve 6 ''p'' ''w2'' 60 100 ''u'', Reserve 7 ''p'' ''w3'' 1 100 ''v'', Settle 8 ''w1'' ''t'' 1 30]"
  have inv: "limit_inv ''p'' 100 sample_budget_store"
    using sample_budget_inv
    by (simp add: limit_inv_def spent_def sample_budget_rows mvalues_def sample_reservation_def cost_to_def)
  have lookup: "map_of (budgets (budget_exec (Reserve now q k amount limit tok) m)) ''w1'' = map_of (budgets m) ''w1''"
    if "k \<noteq> ''w1''" for now q k amount limit tok m
    using that by (simp add: reserve_budgets reserved_table_def split: option.splits)
  have "map_of (budgets sample_budget_store) ''w1'' = Some sample_reservation" by (simp add: sample_budget_rows)
  then have run: "careful_run ''p'' 100 sample_budget_store ?xs"
    using lookup by (simp del: budget_exec.simps(1) add: max_i64_def sample_reservation_def)
  show ?thesis
    using budget_limit_respected [OF inv _ _ run] by (simp add: Let_def max_i64_def)
qed

text \<open>
  C18 A settled reservation is final: no sequence of reservations, links, settlements and releases,
  with whatever tokens and attempts, changes its row or lets its workload reserve again.
\<close>

theorem settled_budget_final:
  assumes "budget_inv m" and "map_of (budgets m) k = Some r" and "br_Status r = BudgetSettled"
  shows "budget_inv (fold budget_exec xs m) \<and> map_of (budgets (fold budget_exec xs m)) k = Some r"
  using assms
proof (induction xs arbitrary: m)
  case (Cons x xs)
  have "budget_inv (budget_exec x m)" using Cons.prems(1) by (rule budget_exec_inv)
  moreover have "map_of (budgets (budget_exec x m)) k = Some r" using Cons.prems by (rule settled_kept)
  ultimately show ?case using Cons.IH Cons.prems(3) by simp
qed simp

definition settled_store :: memory_store where
  "settled_store = NewMemoryStore\<lparr>budgets := [(''w1'', sample_reservation\<lparr>br_Status := BudgetSettled, br_Revision := 2\<rparr>)]\<rparr>"

theorem settled_budget_final_witness:
  "map_of (budgets (fold budget_exec [Free 9 ''w1'' ''t'' 1, Reserve 9 ''p'' ''w1'' 1 0 ''u''] settled_store)) ''w1'' =
     Some (sample_reservation\<lparr>br_Status := BudgetSettled, br_Revision := 2\<rparr>)"
proof -
  let ?r = "sample_reservation\<lparr>br_Status := BudgetSettled, br_Revision := 2\<rparr>"
  have "budget_inv settled_store"
    by (simp add: budget_inv_def settled_store_def gomap_wf_def reservation_ok_def sample_reservation_def defaultBudgetCurrency_def)
  moreover have "map_of (budgets settled_store) ''w1'' = Some ?r" by (simp add: settled_store_def)
  ultimately show ?thesis
    using settled_budget_final [of settled_store "''w1''" ?r "[Free 9 ''w1'' ''t'' 1, Reserve 9 ''p'' ''w1'' 1 0 ''u'']"] by simp
qed

text \<open>
  C17 \<open>ReserveAndLinkBudgetClaim\<close> publishes the claim and its link in one step. When it allows the
  claim, the reservation row is reserved for exactly the requested principal, token, amount and
  limit, the workload row of the expected revision carries that reservation and the next
  revision, and no other row changes. When it does not, no workload changes.
\<close>

theorem budget_link_atomic:
  assumes "ReserveAndLinkBudgetClaim now m p w amount limit tok e s c = (m', r, v, allowed, created, err)"
  shows "if allowed
    then \<exists>q u. r = Some q \<and> v = Some u \<and> err = None \<and> same_claim q p w tok amount limit \<and> linked q u \<and>
      wl_Revision u = e + 1 \<and> map_of (budgets m') = (map_of (budgets m))(w \<mapsto> q) \<and>
      map_of (workloads m') = (map_of (workloads m))(w \<mapsto> u)
    else workloads m' = workloads m"
proof (cases allowed)
  case True
  with assms show ?thesis by (auto elim!: link_allowedD)
next
  case False
  with assms show ?thesis using link_denied_workloads by simp
qed

theorem budget_link_atomic_witness:
  "\<exists>m' q u. ReserveAndLinkBudgetClaim 9 sample_budget_store ''p'' ''w1'' 40 100 ''t'' 1 WorkloadQueued '''' =
      (m', Some q, Some u, True, False, None) \<and> linked q u \<and> wl_Revision u = 2"
proof -
  have w: "workloads sample_budget_store = workloads sample_workload_store"
    using reserve_frame [of 5 sample_workload_store "''p''" "''w1''" 40 100 "''t''"]
    by (metis sample_budget_store_def surjective memory_store.select_convs(6) memory_store.update_convs(21))
  let ?u = "link_reservation 9 sample_reservation ((sample_workload ''w1'' ''alice'' ''k'')\<lparr>wl_Revision := 1\<rparr>)"
  let ?r = "ReserveAndLinkBudgetClaim 9 sample_budget_store ''p'' ''w1'' 40 100 ''t'' 1 WorkloadQueued ''''"
  have s: "normalize_reservation ''w1'' sample_reservation = sample_reservation" "br_Status sample_reservation = BudgetReserved"
    "same_claim sample_reservation ''p'' ''w1'' ''t'' 40 100"
    by (simp_all add: normalize_reservation_def sample_reservation_def same_claim_def defaultBudgetCurrency_def)
  have a: "active_reservation sample_budget_store ''w1'' = Some sample_reservation"
    by (simp add: active_reservation_def sample_budget_rows s)
  have "snd ?r = (Some sample_reservation, Some ?u, True, False, None)"
    by (simp add: ReserveAndLinkBudgetClaim_def w sample_workload_rows sample_workload_sel link_conflict_def a s Let_def)
      (simp add: sample_workload_def zero_workload_def)
  then have r: "?r = (fst ?r, Some sample_reservation, Some ?u, True, False, None)" by (metis prod.collapse)
  have f: "linked sample_reservation ?u" "wl_Revision ?u = 1 + 1"
    using budget_link_atomic [OF r] unfolding if_True option.inject by blast+
  show ?thesis by (intro exI conjI, rule r, rule f(1)) (use f(2) in simp)
qed

text \<open>
  C29 Writers of one revision exclude each other across operations: of any number of
  \<open>UpdateWorkload\<close>, \<open>CompareAndSwapWorkload\<close> and \<open>ReserveAndLinkBudgetClaim\<close> calls on one
  workload that carry the same expected revision, in any order, at most one succeeds.
\<close>

theorem workload_single_writer:
  assumes "\<forall>a \<in> set writes. write_key a = k"
  shows "length (snd (attempts (write_workload e) m writes)) \<le> 1"
  using assms by (rule workload_cas.at_most_one_winner)

theorem workload_single_writer_witness:
  "let w = sample_workload ''w1'' ''alice'' ''k'' in
   length (snd (attempts (write_workload 1) sample_workload_store
     [Put w, Swap w WorkloadQueued '''', Link 9 ''p'' ''w1'' 1 0 ''t'' WorkloadQueued '''']))  \<le> 1"
  unfolding Let_def by (rule workload_single_writer [of _ "''w1''"]) (simp add: sample_workload_sel)



end
