(* ===== verification/Residency.thy ===== *)
theory Residency
  imports Tables Store_State "HOL-Library.Product_Lexorder" "HOL-Library.List_Lexorder" "HOL-Library.Char_ord"
begin

text \<open>
  Model residencies of \<open>internal/store/memory.go\<close>: where a model of a target is held, with the
  generation of the target configuration and the fingerprint of its execution settings. The
  lemmas show that whatever writers do, the generation of a row never goes back and a
  fingerprint is fixed within a generation, and that compare-and-swap has one winner.
\<close>

section \<open>Operations\<close>

definition residencyKey :: "string \<Rightarrow> string \<Rightarrow> string" where
  "residencyKey targetID model = nul_join targetID model"

definition residencyGenerationCompatible :: "model_residency option \<Rightarrow> model_residency option \<Rightarrow> bool" where
  "residencyGenerationCompatible existing incoming =
     (case (existing, incoming) of
        (Some p, Some q) \<Rightarrow>
          if mr_TargetGeneration q < mr_TargetGeneration p then False
          else if mr_TargetGeneration q = mr_TargetGeneration p
          then mr_ExecutionFingerprint p \<noteq> '''' \<and> mr_ExecutionFingerprint q \<noteq> '''' \<and>
               mr_ExecutionFingerprint p = mr_ExecutionFingerprint q
          else mr_ExecutionFingerprint q \<noteq> ''''
      | _ \<Rightarrow> True)"

abbreviation mr_key :: "model_residency \<Rightarrow> string" where
  "mr_key r \<equiv> residencyKey (mr_TargetID r) (mr_Model r)"

definition UpsertModelResidency :: "memory_store \<Rightarrow> model_residency \<Rightarrow> memory_store \<times> (error + model_residency)" where
  "UpsertModelResidency m residency =
     (case map_of (residencies m) (mr_key residency) of
        Some existing \<Rightarrow>
          if \<not> residencyGenerationCompatible (Some existing) (Some residency)
          then (m, Inl ErrModelResidencyGenerationConflict)
          else (let stored = (if mr_Revision residency \<le> mr_Revision existing
                              then residency\<lparr>mr_Revision := mr_Revision existing + 1\<rparr> else residency)
                in (m\<lparr>residencies := mput (mr_key residency) stored (residencies m)\<rparr>, Inr stored))
      | None \<Rightarrow>
          (let stored = (if mr_Revision residency = 0 then residency\<lparr>mr_Revision := 1\<rparr> else residency)
           in (m\<lparr>residencies := mput (mr_key residency) stored (residencies m)\<rparr>, Inr stored)))"

definition CreateModelResidency :: "memory_store \<Rightarrow> model_residency \<Rightarrow>
    memory_store \<times> (error + model_residency \<times> bool)" where
  "CreateModelResidency m residency =
     (case map_of (residencies m) (mr_key residency) of
        Some existing \<Rightarrow>
          if \<not> residencyGenerationCompatible (Some existing) (Some residency)
          then (m, Inl ErrModelResidencyGenerationConflict)
          else (m, Inr (existing, False))
      | None \<Rightarrow>
          (let created = (if mr_Revision residency = 0 then residency\<lparr>mr_Revision := 1\<rparr> else residency)
           in (m\<lparr>residencies := mput (mr_key residency) created (residencies m)\<rparr>, Inr (created, True))))"

text \<open>The error of the cancelled context, if any, is an argument.\<close>

definition CompareAndSwapModelResidency :: "error option \<Rightarrow> u64 \<Rightarrow> memory_store \<Rightarrow> model_residency \<Rightarrow>
    memory_store \<times> (error + model_residency)" where
  "CompareAndSwapModelResidency ctxErr expectedRevision m residency =
     (case ctxErr of
        Some err \<Rightarrow> (m, Inl err)
      | None \<Rightarrow>
     (case map_of (residencies m) (mr_key residency) of
        None \<Rightarrow> (m, Inl ErrModelResidencyConflict)
      | Some current \<Rightarrow>
          if mr_Revision current \<noteq> expectedRevision then (m, Inl ErrModelResidencyConflict)
          else if \<not> residencyGenerationCompatible (Some current) (Some residency)
          then (m, Inl ErrModelResidencyGenerationConflict)
          else (let updated = residency\<lparr>mr_Revision := expectedRevision + 1\<rparr>
                in (m\<lparr>residencies := mput (mr_key residency) updated (residencies m)\<rparr>, Inr updated))))"

definition GetModelResidency :: "memory_store \<Rightarrow> string \<Rightarrow> string \<Rightarrow> error + model_residency" where
  "GetModelResidency m targetID model =
     (case map_of (residencies m) (residencyKey targetID model) of None \<Rightarrow> Inl ErrNotFound | Some r \<Rightarrow> Inr r)"

definition ListModelResidencies :: "memory_store \<Rightarrow> model_residency list" where
  "ListModelResidencies m = sort_key (\<lambda>r. (mr_TargetID r, mr_Model r)) (mvalues (residencies m))"

section \<open>Generations\<close>

text \<open>A writer, as a value, and the state it leaves.\<close>

datatype residency_write =
    Upsert model_residency
  | Create model_residency
  | Swap_Residency "error option" u64 model_residency

fun residency_exec :: "residency_write \<Rightarrow> memory_store \<Rightarrow> memory_store" where
  "residency_exec (Upsert r) m = fst (UpsertModelResidency m r)"
| "residency_exec (Create r) m = fst (CreateModelResidency m r)"
| "residency_exec (Swap_Residency c e r) m = fst (CompareAndSwapModelResidency c e m r)"

definition residency_evolves :: "model_residency \<Rightarrow> model_residency \<Rightarrow> bool" where
  "residency_evolves p q \<longleftrightarrow> mr_TargetGeneration p \<le> mr_TargetGeneration q \<and>
     (mr_TargetGeneration p = mr_TargetGeneration q \<longrightarrow> mr_ExecutionFingerprint p = mr_ExecutionFingerprint q) \<and>
     (mr_ExecutionFingerprint p \<noteq> '''' \<longrightarrow> mr_ExecutionFingerprint q \<noteq> '''')"

lemma residency_evolves_refl [simp]: "residency_evolves p p"
  by (simp add: residency_evolves_def)

lemma residency_evolves_trans: "residency_evolves p q \<Longrightarrow> residency_evolves q r \<Longrightarrow> residency_evolves p r"
  by (auto simp: residency_evolves_def)

lemma compatible_evolves: "residencyGenerationCompatible (Some p) (Some q) \<Longrightarrow> residency_evolves p q"
  by (auto simp: residencyGenerationCompatible_def residency_evolves_def not_less split: if_splits)

lemma residency_evolves_revision [simp]: "residency_evolves p (q\<lparr>mr_Revision := e\<rparr>) = residency_evolves p q"
  by (simp add: residency_evolves_def)

lemma residency_exec_evolves:
  assumes "map_of (residencies m) k = Some p"
  shows "\<exists>q. map_of (residencies (residency_exec x m)) k = Some q \<and> residency_evolves p q"
  using assms
  by (cases x)
    (auto simp: UpsertModelResidency_def CreateModelResidency_def CompareAndSwapModelResidency_def Let_def
      split: option.splits intro: compatible_evolves)

definition residency_inv :: "memory_store \<Rightarrow> bool" where
  "residency_inv m \<longleftrightarrow> gomap_wf (residencies m) \<and> (\<forall>k r. map_of (residencies m) k = Some r \<longrightarrow> mr_key r = k)"

lemma residency_exec_inv: "residency_inv m \<Longrightarrow> residency_inv (residency_exec x m)"
  by (cases x)
    (auto simp: residency_inv_def UpsertModelResidency_def CreateModelResidency_def CompareAndSwapModelResidency_def
      Let_def split: option.splits)

lemma residency_exec_frame: "residency_exec x m = m\<lparr>residencies := residencies (residency_exec x m)\<rparr>"
  by (cases x)
    (auto simp: UpsertModelResidency_def CreateModelResidency_def CompareAndSwapModelResidency_def Let_def
      split: option.splits)

lemma swap_residency_okD:
  assumes "CompareAndSwapModelResidency c e m r = (m', Inr v)"
  obtains current where "map_of (residencies m) (mr_key r) = Some current" "mr_Revision current = e"
    "residencyGenerationCompatible (Some current) (Some r)" "v = r\<lparr>mr_Revision := e + 1\<rparr>"
    "m' = m\<lparr>residencies := mput (mr_key r) v (residencies m)\<rparr>"
  using assms unfolding CompareAndSwapModelResidency_def Let_def guards
  by (cases "map_of (residencies m) (mr_key r)") (auto split: if_splits)

lemma swap_residency_errD: "CompareAndSwapModelResidency c e m r = (m', Inl x) \<Longrightarrow> m' = m"
  by (auto simp: CompareAndSwapModelResidency_def Let_def split: option.splits if_splits)

interpretation residency_cas: cas_row
  "\<lambda>m. map_of (residencies m)" mr_Revision mr_key "CompareAndSwapModelResidency ctxErr" for ctxErr
proof
  fix e m r m' v
  assume "CompareAndSwapModelResidency ctxErr e m r = (m', Inr v)"
  then show "(\<exists>old. map_of (residencies m) (mr_key r) = Some old \<and> mr_Revision old = e) \<and> mr_Revision v = e + 1 \<and>
      map_of (residencies m') = (map_of (residencies m))(mr_key r \<mapsto> v)"
    by (rule swap_residency_okD) simp
qed (auto dest: swap_residency_errD)

section \<open>Properties\<close>

text \<open>
  The configuration a residency row vouches for only moves forward: after any sequence of
  upserts, creates and compare-and-swaps, a row that existed still exists, its target generation
  has not gone back, within one generation its execution fingerprint is unchanged, and a
  fingerprint is never lost.
\<close>

theorem residency_generation_monotone:
  assumes "map_of (residencies m) k = Some p"
  shows "\<exists>q. map_of (residencies (fold residency_exec xs m)) k = Some q \<and>
    mr_TargetGeneration p \<le> mr_TargetGeneration q \<and>
    (mr_TargetGeneration p = mr_TargetGeneration q \<longrightarrow> mr_ExecutionFingerprint p = mr_ExecutionFingerprint q) \<and>
    (mr_ExecutionFingerprint p \<noteq> '''' \<longrightarrow> mr_ExecutionFingerprint q \<noteq> '''')"
proof -
  have "\<exists>q. map_of (residencies (fold residency_exec xs m)) k = Some q \<and> residency_evolves p q"
    using assms
  proof (induction xs arbitrary: m p)
    case (Cons x xs)
    obtain q where "map_of (residencies (residency_exec x m)) k = Some q" "residency_evolves p q"
      using residency_exec_evolves [OF Cons.prems] by blast
    then show ?case using Cons.IH residency_evolves_trans by fastforce
  qed simp
  then show ?thesis by (simp add: residency_evolves_def)
qed

definition zero_model_residency :: model_residency where
  "zero_model_residency = \<lparr>
     mr_ID = '''', mr_Revision = 0, mr_TargetGeneration = 0, mr_ExecutionFingerprint = '''',
     mr_TargetID = '''', mr_AcceleratorID = '''', mr_Adapter = '''', mr_Model = '''',
     mr_DesiredTier = '''', mr_ObservedTier = '''', mr_Policy = '''',
     mr_CapacityVerified = False, mr_WarmRAMSupported = False, mr_WarmModelBytes = 0,
     mr_WarmModelBytesVerified = False, mr_SessionCheckpointable = False, mr_ReuseScore = 0,
     mr_UseCount = 0, mr_LastUsedAt = None, mr_LastLoadedAt = None, mr_MinResidentUntil = None,
     mr_IdleUnloadAfterSec = 0, mr_LastError = '''', mr_UpdatedAt = 0\<rparr>"


definition sample_residency :: "u64 \<Rightarrow> string \<Rightarrow> model_residency" where
  "sample_residency g f = zero_model_residency\<lparr>mr_TargetID := ''t'', mr_Model := ''m'', mr_Revision := 1,
     mr_TargetGeneration := g, mr_ExecutionFingerprint := f\<rparr>"

theorem residency_generation_monotone_witness:
  "let m = NewMemoryStore\<lparr>residencies := [(residencyKey ''t'' ''m'', sample_residency 4 ''f'')]\<rparr>;
       xs = [Upsert (sample_residency 3 ''g''), Swap_Residency None 1 (sample_residency 5 ''h''), Create (sample_residency 5 '''')]
   in \<exists>q. map_of (residencies (fold residency_exec xs m)) (residencyKey ''t'' ''m'') = Some q \<and> 4 \<le> mr_TargetGeneration q"
proof -
  let ?m = "NewMemoryStore\<lparr>residencies := [(residencyKey ''t'' ''m'', sample_residency 4 ''f'')]\<rparr>"
  have "map_of (residencies ?m) (residencyKey ''t'' ''m'') = Some (sample_residency 4 ''f'')" by simp
  moreover have "mr_TargetGeneration (sample_residency 4 ''f'') = 4" by (simp add: sample_residency_def)
  ultimately show ?thesis
    using residency_generation_monotone [of ?m "residencyKey ''t'' ''m''" "sample_residency 4 ''f''"] unfolding Let_def by metis
qed

end
