(* ===== verification/Transitions.thy ===== *)
theory Transitions
  imports Leases
begin

text \<open>
  Residency transitions of \<open>internal/store/memory.go\<close> with their validation in
  \<open>internal/store/store.go\<close>: a transition moves a model between tiers under a fencing token that
  the store draws per target and model, optionally under an accelerator lease whose identity is
  recorded as the origin of the transition. The lemmas show that fences grow strictly, that an
  origin can only come from a live lease, and when a repeated allocation is a replay. Transition
  arguments are never nil, except where the code itself tests for it.
\<close>

section \<open>Validation\<close>

definition verifyResidencyTransitionCanonical ::
    "residency_transition option \<Rightarrow> residency_transition \<Rightarrow> bool \<Rightarrow> error option" where
  "verifyResidencyTransitionCanonical existing requested compareFence =
     (case existing of
        None \<Rightarrow> Some ErrResidencyTransitionConflict
      | Some p \<Rightarrow>
          if rt_IdempotencyKey p \<noteq> rt_IdempotencyKey requested \<or> rt_TargetID p \<noteq> rt_TargetID requested \<or>
             rt_AcceleratorID p \<noteq> rt_AcceleratorID requested \<or> rt_Model p \<noteq> rt_Model requested \<or>
             rt_FromTier p \<noteq> rt_FromTier requested \<or> rt_ToTier p \<noteq> rt_ToTier requested \<or>
             rt_Reason p \<noteq> rt_Reason requested \<or> rt_RequestedBy p \<noteq> rt_RequestedBy requested \<or>
             rt_WorkloadID p \<noteq> rt_WorkloadID requested \<or>
             compareFence \<and> rt_FencingToken p \<noteq> rt_FencingToken requested \<or>
             rt_CapabilityVersion p \<noteq> rt_CapabilityVersion requested \<or>
             rt_CapabilityRevision p \<noteq> rt_CapabilityRevision requested \<or>
             rt_TargetGeneration p \<noteq> rt_TargetGeneration requested \<or>
             rt_ExecutionFingerprint p \<noteq> rt_ExecutionFingerprint requested
          then Some ErrResidencyTransitionConflict else None)"

definition sameResidencyTransitionLeaseOrigin :: "residency_transition \<Rightarrow> residency_transition \<Rightarrow> bool" where
  "sameResidencyTransitionLeaseOrigin p q \<longleftrightarrow>
     rt_LeaseOriginAcceleratorID p = rt_LeaseOriginAcceleratorID q \<and>
     rt_LeaseOriginWorkloadID p = rt_LeaseOriginWorkloadID q \<and>
     rt_LeaseOriginFencingToken p = rt_LeaseOriginFencingToken q \<and>
     rt_LeaseOriginAllocated p = rt_LeaseOriginAllocated q"

definition verifyResidencyTransitionReplay ::
    "residency_transition option \<Rightarrow> residency_transition \<Rightarrow> error option" where
  "verifyResidencyTransitionReplay existing requested =
     (case verifyResidencyTransitionCanonical existing requested True of
        Some err \<Rightarrow> Some err
      | None \<Rightarrow>
          (case existing of
             None \<Rightarrow> Some ErrResidencyTransitionConflict
           | Some p \<Rightarrow> if \<not> sameResidencyTransitionLeaseOrigin p requested then Some ErrResidencyTransitionConflict else None))"

definition residencyTransitionHasLeaseOrigin :: "residency_transition \<Rightarrow> bool" where
  "residencyTransitionHasLeaseOrigin p \<longleftrightarrow>
     rt_LeaseOriginAcceleratorID p \<noteq> '''' \<or> rt_LeaseOriginWorkloadID p \<noteq> '''' \<or>
     rt_LeaseOriginFencingToken p \<noteq> 0 \<or> rt_LeaseOriginAllocated p"

definition validateResidencyTransitionStoredOrigin :: "residency_transition \<Rightarrow> error option" where
  "validateResidencyTransitionStoredOrigin p =
     (if \<not> residencyTransitionHasLeaseOrigin p then None
      else if rt_LeaseOriginAcceleratorID p = '''' \<or> rt_LeaseOriginWorkloadID p = '''' \<or>
              rt_LeaseOriginFencingToken p \<le> 0 \<or> \<not> rt_LeaseOriginAllocated p
      then Some ErrResidencyTransitionConflict else None)"

definition unobserved_planned :: "residency_transition \<Rightarrow> bool" where
  "unobserved_planned t \<longleftrightarrow>
     rt_Status t = ResidencyTransitionPlanned \<and> rt_Revision t = 0 \<and> rt_StartedAt t = None \<and> rt_FinishedAt t = None \<and>
     rt_Error t = '''' \<and> rt_ObservedTier t = '''' \<and> rt_WarmModelBytes t = 0 \<and> \<not> rt_WarmModelBytesVerified t \<and>
     rt_RuntimeIdentity t = '''' \<and> rt_ObservedFence t = 0 \<and> \<not> rt_ProjectionRepairPending t"

definition validateResidencyTransitionLeaseOriginRequest ::
    "residency_transition option \<Rightarrow> accelerator_lease option \<Rightarrow> error + string" where
  "validateResidencyTransitionLeaseOriginRequest transition lease =
     (case transition of
        None \<Rightarrow> Inl ErrResidencyTransitionConflict
      | Some t \<Rightarrow>
      if rt_ID t = '''' \<or> rt_IdempotencyKey t = '''' \<or> rt_TargetID t = '''' \<or> rt_Model t = ''''
      then Inl ErrResidencyTransitionConflict
      else if \<not> unobserved_planned t then Inl ErrResidencyTransitionConflict
      else if residencyTransitionHasLeaseOrigin t then Inl ErrResidencyTransitionConflict
      else (case lease of
        None \<Rightarrow> Inl ErrResidencyTransitionConflict
      | Some l \<Rightarrow>
          if ls_WorkloadID l = '''' \<or> ls_FencingToken l \<le> 0 \<or> ls_ExpiresAt l = 0 \<or> rt_FencingToken t \<noteq> ls_FencingToken l
          then Inl ErrResidencyTransitionConflict
          else (let resource = (if rt_AcceleratorID t \<noteq> '''' then ls_AcceleratorID l else ''virtual/'' @ rt_TargetID t)
                in if rt_AcceleratorID t \<noteq> '''' \<and> resource \<noteq> rt_AcceleratorID t then Inl ErrResidencyTransitionConflict
                   else if rt_AcceleratorID t = '''' \<and> ls_AcceleratorID l \<noteq> resource then Inl ErrResidencyTransitionConflict
                   else if resource = '''' then Inl ErrResidencyTransitionConflict
                   else Inr resource)))"

definition validateCurrentResidencyLeaseOrigin ::
    "accelerator_lease option \<Rightarrow> accelerator_lease option \<Rightarrow> time \<Rightarrow> error option" where
  "validateCurrentResidencyLeaseOrigin current requested now =
     (case (current, requested) of
        (Some c, Some l) \<Rightarrow>
          if ls_AcceleratorID l = '''' \<or> ls_WorkloadID l = '''' \<or> ls_FencingToken l \<le> 0 \<or>
             ls_AcceleratorID c \<noteq> ls_AcceleratorID l \<or> ls_WorkloadID c \<noteq> ls_WorkloadID l \<or>
             ls_FencingToken c \<noteq> ls_FencingToken l \<or> \<not> ls_ExpiresAt c > now
          then Some ErrResidencyTransitionConflict else None
      | _ \<Rightarrow> Some ErrResidencyTransitionConflict)"

definition issued_under :: "residency_transition \<Rightarrow> string \<Rightarrow> accelerator_lease \<Rightarrow> bool" where
  "issued_under p resource l \<longleftrightarrow>
     rt_LeaseOriginAcceleratorID p = resource \<and> rt_LeaseOriginWorkloadID p = ls_WorkloadID l \<and>
     rt_LeaseOriginFencingToken p = ls_FencingToken l \<and> rt_LeaseOriginAllocated p \<and>
     ls_FencingToken l \<le> rt_FencingToken p"

definition verifyResidencyTransitionLeaseReplay ::
    "residency_transition \<Rightarrow> residency_transition \<Rightarrow> accelerator_lease \<Rightarrow> error option" where
  "verifyResidencyTransitionLeaseReplay existing requested lease =
     (case validateResidencyTransitionLeaseOriginRequest (Some requested) (Some lease) of
        Inl err \<Rightarrow> Some err
      | Inr resource \<Rightarrow>
          (case verifyResidencyTransitionCanonical (Some existing) requested False of
             Some err \<Rightarrow> Some err
           | None \<Rightarrow> if \<not> issued_under existing resource lease then Some ErrResidencyTransitionConflict else None))"

section \<open>Operations\<close>

definition model_fence :: "memory_store \<Rightarrow> string \<Rightarrow> string \<Rightarrow> i64" where
  "model_fence m targetID model =
     foldl (\<lambda>highwater p.
        if rt_TargetID p = targetID \<and> rt_Model p = model \<and> rt_FencingToken p > highwater
        then rt_FencingToken p else highwater) 0 (mvalues (transitions m))"

text \<open>The part the unleased creations share: a row found under the key or the ID is a replay.\<close>

definition transition_replay :: "memory_store \<Rightarrow> residency_transition \<Rightarrow>
    (error + residency_transition \<times> bool) option" where
  "transition_replay m t =
     (let i = mget_zero '''' (transitionKeys m) (rt_IdempotencyKey t);
          answer = (\<lambda>existing. case verifyResidencyTransitionReplay existing t of
             Some err \<Rightarrow> Inl err
           | None \<Rightarrow> (case existing of None \<Rightarrow> Inl Panic | Some p \<Rightarrow> Inr (p, False)))
      in if i \<noteq> '''' then Some (answer (map_of (transitions m) i))
         else (case map_of (transitions m) (rt_ID t) of
                 Some p \<Rightarrow> Some (answer (Some p))
               | None \<Rightarrow> None))"

definition store_transition :: "memory_store \<Rightarrow> residency_transition \<Rightarrow> memory_store" where
  "store_transition m t = m\<lparr>transitions := mput (rt_ID t) t (transitions m),
     transitionKeys := mput (rt_IdempotencyKey t) (rt_ID t) (transitionKeys m)\<rparr>"

definition CreateResidencyTransition :: "memory_store \<Rightarrow> residency_transition \<Rightarrow>
    memory_store \<times> (error + residency_transition \<times> bool)" where
  "CreateResidencyTransition m t =
     (case validateResidencyTransitionStoredOrigin t of
        Some err \<Rightarrow> (m, Inl err)
      | None \<Rightarrow>
      if residencyTransitionHasLeaseOrigin t then (m, Inl ErrResidencyTransitionConflict)
      else (case transition_replay m t of
        Some r \<Rightarrow> (m, r)
      | None \<Rightarrow> (store_transition m t, Inr (t, True))))"

definition allocate_fence :: "memory_store \<Rightarrow> residency_transition \<Rightarrow> error + residency_transition" where
  "allocate_fence m t =
     (let t = (if rt_Revision t = 0 then t\<lparr>rt_Revision := 1\<rparr> else t);
          highwater = model_fence m (rt_TargetID t) (rt_Model t)
      in if highwater = max_i64 then Inl ErrResidencyTransitionConflict
         else Inr (if rt_FencingToken t \<le> highwater then t\<lparr>rt_FencingToken := highwater + 1\<rparr> else t))"

definition AllocateResidencyTransition :: "memory_store \<Rightarrow> residency_transition \<Rightarrow>
    memory_store \<times> (error + residency_transition \<times> bool)" where
  "AllocateResidencyTransition m t =
     (case validateResidencyTransitionStoredOrigin t of
        Some err \<Rightarrow> (m, Inl err)
      | None \<Rightarrow>
      if residencyTransitionHasLeaseOrigin t then (m, Inl ErrResidencyTransitionConflict)
      else (case transition_replay m t of
        Some r \<Rightarrow> (m, r)
      | None \<Rightarrow>
          (case allocate_fence m t of
             Inl err \<Rightarrow> (m, Inl err)
           | Inr allocated \<Rightarrow> (store_transition m allocated, Inr (allocated, True)))))"

definition stamp_origin :: "string \<Rightarrow> accelerator_lease \<Rightarrow> residency_transition \<Rightarrow> residency_transition" where
  "stamp_origin resource l t = t\<lparr>rt_LeaseOriginAcceleratorID := resource, rt_LeaseOriginWorkloadID := ls_WorkloadID l,
     rt_LeaseOriginFencingToken := ls_FencingToken l, rt_LeaseOriginAllocated := True\<rparr>"

definition AllocateResidencyTransitionWithLease :: "time \<Rightarrow> memory_store \<Rightarrow> residency_transition option \<Rightarrow>
    accelerator_lease option \<Rightarrow> memory_store \<times> (error + residency_transition \<times> bool)" where
  "AllocateResidencyTransitionWithLease now m transition lease =
     (case validateResidencyTransitionLeaseOriginRequest transition lease of
        Inl err \<Rightarrow> (m, Inl err)
      | Inr resource \<Rightarrow>
     (case validateCurrentResidencyLeaseOrigin (map_of (leases m) resource) lease now of
        Some err \<Rightarrow> (m, Inl err)
      | None \<Rightarrow>
     (case (transition, lease) of
        (Some t, Some l) \<Rightarrow>
          (let byKeyID = mget_zero '''' (transitionKeys m) (rt_IdempotencyKey t);
               byID = map_of (transitions m) (rt_ID t);
               answer = (\<lambda>p. case verifyResidencyTransitionLeaseReplay p t l of
                  Some err \<Rightarrow> Inl err | None \<Rightarrow> Inr (p, False))
           in if byKeyID \<noteq> '''' then
                (case map_of (transitions m) byKeyID of
                   None \<Rightarrow> (m, Inl ErrResidencyTransitionConflict)
                 | Some byKey \<Rightarrow>
                     if (case byID of None \<Rightarrow> False | Some p \<Rightarrow> rt_ID p \<noteq> rt_ID byKey)
                     then (m, Inl ErrResidencyTransitionConflict)
                     else (m, answer byKey))
              else (case byID of
                 Some p \<Rightarrow> (m, answer p)
               | None \<Rightarrow>
                   (case allocate_fence m t of
                      Inl err \<Rightarrow> (m, Inl err)
                    | Inr allocated \<Rightarrow>
                        (let allocated = stamp_origin resource l allocated
                         in (store_transition m allocated, Inr (allocated, True))))))
      | _ \<Rightarrow> (m, Inl Panic))))"

definition GetResidencyTransitionByIdempotencyForLease :: "time \<Rightarrow> memory_store \<Rightarrow> string \<Rightarrow>
    accelerator_lease option \<Rightarrow> error + residency_transition" where
  "GetResidencyTransitionByIdempotencyForLease now m idempotencyKey lease =
     (case lease of
        None \<Rightarrow> Inl ErrNotFound
      | Some l \<Rightarrow>
      if idempotencyKey = '''' \<or> ls_AcceleratorID l = '''' then Inl ErrNotFound
      else (case validateCurrentResidencyLeaseOrigin (map_of (leases m) (ls_AcceleratorID l)) lease now of
        Some err \<Rightarrow> Inl err
      | None \<Rightarrow>
          (let i = mget_zero '''' (transitionKeys m) idempotencyKey in
           if i = '''' then Inl ErrNotFound
           else (case map_of (transitions m) i of
              None \<Rightarrow> Inl ErrNotFound
            | Some p \<Rightarrow> if \<not> issued_under p (ls_AcceleratorID l) l then Inl ErrResidencyTransitionConflict else Inr p))))"

definition CompareAndSwapResidencyTransition :: "u64 \<Rightarrow> string \<Rightarrow> i64 \<Rightarrow> memory_store \<Rightarrow> residency_transition \<Rightarrow>
    memory_store \<times> (error + residency_transition)" where
  "CompareAndSwapResidencyTransition expectedRevision expectedStatus expectedFence m t =
     (case map_of (transitions m) (rt_ID t) of
        None \<Rightarrow> (m, Inl ErrNotFound)
      | Some current \<Rightarrow>
     (case validateResidencyTransitionStoredOrigin current of
        Some err \<Rightarrow> (m, Inl err)
      | None \<Rightarrow>
     (case validateResidencyTransitionStoredOrigin t of
        Some err \<Rightarrow> (m, Inl err)
      | None \<Rightarrow>
          if rt_Revision current \<noteq> expectedRevision \<or> rt_Status current \<noteq> expectedStatus \<or>
             rt_FencingToken current \<noteq> expectedFence
          then (m, Inl ErrResidencyTransitionConflict)
          else (case verifyResidencyTransitionReplay (Some current) t of
             Some err \<Rightarrow> (m, Inl err)
           | None \<Rightarrow>
               (let updated = t\<lparr>rt_Revision := expectedRevision + 1\<rparr>
                in (m\<lparr>transitions := mput (rt_ID t) updated (transitions m)\<rparr>, Inr updated))))))"

definition UpdateResidencyTransition :: "memory_store \<Rightarrow> residency_transition \<Rightarrow>
    memory_store \<times> (error + residency_transition)" where
  "UpdateResidencyTransition m t =
     (case map_of (transitions m) (rt_ID t) of
        None \<Rightarrow> (m, Inl ErrNotFound)
      | Some current \<Rightarrow>
     (case validateResidencyTransitionStoredOrigin current of
        Some err \<Rightarrow> (m, Inl err)
      | None \<Rightarrow>
     (case validateResidencyTransitionStoredOrigin t of
        Some err \<Rightarrow> (m, Inl err)
      | None \<Rightarrow>
          if \<not> sameResidencyTransitionLeaseOrigin current t then (m, Inl ErrResidencyTransitionConflict)
          else if rt_LeaseOriginAllocated current \<and> verifyResidencyTransitionCanonical (Some current) t True \<noteq> None
          then (m, Inl ErrResidencyTransitionConflict)
          else (m\<lparr>transitions := mput (rt_ID t) t (transitions m)\<rparr>, Inr t))))"

definition GetResidencyTransitionByIdempotency :: "memory_store \<Rightarrow> string \<Rightarrow> error + residency_transition" where
  "GetResidencyTransitionByIdempotency m idempotencyKey =
     (if idempotencyKey = '''' then Inl ErrNotFound
      else (let i = mget_zero '''' (transitionKeys m) idempotencyKey in
            if i = '''' then Inl ErrNotFound
            else (case map_of (transitions m) i of None \<Rightarrow> Inl ErrNotFound | Some p \<Rightarrow> Inr p)))"

definition GetResidencyTransition :: "memory_store \<Rightarrow> string \<Rightarrow> error + residency_transition" where
  "GetResidencyTransition m i = (case map_of (transitions m) i of None \<Rightarrow> Inl ErrNotFound | Some p \<Rightarrow> Inr p)"

definition MaxResidencyFencingToken :: "memory_store \<Rightarrow> string \<Rightarrow> string \<Rightarrow> i64" where
  "MaxResidencyFencingToken m targetID model =
     foldl (\<lambda>highest p.
        if rt_TargetID p = targetID \<and> rt_Model p = model \<and> rt_FencingToken p > highest
        then rt_FencingToken p else highest) 0 (mvalues (transitions m))"

definition active_transition :: "residency_transition \<Rightarrow> bool" where
  "active_transition p \<longleftrightarrow> rt_Status p = ResidencyTransitionPlanned \<or> rt_Status p = ResidencyTransitionRunning \<or>
     rt_Status p = ResidencyTransitionSucceeded \<and> rt_ProjectionRepairPending p"

definition ListActiveResidencyTransitions :: "memory_store \<Rightarrow> string \<Rightarrow> string \<Rightarrow> residency_transition list" where
  "ListActiveResidencyTransitions m targetID model =
     newest_first rt_CreatedAt
       (filter (\<lambda>p. rt_TargetID p = targetID \<and> rt_Model p = model \<and> active_transition p) (mvalues (transitions m)))"

definition ListResidencyTransitions :: "memory_store \<Rightarrow> int \<Rightarrow> residency_transition list" where
  "ListResidencyTransitions m limit =
     (let out = newest_first rt_CreatedAt (mvalues (transitions m))
      in if limit < 0 then out else take (page_limit limit) out)"

section \<open>Fences\<close>

text \<open>The running maximum of the code is the maximum of the fences of that target and model.\<close>

definition fences_of :: "memory_store \<Rightarrow> string \<Rightarrow> string \<Rightarrow> int list" where
  "fences_of m targetID model =
     map rt_FencingToken (filter (\<lambda>p. rt_TargetID p = targetID \<and> rt_Model p = model) (mvalues (transitions m)))"

lemma Max_insert_max: "finite A \<Longrightarrow> Max (insert (max a b) A) = Max (insert a (insert b A))" for a b :: int
  by (cases "A = {}") (simp_all add: max.assoc)

lemma running_max:
  "foldl (\<lambda>h p. if P p \<and> f p > h then f p else h) a xs = Max (insert a (f ` {p \<in> set xs. P p}))"
  for f :: "'a \<Rightarrow> int"
proof (induction xs arbitrary: a)
  case (Cons x xs)
  have f: "finite (f ` {p \<in> set xs. P p})" by simp
  show ?case
  proof (cases "P x")
    case True
    then have "{p \<in> set (x # xs). P p} = insert x {p \<in> set xs. P p}" by auto
    moreover have "(if P x \<and> a < f x then f x else a) = max a (f x)" using True by (simp add: max_def)
    ultimately show ?thesis by (simp only: foldl.simps Cons.IH image_insert Max_insert_max [OF f])
  next
    case False
    then have "{p \<in> set (x # xs). P p} = {p \<in> set xs. P p}" by auto
    then show ?thesis using False by (simp only: foldl.simps Cons.IH simp_thms if_False)
  qed
qed simp

lemma model_fence_Max: "model_fence m t n = Max (insert 0 (set (fences_of m t n)))"
proof -
  have "model_fence m t n = foldl (\<lambda>h p. if (rt_TargetID p = t \<and> rt_Model p = n) \<and> rt_FencingToken p > h
      then rt_FencingToken p else h) 0 (mvalues (transitions m))"
    by (simp add: model_fence_def conj_assoc)
  also have "\<dots> = Max (insert 0 (rt_FencingToken ` {p \<in> set (mvalues (transitions m)). rt_TargetID p = t \<and> rt_Model p = n}))"
    by (rule running_max)
  finally show ?thesis by (simp add: fences_of_def)
qed

lemma model_fence_upper: "x \<in> set (fences_of m t n) \<Longrightarrow> x \<le> model_fence m t n"
  by (simp add: model_fence_Max)

lemma model_fence_nonneg: "0 \<le> model_fence m t n"
  by (simp add: model_fence_Max)

lemma max_fence_eq: "MaxResidencyFencingToken m t n = model_fence m t n"
  by (simp add: MaxResidencyFencingToken_def model_fence_def)

lemma model_fence_cong: "set (fences_of m t n) = set (fences_of m' t' n') \<Longrightarrow> model_fence m t n = model_fence m' t' n'"
  by (simp add: model_fence_Max)

lemma allocate_fenceD:
  assumes "allocate_fence m t = Inr a"
  shows "rt_FencingToken t \<le> rt_FencingToken a" "model_fence m (rt_TargetID t) (rt_Model t) < rt_FencingToken a"
    "a = t\<lparr>rt_Revision := rt_Revision a, rt_FencingToken := rt_FencingToken a\<rparr>"
    "model_fence m (rt_TargetID t) (rt_Model t) < rt_FencingToken t \<Longrightarrow> rt_FencingToken a = rt_FencingToken t"
    "rt_FencingToken t \<le> model_fence m (rt_TargetID t) (rt_Model t) \<Longrightarrow>
       rt_FencingToken a = model_fence m (rt_TargetID t) (rt_Model t) + 1"
  using assms by (auto simp: allocate_fence_def Let_def split: if_splits)

section \<open>Outcomes\<close>

lemma allocate_newD:
  assumes "AllocateResidencyTransition m t = (m', Inr (v, True))"
  shows "\<not> residencyTransitionHasLeaseOrigin t" "transition_replay m t = None" "allocate_fence m t = Inr v"
    "m' = store_transition m v"
  using assms
  by (auto simp: AllocateResidencyTransition_def transition_replay_def Let_def
      split: option.splits sum.splits if_splits)

lemma allocate_oldD: "AllocateResidencyTransition m t = (m', r) \<Longrightarrow> (\<forall>v. r \<noteq> Inr (v, True)) \<Longrightarrow> m' = m"
  by (auto simp: AllocateResidencyTransition_def split: option.splits sum.splits if_splits)

lemma replay_None:
  "transition_replay m t = None \<longleftrightarrow>
     mget_zero '''' (transitionKeys m) (rt_IdempotencyKey t) = '''' \<and> map_of (transitions m) (rt_ID t) = None"
  by (auto simp: transition_replay_def Let_def split: option.splits)

lemma lease_allocate_newD:
  assumes "AllocateResidencyTransitionWithLease now m t l = (m', Inr (v, True))"
  obtains t' l' resource a where "t = Some t'" "l = Some l'"
    "validateResidencyTransitionLeaseOriginRequest (Some t') (Some l') = Inr resource"
    "validateCurrentResidencyLeaseOrigin (map_of (leases m) resource) (Some l') now = None"
    "mget_zero '''' (transitionKeys m) (rt_IdempotencyKey t') = ''''" "map_of (transitions m) (rt_ID t') = None"
    "allocate_fence m t' = Inr a" "v = stamp_origin resource l' a" "m' = store_transition m v"
proof -
  obtain t' where t: "t = Some t'"
    using assms by (cases t) (auto simp: AllocateResidencyTransitionWithLease_def validateResidencyTransitionLeaseOriginRequest_def)
  obtain l' where l: "l = Some l'"
    using assms t by (cases l) (auto simp: AllocateResidencyTransitionWithLease_def
        validateResidencyTransitionLeaseOriginRequest_def split: if_splits)
  show ?thesis
    using assms that unfolding t l AllocateResidencyTransitionWithLease_def Let_def
    by (auto split: option.splits sum.splits if_splits)
qed

lemma lease_allocate_oldD:
  "AllocateResidencyTransitionWithLease now m t l = (m', r) \<Longrightarrow> (\<forall>v. r \<noteq> Inr (v, True)) \<Longrightarrow> m' = m"
  by (auto simp: AllocateResidencyTransitionWithLease_def Let_def split: option.splits sum.splits if_splits)

definition same_canonical :: "residency_transition \<Rightarrow> residency_transition \<Rightarrow> bool" where
  "same_canonical p q \<longleftrightarrow> verifyResidencyTransitionCanonical (Some p) q False = None"

lemma canonical_fence:
  "verifyResidencyTransitionCanonical (Some p) q True = None \<longleftrightarrow> same_canonical p q \<and> rt_FencingToken p = rt_FencingToken q"
  by (auto simp: verifyResidencyTransitionCanonical_def same_canonical_def)

lemma canonicalD: "same_canonical p q \<Longrightarrow> rt_TargetID p = rt_TargetID q \<and> rt_Model p = rt_Model q"
  by (auto simp: verifyResidencyTransitionCanonical_def same_canonical_def split: if_splits)

lemma replay_ok:
  "verifyResidencyTransitionReplay (Some p) q = None \<longleftrightarrow>
     same_canonical p q \<and> rt_FencingToken p = rt_FencingToken q \<and> sameResidencyTransitionLeaseOrigin p q"
  using canonical_fence [of p q] by (auto simp: verifyResidencyTransitionReplay_def split: option.splits)

lemma swap_transition_okD:
  assumes "CompareAndSwapResidencyTransition e s f m t = (m', Inr v)"
  obtains current where "map_of (transitions m) (rt_ID t) = Some current" "rt_Revision current = e"
    "rt_Status current = s" "rt_FencingToken current = f" "same_canonical current t"
    "rt_FencingToken current = rt_FencingToken t" "sameResidencyTransitionLeaseOrigin current t"
    "v = t\<lparr>rt_Revision := e + 1\<rparr>" "m' = m\<lparr>transitions := mput (rt_ID t) v (transitions m)\<rparr>"
  using assms unfolding CompareAndSwapResidencyTransition_def Let_def guards
  by (cases "map_of (transitions m) (rt_ID t)") (auto simp: replay_ok split: if_splits option.splits)

lemma swap_transition_errD: "CompareAndSwapResidencyTransition e s f m t = (m', Inl x) \<Longrightarrow> m' = m"
  by (auto simp: CompareAndSwapResidencyTransition_def Let_def split: option.splits if_splits)

lemma update_transition_okD:
  assumes "UpdateResidencyTransition m t = (m', Inr v)"
  obtains current where "map_of (transitions m) (rt_ID t) = Some current" "sameResidencyTransitionLeaseOrigin current t"
    "rt_LeaseOriginAllocated current \<longrightarrow> same_canonical current t \<and> rt_FencingToken current = rt_FencingToken t"
    "v = t" "m' = m\<lparr>transitions := mput (rt_ID t) t (transitions m)\<rparr>"
  using assms unfolding UpdateResidencyTransition_def
  by (cases "map_of (transitions m) (rt_ID t)") (auto simp: canonical_fence split: if_splits option.splits)

lemma update_transition_errD: "UpdateResidencyTransition m t = (m', Inl x) \<Longrightarrow> m' = m"
  by (auto simp: UpdateResidencyTransition_def split: option.splits if_splits)

interpretation transition_cas: cas_row "\<lambda>m. map_of (transitions m)" rt_Revision "\<lambda>(s, f, t). rt_ID t"
  "\<lambda>e m (s, f, t). CompareAndSwapResidencyTransition e s f m t"
proof
  fix e m a m' v
  assume "(case a of (s, f, t) \<Rightarrow> CompareAndSwapResidencyTransition e s f m t) = (m', Inr v)"
  then show "(\<exists>old. map_of (transitions m) (case a of (s, f, t) \<Rightarrow> rt_ID t) = Some old \<and> rt_Revision old = e) \<and>
      rt_Revision v = e + 1 \<and> map_of (transitions m') = (map_of (transitions m))(case a of (s, f, t) \<Rightarrow> rt_ID t \<mapsto> v)"
    by (cases a) (auto elim!: swap_transition_okD)
qed (auto dest: swap_transition_errD)

section \<open>Runs of allocations\<close>

datatype transition_op =
    Allocate residency_transition
  | Allocate_Leased time "residency_transition option" "accelerator_lease option"
  | Swap_Transition u64 string i64 residency_transition
  | Create_Transition residency_transition
  | Update_Transition residency_transition

fun created_rows :: "(error + residency_transition \<times> bool) \<Rightarrow> residency_transition list" where
  "created_rows (Inr (v, True)) = [v]"
| "created_rows _ = []"

fun transition_exec :: "transition_op \<Rightarrow> memory_store \<Rightarrow> memory_store \<times> residency_transition list" where
  "transition_exec (Allocate t) m = (case AllocateResidencyTransition m t of (m', r) \<Rightarrow> (m', created_rows r))"
| "transition_exec (Allocate_Leased now t l) m =
     (case AllocateResidencyTransitionWithLease now m t l of (m', r) \<Rightarrow> (m', created_rows r))"
| "transition_exec (Swap_Transition e s f t) m = (fst (CompareAndSwapResidencyTransition e s f m t), [])"
| "transition_exec (Create_Transition t) m = (case CreateResidencyTransition m t of (m', r) \<Rightarrow> (m', created_rows r))"
| "transition_exec (Update_Transition t) m = (fst (UpdateResidencyTransition m t), [])"

text \<open>The operations that leave the choice of a fence to the store; the other two take it from the caller.\<close>

fun draws_fence :: "transition_op \<Rightarrow> bool" where
  "draws_fence (Create_Transition t) = False"
| "draws_fence (Update_Transition t) = False"
| "draws_fence _ = True"

fun transition_run :: "transition_op list \<Rightarrow> memory_store \<Rightarrow> memory_store \<times> residency_transition list" where
  "transition_run [] m = (m, [])"
| "transition_run (x # xs) m =
     (case transition_exec x m of (m', vs) \<Rightarrow> (case transition_run xs m' of (m'', ws) \<Rightarrow> (m'', vs @ ws)))"

definition transition_inv :: "memory_store \<Rightarrow> bool" where
  "transition_inv m \<longleftrightarrow> gomap_wf (transitions m) \<and> (\<forall>i p. map_of (transitions m) i = Some p \<longrightarrow> rt_ID p = i)"

lemma ex_row_put: "(\<exists>j q. (M(i \<mapsto> v)) j = Some q \<and> Q q) \<longleftrightarrow> Q v \<or> (\<exists>j q. j \<noteq> i \<and> M j = Some q \<and> Q q)"
  by (auto split: if_splits)

lemma ex_row_split: "M i = Some p \<Longrightarrow> (\<exists>j q. M j = Some q \<and> Q q) \<longleftrightarrow> Q p \<or> (\<exists>j q. j \<noteq> i \<and> M j = Some q \<and> Q q)"
  by (metis option.inject)

lemma ex_row_fresh: "M i = None \<Longrightarrow> (\<exists>j q. M j = Some q \<and> Q q) \<longleftrightarrow> (\<exists>j q. j \<noteq> i \<and> M j = Some q \<and> Q q)"
  by (metis option.distinct(1))

lemma fences_of_rows:
  "gomap_wf (transitions m) \<Longrightarrow>
     x \<in> set (fences_of m t n) \<longleftrightarrow>
     (\<exists>i p. map_of (transitions m) i = Some p \<and> rt_TargetID p = t \<and> rt_Model p = n \<and> rt_FencingToken p = x)"
  by (auto simp: fences_of_def mvalues_iff)

lemma fences_of_new:
  assumes "transition_inv m" and "map_of (transitions m) (rt_ID v) = None"
  shows "x \<in> set (fences_of (store_transition m v) t n) \<longleftrightarrow>
    rt_TargetID v = t \<and> rt_Model v = n \<and> rt_FencingToken v = x \<or> x \<in> set (fences_of m t n)"
proof -
  have wf: "gomap_wf (transitions m)" "gomap_wf (transitions (store_transition m v))"
    using assms(1) by (simp_all add: transition_inv_def store_transition_def)
  have put: "map_of (transitions (store_transition m v)) = (map_of (transitions m))(rt_ID v \<mapsto> v)"
    by (simp add: store_transition_def)
  show ?thesis
    unfolding fences_of_rows [OF wf(1)] fences_of_rows [OF wf(2)] put ex_row_put ex_row_fresh [of "map_of (transitions m)", OF assms(2)] by simp
qed

lemma fences_of_replace:
  assumes "transition_inv m" and "map_of (transitions m) i = Some p"
    and "rt_TargetID v = rt_TargetID p" "rt_Model v = rt_Model p" "rt_FencingToken v = rt_FencingToken p"
  shows "x \<in> set (fences_of (m\<lparr>transitions := mput i v (transitions m)\<rparr>) t n) \<longleftrightarrow> x \<in> set (fences_of m t n)"
proof -
  have wf: "gomap_wf (transitions m)" "gomap_wf (transitions (m\<lparr>transitions := mput i v (transitions m)\<rparr>))"
    using assms(1) by (simp_all add: transition_inv_def)
  have put: "map_of (transitions (m\<lparr>transitions := mput i v (transitions m)\<rparr>)) = (map_of (transitions m))(i \<mapsto> v)"
    by simp
  show ?thesis
    unfolding fences_of_rows [OF wf(1)] fences_of_rows [OF wf(2)] put ex_row_put ex_row_split [of "map_of (transitions m)", OF assms(2)] assms(3-5) by simp
qed

lemma model_fence_new:
  assumes "transition_inv m" and "map_of (transitions m) (rt_ID v) = None"
    and "model_fence m (rt_TargetID v) (rt_Model v) < rt_FencingToken v"
  shows "model_fence (store_transition m v) t n =
    (if rt_TargetID v = t \<and> rt_Model v = n then rt_FencingToken v else model_fence m t n)"
proof (cases "rt_TargetID v = t \<and> rt_Model v = n")
  case True
  have "set (fences_of (store_transition m v) t n) = insert (rt_FencingToken v) (set (fences_of m t n))"
    using fences_of_new [OF assms(1,2)] True by auto
  moreover have "Max (insert 0 (set (fences_of m t n))) < rt_FencingToken v"
    using assms(3) True by (simp add: model_fence_Max)
  moreover have "Max (insert 0 (insert x S)) = max x (Max (insert 0 S))" if "finite S" for x :: int and S
    by (subst insert_commute) (rule Max_insert, use that in simp_all)
  ultimately show ?thesis using True by (simp add: model_fence_Max)
next
  case False
  then have "set (fences_of (store_transition m v) t n) = set (fences_of m t n)"
    using fences_of_new [OF assms(1,2)] by auto
  then have "model_fence (store_transition m v) t n = model_fence m t n" by (rule model_fence_cong)
  then show ?thesis unfolding if_not_P [OF False] .
qed

lemma transition_inv_store: "transition_inv m \<Longrightarrow> transition_inv (store_transition m v)"
  by (simp add: transition_inv_def store_transition_def)

lemma transition_inv_put: "transition_inv m \<Longrightarrow> rt_ID v = i \<Longrightarrow> transition_inv (m\<lparr>transitions := mput i v (transitions m)\<rparr>)"
  by (simp add: transition_inv_def)

lemma stamp_origin_sel [simp]:
  "rt_ID (stamp_origin res l t) = rt_ID t" "rt_TargetID (stamp_origin res l t) = rt_TargetID t"
  "rt_Model (stamp_origin res l t) = rt_Model t" "rt_FencingToken (stamp_origin res l t) = rt_FencingToken t"
  "rt_IdempotencyKey (stamp_origin res l t) = rt_IdempotencyKey t"
  "same_canonical (stamp_origin res l t) = same_canonical t"
  by (simp_all add: stamp_origin_def same_canonical_def verifyResidencyTransitionCanonical_def fun_eq_iff)

lemma allocate_fence_identity:
  assumes "allocate_fence m t = Inr a"
  shows "rt_ID a = rt_ID t" "rt_TargetID a = rt_TargetID t" "rt_Model a = rt_Model t"
    "rt_IdempotencyKey a = rt_IdempotencyKey t" "same_canonical a t" "sameResidencyTransitionLeaseOrigin a t"
    "residencyTransitionHasLeaseOrigin a = residencyTransitionHasLeaseOrigin t"
  using assms
  by (auto simp: allocate_fence_def Let_def same_canonical_def verifyResidencyTransitionCanonical_def
      sameResidencyTransitionLeaseOrigin_def residencyTransitionHasLeaseOrigin_def split: if_splits)

text \<open>What an operation that draws fences does to the fences of every target and model.\<close>

definition fence_effect :: "memory_store \<Rightarrow> memory_store \<Rightarrow> residency_transition list \<Rightarrow> bool" where
  "fence_effect m m' vs \<longleftrightarrow>
     vs = [] \<and> (\<forall>t n. model_fence m' t n = model_fence m t n) \<or>
     (\<exists>v. vs = [v] \<and> model_fence m (rt_TargetID v) (rt_Model v) < rt_FencingToken v \<and>
        (\<forall>t n. model_fence m' t n = (if rt_TargetID v = t \<and> rt_Model v = n then rt_FencingToken v else model_fence m t n)))"

lemma fence_effect_refl: "fence_effect m m []"
  by (simp add: fence_effect_def)

lemma fence_effect_new:
  assumes "transition_inv m" "allocate_fence m t = Inr a" "map_of (transitions m) (rt_ID t) = None"
    and "rt_ID v = rt_ID a" "rt_TargetID v = rt_TargetID a" "rt_Model v = rt_Model a" "rt_FencingToken v = rt_FencingToken a"
  shows "fence_effect m (store_transition m v) [v]"
proof -
  note a = allocate_fence_identity [OF assms(2)] allocate_fenceD(2) [OF assms(2)]
  have "model_fence m (rt_TargetID v) (rt_Model v) < rt_FencingToken v" "map_of (transitions m) (rt_ID v) = None"
    using assms(3-7) a by simp_all
  then show ?thesis using model_fence_new [OF assms(1)] by (simp add: fence_effect_def)
qed

lemma created_rows_cases: "created_rows r = [] \<and> (\<forall>v. r \<noteq> Inr (v, True)) \<or> (\<exists>v. r = Inr (v, True) \<and> created_rows r = [v])"
  by (cases r rule: created_rows.cases) auto

lemma transition_exec_fences:
  assumes inv: "transition_inv m" and d: "draws_fence x" and e: "transition_exec x m = (m', vs)"
  shows "fence_effect m m' vs"
proof (cases x)
  case (Allocate t)
  obtain r where r: "AllocateResidencyTransition m t = (m', r)" "vs = created_rows r"
    using e Allocate by (auto split: prod.splits)
  from created_rows_cases [of r] show ?thesis
  proof (elim disjE conjE exE)
    assume "created_rows r = []" "\<forall>v. r \<noteq> Inr (v, True)"
    then show ?thesis using allocate_oldD r fence_effect_refl by metis
  next
    fix v assume "r = Inr (v, True)" "created_rows r = [v]"
    then show ?thesis
      using allocate_newD [of m t m' v] r fence_effect_new [OF inv] replay_None by metis
  qed
next
  case (Allocate_Leased now t l)
  obtain r where r: "AllocateResidencyTransitionWithLease now m t l = (m', r)" "vs = created_rows r"
    using e Allocate_Leased by (auto split: prod.splits)
  from created_rows_cases [of r] show ?thesis
  proof (elim disjE conjE exE)
    assume "created_rows r = []" "\<forall>v. r \<noteq> Inr (v, True)"
    then show ?thesis using lease_allocate_oldD r fence_effect_refl by metis
  next
    fix v assume v: "r = Inr (v, True)" "created_rows r = [v]"
    from r(1) [unfolded v(1)] show ?thesis
      by (rule lease_allocate_newD) (use r(2) v(2) fence_effect_new [OF inv] in simp)
  qed
next
  case (Swap_Transition c s f t)
  obtain r where r: "CompareAndSwapResidencyTransition c s f m t = (m', r)" "vs = []"
    using e Swap_Transition by (auto simp: prod_eq_iff)
  show ?thesis
  proof (cases r)
    case (Inl err)
    then have "m' = m" using r swap_transition_errD by blast
    then show ?thesis using r(2) fence_effect_refl by simp
  next
    case (Inr v)
    with r have "CompareAndSwapResidencyTransition c s f m t = (m', Inr v)" by simp
    then obtain p where p: "map_of (transitions m) (rt_ID t) = Some p" "same_canonical p t" "rt_FencingToken p = rt_FencingToken t"
      "v = t\<lparr>rt_Revision := c + 1\<rparr>" "m' = m\<lparr>transitions := mput (rt_ID t) v (transitions m)\<rparr>"
      by (rule swap_transition_okD) simp
    have "set (fences_of m' a b) = set (fences_of m a b)" for a b
      using fences_of_replace [OF inv p(1), of v] p(3-5) canonicalD [OF p(2)] by auto
    then have "model_fence m' a b = model_fence m a b" for a b by (rule model_fence_cong)
    then show ?thesis using r(2) by (simp add: fence_effect_def)
  qed
qed (use d in simp_all)

lemma transition_exec_inv:
  assumes inv: "transition_inv m" and e: "transition_exec x m = (m', vs)"
  shows "transition_inv m'"
proof (cases x)
  case (Allocate t)
  obtain r where r: "AllocateResidencyTransition m t = (m', r)" using e Allocate by (auto split: prod.splits)
  show ?thesis
  proof (cases "\<exists>v. r = Inr (v, True)")
    case True
    then show ?thesis using r allocate_newD(4) transition_inv_store [OF inv] by blast
  next
    case False
    then show ?thesis using r allocate_oldD inv by blast
  qed
next
  case (Allocate_Leased now t l)
  obtain r where r: "AllocateResidencyTransitionWithLease now m t l = (m', r)"
    using e Allocate_Leased by (auto split: prod.splits)
  show ?thesis
  proof (cases "\<exists>v. r = Inr (v, True)")
    case True
    then show ?thesis using r by (auto elim!: lease_allocate_newD simp: transition_inv_store [OF inv])
  next
    case False
    then show ?thesis using r lease_allocate_oldD inv by blast
  qed
next
  case (Swap_Transition c s f t)
  obtain r where "CompareAndSwapResidencyTransition c s f m t = (m', r)"
    using e Swap_Transition by (auto simp: prod_eq_iff)
  then show ?thesis
    using inv by (cases r) (auto dest: swap_transition_errD elim!: swap_transition_okD intro: transition_inv_put)
next
  case (Create_Transition t)
  then show ?thesis
    using e inv transition_inv_store [OF inv]
    by (auto simp: CreateResidencyTransition_def split: prod.splits option.splits if_splits)
next
  case (Update_Transition t)
  obtain r where "UpdateResidencyTransition m t = (m', r)"
    using e Update_Transition by (auto simp: prod_eq_iff)
  then show ?thesis
    using inv by (cases r) (auto dest: update_transition_errD elim!: update_transition_okD intro: transition_inv_put)
qed

lemma transition_exec_frame:
  "fst (transition_exec x m) = m\<lparr>transitions := transitions (fst (transition_exec x m)),
     transitionKeys := transitionKeys (fst (transition_exec x m))\<rparr>"
proof (cases x)
  case (Allocate t)
  then show ?thesis
    by (auto simp: AllocateResidencyTransition_def store_transition_def split: prod.splits option.splits sum.splits)
next
  case (Allocate_Leased now t l)
  obtain m' r where r: "AllocateResidencyTransitionWithLease now m t l = (m', r)" by fastforce
  have "m' = m\<lparr>transitions := transitions m', transitionKeys := transitionKeys m'\<rparr>"
  proof (cases "\<exists>v. r = Inr (v, True)")
    case True
    then show ?thesis using r by (auto elim!: lease_allocate_newD simp: store_transition_def)
  next
    case False
    then have "m' = m" using r lease_allocate_oldD by blast
    then show ?thesis by simp
  qed
  then show ?thesis using r Allocate_Leased by simp
qed (auto simp: CreateResidencyTransition_def UpdateResidencyTransition_def CompareAndSwapResidencyTransition_def
    store_transition_def Let_def split: prod.splits option.splits)

lemma transition_run_fences:
  assumes "transition_inv m" and "\<forall>x\<in>set xs. draws_fence x" and "transition_run xs m = (m', vs)"
  shows "sorted_wrt (<) (model_fence m t n # map rt_FencingToken (filter (\<lambda>v. rt_TargetID v = t \<and> rt_Model v = n) vs))"
  using assms
proof (induction xs arbitrary: m m' vs)
  case (Cons x xs)
  obtain m1 v1 where x: "transition_exec x m = (m1, v1)" by fastforce
  obtain m2 v2 where xs: "transition_run xs m1 = (m2, v2)" by fastforce
  have vs: "vs = v1 @ v2" using Cons.prems(3) x xs by simp
  have ih: "sorted_wrt (<) (model_fence m1 t n # map rt_FencingToken (filter (\<lambda>v. rt_TargetID v = t \<and> rt_Model v = n) v2))"
    using Cons.IH [OF transition_exec_inv [OF Cons.prems(1) x] _ xs] Cons.prems(2) by simp
  have "fence_effect m m1 v1" using transition_exec_fences [OF Cons.prems(1) _ x] Cons.prems(2) by simp
  then show ?case
    unfolding fence_effect_def
  proof (elim disjE conjE exE)
    assume "v1 = []" "\<forall>t n. model_fence m1 t n = model_fence m t n"
    then show ?thesis using ih vs by simp
  next
    fix v
    assume v: "v1 = [v]" "model_fence m (rt_TargetID v) (rt_Model v) < rt_FencingToken v"
      "\<forall>t n. model_fence m1 t n = (if rt_TargetID v = t \<and> rt_Model v = n then rt_FencingToken v else model_fence m t n)"
    show ?thesis
    proof (cases "rt_TargetID v = t \<and> rt_Model v = n")
      case True
      then show ?thesis using ih vs v by (auto intro: less_trans)
    next
      case False
      then have "model_fence m1 t n = model_fence m t n" using v(3) by metis
      then show ?thesis using ih vs v(1) False by auto
    qed
  qed
qed simp

lemma lease_requestD:
  assumes "validateResidencyTransitionLeaseOriginRequest (Some t) (Some l) = Inr resource"
  shows "rt_ID t \<noteq> ''''" "rt_IdempotencyKey t \<noteq> ''''" "resource = ls_AcceleratorID l" "rt_FencingToken t = ls_FencingToken l"
    "\<not> residencyTransitionHasLeaseOrigin t"
  using assms by (auto simp: validateResidencyTransitionLeaseOriginRequest_def Let_def split: if_splits)

lemma current_leaseD:
  assumes "validateCurrentResidencyLeaseOrigin c (Some l) now = None"
  obtains d where "c = Some d" "ls_AcceleratorID d = ls_AcceleratorID l" "ls_WorkloadID d = ls_WorkloadID l"
    "ls_FencingToken d = ls_FencingToken l" "now < ls_ExpiresAt d"
  using assms by (cases c) (auto simp: validateCurrentResidencyLeaseOrigin_def split: if_splits)

section \<open>Lease origins\<close>

text \<open>A row that carried its origin and fence before, and one that is issued under a live lease.\<close>

definition origin_kept :: "memory_store \<Rightarrow> string \<Rightarrow> residency_transition \<Rightarrow> bool" where
  "origin_kept m i q \<longleftrightarrow> (\<exists>p. map_of (transitions m) i = Some p \<and> sameResidencyTransitionLeaseOrigin p q \<and>
     rt_FencingToken p = rt_FencingToken q)"

definition origin_issued :: "time \<Rightarrow> memory_store \<Rightarrow> string \<Rightarrow> residency_transition \<Rightarrow> bool" where
  "origin_issued now m i q \<longleftrightarrow> map_of (transitions m) i = None \<and>
     (\<exists>c. map_of (leases m) (rt_LeaseOriginAcceleratorID q) = Some c \<and> ls_WorkloadID c = rt_LeaseOriginWorkloadID q \<and>
        ls_FencingToken c = rt_LeaseOriginFencingToken q \<and> now < ls_ExpiresAt c \<and>
        rt_LeaseOriginFencingToken q \<le> rt_FencingToken q)"

lemma origin_kept_same: "map_of (transitions m) i = Some q \<Longrightarrow> origin_kept m i q"
  by (simp add: origin_kept_def sameResidencyTransitionLeaseOrigin_def)

lemma unleased_origin:
  assumes "m' = store_transition m v" "\<not> residencyTransitionHasLeaseOrigin v"
    and "map_of (transitions m') i = Some q" "residencyTransitionHasLeaseOrigin q"
  shows "origin_kept m i q"
  using assms by (auto simp: store_transition_def intro: origin_kept_same split: if_splits)

lemma allocate_origin:
  assumes "AllocateResidencyTransition m t = (m', r)" "map_of (transitions m') i = Some q" "residencyTransitionHasLeaseOrigin q"
  shows "origin_kept m i q"
proof (cases "\<exists>v. r = Inr (v, True)")
  case True
  then obtain v where v: "\<not> residencyTransitionHasLeaseOrigin t" "allocate_fence m t = Inr v" "m' = store_transition m v"
    using assms(1) allocate_newD by blast
  then show ?thesis using unleased_origin assms(2,3) allocate_fence_identity(7) by blast
next
  case False
  then have "m' = m" using assms(1) allocate_oldD by blast
  then show ?thesis using assms(2) origin_kept_same by simp
qed

lemma create_transition_origin:
  assumes "CreateResidencyTransition m t = (m', r)" "map_of (transitions m') i = Some q" "residencyTransitionHasLeaseOrigin q"
  shows "origin_kept m i q"
proof (cases "m' = m")
  case False
  then have "\<not> residencyTransitionHasLeaseOrigin t" "m' = store_transition m t"
    using assms(1) by (auto simp: CreateResidencyTransition_def split: option.splits if_splits)
  then show ?thesis using unleased_origin assms(2,3) by blast
qed (use assms origin_kept_same in simp)

lemma leased_origin:
  assumes "AllocateResidencyTransitionWithLease now m t l = (m', r)" "map_of (transitions m') i = Some q"
  shows "origin_kept m i q \<or> origin_issued now m i q"
proof (cases "\<exists>v. r = Inr (v, True)")
  case True
  then obtain v where "AllocateResidencyTransitionWithLease now m t l = (m', Inr (v, True))" using assms(1) by blast
  then show ?thesis
  proof (rule lease_allocate_newD)
    fix t' l' resource a
    assume v: "validateResidencyTransitionLeaseOriginRequest (Some t') (Some l') = Inr resource"
      "validateCurrentResidencyLeaseOrigin (map_of (leases m) resource) (Some l') now = None"
      "map_of (transitions m) (rt_ID t') = None" "allocate_fence m t' = Inr a" "v = stamp_origin resource l' a"
      "m' = store_transition m v"
    have a: "rt_ID v = rt_ID t'" "ls_FencingToken l' \<le> rt_FencingToken v"
      using v(5) allocate_fence_identity(1) [OF v(4)] allocate_fenceD(1) [OF v(4)] lease_requestD(4) [OF v(1)] by simp_all
    show ?thesis
    proof (cases "i = rt_ID v")
      case True
      then have "q = v" using assms(2) v(6) by (simp add: store_transition_def)
      with v(2) show ?thesis
        using True v(3,5) a by (auto elim!: current_leaseD simp: origin_issued_def stamp_origin_def)
    next
      case False
      then show ?thesis using assms(2) v(6) by (simp add: store_transition_def origin_kept_same)
    qed
  qed
next
  case False
  then have "m' = m" using assms(1) lease_allocate_oldD by blast
  then show ?thesis using assms(2) origin_kept_same by simp
qed

lemma swap_origin:
  assumes "CompareAndSwapResidencyTransition e s f m t = (m', r)" "map_of (transitions m') i = Some q"
  shows "origin_kept m i q"
proof (cases r)
  case (Inl x)
  then show ?thesis using assms swap_transition_errD origin_kept_same by blast
next
  case (Inr v)
  with assms(1) have "CompareAndSwapResidencyTransition e s f m t = (m', Inr v)" by simp
  then show ?thesis
    by (rule swap_transition_okD)
      (use assms(2) in \<open>auto simp: origin_kept_def sameResidencyTransitionLeaseOrigin_def split: if_splits\<close>)
qed

lemma update_origin:
  assumes "UpdateResidencyTransition m t = (m', r)" "map_of (transitions m') i = Some q" "residencyTransitionHasLeaseOrigin q"
    and valid: "\<forall>j p. map_of (transitions m) j = Some p \<longrightarrow> validateResidencyTransitionStoredOrigin p = None"
  shows "origin_kept m i q"
proof (cases r)
  case (Inl x)
  then show ?thesis using assms(1,2) update_transition_errD origin_kept_same by blast
next
  case (Inr v)
  with assms(1) have "UpdateResidencyTransition m t = (m', Inr v)" by simp
  then show ?thesis
  proof (rule update_transition_okD)
    fix p
    assume p: "map_of (transitions m) (rt_ID t) = Some p" "sameResidencyTransitionLeaseOrigin p t"
      "rt_LeaseOriginAllocated p \<longrightarrow> same_canonical p t \<and> rt_FencingToken p = rt_FencingToken t"
      "m' = m\<lparr>transitions := mput (rt_ID t) t (transitions m)\<rparr>"
    show ?thesis
    proof (cases "i = rt_ID t")
      case True
      then have "q = t" using assms(2) p(4) by simp
      then have "residencyTransitionHasLeaseOrigin p"
        using assms(3) p(2) by (simp add: residencyTransitionHasLeaseOrigin_def sameResidencyTransitionLeaseOrigin_def)
      then have "rt_LeaseOriginAllocated p"
        using valid p(1) by (auto simp: validateResidencyTransitionStoredOrigin_def split: if_splits)
      then show ?thesis using True \<open>q = t\<close> p(1-3) by (simp add: origin_kept_def)
    next
      case False
      then show ?thesis using assms(2) p(4) by (simp add: origin_kept_same)
    qed
  qed
qed

section \<open>Properties\<close>

definition zero_residency_transition :: residency_transition where
  "zero_residency_transition = \<lparr>
     rt_ID = '''', rt_IdempotencyKey = '''', rt_TargetID = '''', rt_AcceleratorID = '''',
     rt_Model = '''', rt_FromTier = '''', rt_ToTier = '''', rt_Reason = '''',
     rt_RequestedBy = '''', rt_WorkloadID = '''', rt_Status = '''', rt_Revision = 0,
     rt_TargetGeneration = 0, rt_ExecutionFingerprint = '''', rt_FencingToken = 0,
     rt_LeaseOriginAcceleratorID = '''', rt_LeaseOriginWorkloadID = '''',
     rt_LeaseOriginFencingToken = 0, rt_LeaseOriginAllocated = False, rt_Error = '''',
     rt_ObservedTier = '''', rt_WarmModelBytes = 0, rt_WarmModelBytesVerified = False,
     rt_RuntimeIdentity = '''', rt_CapabilityVersion = '''', rt_CapabilityRevision = '''',
     rt_ObservedFence = 0, rt_ProjectionRepairPending = False, rt_CreatedAt = 0,
     rt_StartedAt = None, rt_FinishedAt = None\<rparr>"


definition sample_transition :: "string \<Rightarrow> i64 \<Rightarrow> residency_transition" where
  "sample_transition i f = zero_residency_transition\<lparr>rt_ID := i, rt_IdempotencyKey := ''key-'' @ i, rt_TargetID := ''t'',
     rt_Model := ''m'', rt_AcceleratorID := ''g'', rt_Status := ResidencyTransitionPlanned, rt_FencingToken := f\<rparr>"

definition sample_transition_store :: memory_store where
  "sample_transition_store = NewMemoryStore\<lparr>leases := [(''g'', new_lease 0 ''g'' ''w'' 4 90)]\<rparr>"

lemma transition_inv_sample: "transition_inv sample_transition_store"
  by (simp add: transition_inv_def sample_transition_store_def NewMemoryStore_def)

text \<open>
  C5 The fences of residency transitions grow strictly per target and model: in any interleaving of
  plain allocations, leased allocations and compare-and-swaps, every transition that is created
  gets a fence above every fence its target and model ever had in the table, whatever fence the
  caller proposed, and the fences come out in increasing order.
\<close>

theorem transition_fences_increase:
  assumes "transition_inv m" and "\<forall>x\<in>set xs. draws_fence x" and "transition_run xs m = (m', vs)"
  shows "sorted_wrt (<) (MaxResidencyFencingToken m t n #
    map rt_FencingToken (filter (\<lambda>v. rt_TargetID v = t \<and> rt_Model v = n) vs))"
  unfolding max_fence_eq using transition_run_fences [OF assms] .

theorem transition_fences_increase_witness:
  "let xs = [Allocate (sample_transition ''a'' 9), Allocate_Leased 5 (Some (sample_transition ''b'' 4)) (Some (new_lease 0 ''g'' ''w'' 4 90)),
             Allocate (sample_transition ''c'' 0)]
   in map rt_FencingToken (snd (transition_run xs sample_transition_store)) = [9, 10, 11] \<and>
      sorted_wrt (<) (0 # map rt_FencingToken (filter (\<lambda>v. rt_TargetID v = ''t'' \<and> rt_Model v = ''m'')
        (snd (transition_run xs sample_transition_store))))"
proof -
  let ?xs = "[Allocate (sample_transition ''a'' 9), Allocate_Leased 5 (Some (sample_transition ''b'' 4)) (Some (new_lease 0 ''g'' ''w'' 4 90)),
             Allocate (sample_transition ''c'' 0)]"
  have v: "map rt_FencingToken (snd (transition_run ?xs sample_transition_store)) = [9, 10, 11]" by code_simp
  have z: "MaxResidencyFencingToken sample_transition_store ''t'' ''m'' = 0" by code_simp
  have d: "\<forall>x\<in>set ?xs. draws_fence x" by simp
  from transition_fences_increase [OF transition_inv_sample d surjective_pairing, of "''t''" "''m''"] v z
  show ?thesis unfolding Let_def by metis
qed

text \<open>
  C24 The lease origin of a transition cannot be forged. Whatever single operation runs, a stored row
  that carries an origin afterwards either carried the same origin, fence and canonical
  arguments before, or was created by that operation as a leased allocation while the
  accelerator was held, by exactly the workload and token it records, and not yet expired.
\<close>

theorem transition_origin_unforgeable:
  assumes "transition_exec x m = (m', vs)" and "map_of (transitions m') i = Some q" and "residencyTransitionHasLeaseOrigin q"
    and "\<forall>j p. map_of (transitions m) j = Some p \<longrightarrow> validateResidencyTransitionStoredOrigin p = None"
  shows "origin_kept m i q \<or> (\<exists>now t l. x = Allocate_Leased now t l \<and> origin_issued now m i q)"
proof (cases x)
  case (Allocate t)
  then show ?thesis using assms(1) allocate_origin [OF _ assms(2,3), of m t] by (auto split: prod.splits)
next
  case (Allocate_Leased now t l)
  then show ?thesis using assms(1) leased_origin [OF _ assms(2), of now m t l] by (auto split: prod.splits)
next
  case (Swap_Transition e s f t)
  then show ?thesis using assms(1) swap_origin [OF _ assms(2), of e s f m t] by (auto simp: prod_eq_iff)
next
  case (Create_Transition t)
  then show ?thesis using assms(1) create_transition_origin [OF _ assms(2,3), of m t] by (auto split: prod.splits)
next
  case (Update_Transition t)
  then show ?thesis using assms(1) update_origin [OF _ assms(2-4), of t] by (auto simp: prod_eq_iff)
qed

theorem transition_origin_unforgeable_witness:
  "let m = sample_transition_store; x = Allocate_Leased 5 (Some (sample_transition ''b'' 4)) (Some (new_lease 0 ''g'' ''w'' 4 90))
   in \<exists>q. map_of (transitions (fst (transition_exec x m))) ''b'' = Some q \<and> origin_issued 5 m ''b'' q"
proof -
  let ?m = sample_transition_store
  let ?l = "new_lease 0 ''g'' ''w'' 4 90"
  let ?x = "Allocate_Leased 5 (Some (sample_transition ''b'' 4)) (Some ?l)"
  let ?q = "stamp_origin ''g'' ?l ((sample_transition ''b'' 4)\<lparr>rt_Revision := 1\<rparr>)"
  have q: "map_of (transitions (fst (transition_exec ?x ?m))) ''b'' = Some ?q" by code_simp
  have o: "residencyTransitionHasLeaseOrigin ?q" by code_simp
  have none: "transitions ?m = []" by (simp add: sample_transition_store_def NewMemoryStore_def)
  have "origin_kept ?m ''b'' ?q \<or> (\<exists>now t l. ?x = Allocate_Leased now t l \<and> origin_issued now ?m ''b'' ?q)"
    by (rule transition_origin_unforgeable [OF surjective_pairing q o]) (simp add: none)
  then show ?thesis using q none by (auto simp: Let_def origin_kept_def)
qed

text \<open>
  C38 Repeating a plain allocation is a replay only if the caller proposed the fence that was issued.
  When the store raised the proposed fence (in particular for a proposal of zero), the same
  request sent again, with the same ID and idempotency key, is answered with a conflict instead
  of the row it created.
\<close>

theorem transition_allocate_replay:
  assumes "AllocateResidencyTransition m t = (m', Inr (v, True))" and "rt_ID t \<noteq> ''''"
  shows "AllocateResidencyTransition m' t =
    (m', if MaxResidencyFencingToken m (rt_TargetID t) (rt_Model t) < rt_FencingToken t then Inr (v, False)
         else Inl ErrResidencyTransitionConflict)"
proof -
  note d = allocate_newD [OF assms(1)]
  note a = allocate_fence_identity [OF d(3)]
  have origin: "validateResidencyTransitionStoredOrigin t = None"
    using d(1) by (simp add: validateResidencyTransitionStoredOrigin_def)
  have fence: "rt_FencingToken v = rt_FencingToken t \<longleftrightarrow> MaxResidencyFencingToken m (rt_TargetID t) (rt_Model t) < rt_FencingToken t"
    using allocate_fenceD(2,4) [OF d(3)] by (auto simp: max_fence_eq)
  have row: "mget_zero '''' (transitionKeys m') (rt_IdempotencyKey t) = rt_ID t" "map_of (transitions m') (rt_ID t) = Some v"
    using d(4) a(1,4) by (simp_all add: store_transition_def)
  have verdict: "verifyResidencyTransitionReplay (Some v) t =
      (if rt_FencingToken v = rt_FencingToken t then None else Some ErrResidencyTransitionConflict)"
    using a(5,6) by (auto simp: verifyResidencyTransitionReplay_def verifyResidencyTransitionCanonical_def
        same_canonical_def split: if_splits)
  have "transition_replay m' t = Some (if rt_FencingToken v = rt_FencingToken t then Inr (v, False) else Inl ErrResidencyTransitionConflict)"
    using assms(2) by (simp add: transition_replay_def row verdict)
  then show ?thesis
    using d(1) by (simp add: AllocateResidencyTransition_def origin fence)
qed

theorem transition_allocate_replay_witness:
  "let t = sample_transition ''a'' 0; m = fst (AllocateResidencyTransition NewMemoryStore t)
   in snd (AllocateResidencyTransition m t) = Inl ErrResidencyTransitionConflict"
proof -
  let ?t = "sample_transition ''a'' 0"
  let ?r = "AllocateResidencyTransition NewMemoryStore ?t"
  have r: "?r = (fst ?r, Inr (?t\<lparr>rt_Revision := 1, rt_FencingToken := 1\<rparr>, True))" by code_simp
  have i: "rt_ID ?t \<noteq> ''''" and z: "\<not> MaxResidencyFencingToken NewMemoryStore (rt_TargetID ?t) (rt_Model ?t) < rt_FencingToken ?t"
    by code_simp+
  show ?thesis using transition_allocate_replay [OF r i] z by (simp add: Let_def)
qed

text \<open>
  Repeating a leased allocation is a replay: as long as the lease is the current one and has not
  expired, the same request returns the row it created and changes nothing, even when the store
  raised the fence.
\<close>

theorem transition_leased_replay:
  assumes "AllocateResidencyTransitionWithLease now m (Some t) (Some l) = (m', Inr (v, True))"
    and "map_of (leases m) (ls_AcceleratorID l) = Some c" and "now' < ls_ExpiresAt c"
  shows "AllocateResidencyTransitionWithLease now' m' (Some t) (Some l) = (m', Inr (v, False))"
  using assms(1)
proof (rule lease_allocate_newD)
  fix t' l' resource a
  assume "Some t = Some t'" "Some l = Some l'"
    and v: "validateResidencyTransitionLeaseOriginRequest (Some t') (Some l') = Inr resource"
      "validateCurrentResidencyLeaseOrigin (map_of (leases m) resource) (Some l') now = None"
      "allocate_fence m t' = Inr a" "v = stamp_origin resource l' a" "m' = store_transition m v"
  then have [simp]: "t' = t" "l' = l" by simp_all
  note d = lease_requestD [OF v(1)] and a = allocate_fence_identity [OF v(3)]
  have current: "validateCurrentResidencyLeaseOrigin (map_of (leases m') resource) (Some l) now' = None"
    using v(2,5) assms(2,3) d(3)
    by (auto simp: validateCurrentResidencyLeaseOrigin_def store_transition_def split: if_splits)
  have row: "mget_zero '''' (transitionKeys m') (rt_IdempotencyKey t) = rt_ID t" "map_of (transitions m') (rt_ID t) = Some v"
    using v(4,5) a(1,4) by (simp_all add: store_transition_def)
  have "issued_under v resource l"
    using v(4) allocate_fenceD(1) [OF v(3)] d(4) by (simp add: issued_under_def stamp_origin_def)
  moreover have "verifyResidencyTransitionCanonical (Some v) t False = None"
    using a(5) v(4) by (simp add: same_canonical_def [symmetric])
  ultimately have "verifyResidencyTransitionLeaseReplay v t l = None"
    using v(1) by (simp add: verifyResidencyTransitionLeaseReplay_def)
  then show ?thesis
    using v(1) current d(1) by (simp add: AllocateResidencyTransitionWithLease_def row Let_def)
qed

theorem transition_leased_replay_witness:
  "let l = new_lease 0 ''g'' ''w'' 4 90; t = sample_transition ''b'' 4;
       r = AllocateResidencyTransitionWithLease 5 sample_transition_store (Some t) (Some l)
   in \<exists>v. snd r = Inr (v, True) \<and> AllocateResidencyTransitionWithLease 80 (fst r) (Some t) (Some l) = (fst r, Inr (v, False))"
proof -
  let ?l = "new_lease 0 ''g'' ''w'' 4 90" and ?t = "sample_transition ''b'' 4"
  let ?r = "AllocateResidencyTransitionWithLease 5 sample_transition_store (Some ?t) (Some ?l)"
  let ?v = "stamp_origin ''g'' ?l (?t\<lparr>rt_Revision := 1\<rparr>)"
  have r: "?r = (fst ?r, Inr (?v, True))"
    and l: "map_of (leases sample_transition_store) (ls_AcceleratorID ?l) = Some ?l" and e: "80 < ls_ExpiresAt ?l"
    by code_simp+
  have "snd ?r = Inr (?v, True)" by (metis r snd_conv)
  then show ?thesis using transition_leased_replay [OF r l e] by (auto simp: Let_def)
qed

end
