(* ===== verification/Node_Commands.thy ===== *)
theory Node_Commands
  imports Tables Store_State Hashing
begin

text \<open>
  Signed commands to nodes (\<open>internal/store/memory.go\<close>, validation in \<open>internal/store/store.go\<close>):
  idempotent creation, compare-and-swap on revision, attempts and uncertainty, promotion to an
  uncertain state and the recovery backoff. Arguments are JSON values whose encoding never
  fails. The lemmas show that what was signed never changes, that authoritative evidence
  survives recovery, and the closed form of the backoff.
\<close>

section \<open>Operations\<close>

definition verifyNodeCommandReplay :: "node_command option \<Rightarrow> node_command \<Rightarrow> error option" where
  "verifyNodeCommandReplay existing requested =
     (case existing of
        None \<Rightarrow> Some ErrNodeCommandConflict
      | Some c \<Rightarrow>
          if nc_NodeID c \<noteq> nc_NodeID requested \<or> nc_IdempotencyKey c \<noteq> nc_IdempotencyKey requested \<or>
             nc_Command c \<noteq> nc_Command requested
          then Some ErrNodeCommandConflict
          else if marshal (nc_Args c) \<noteq> marshal (nc_Args requested) then Some ErrNodeCommandConflict
          else None)"

definition verifyNodeCommandDelivery :: "node_command \<Rightarrow> node_command \<Rightarrow> error option" where
  "verifyNodeCommandDelivery existing requested =
     (case verifyNodeCommandReplay (Some existing) requested of
        Some err \<Rightarrow> Some err
      | None \<Rightarrow> if nc_Signature existing \<noteq> nc_Signature requested then Some ErrNodeCommandConflict else None)"

definition nodeCommandKey :: "node_command \<Rightarrow> string" where
  "nodeCommandKey c = nul_join (nc_NodeID c) (nc_IdempotencyKey c)"

definition CreateNodeCommand :: "memory_store \<Rightarrow> node_command \<Rightarrow> memory_store \<times> (error + node_command \<times> bool)" where
  "CreateNodeCommand m command =
     (let key = nodeCommandKey command; i = mget_zero '''' (nodeCommandKeys m) key;
          answer = (\<lambda>existing. case verifyNodeCommandReplay existing command of
             Some err \<Rightarrow> Inl err
           | None \<Rightarrow> (case existing of None \<Rightarrow> Inl Panic | Some c \<Rightarrow> Inr (c, False)))
      in if i \<noteq> '''' then (m, answer (map_of (nodeCommands m) i))
         else (case map_of (nodeCommands m) (nc_ID command) of
            Some c \<Rightarrow> (m, answer (Some c))
          | None \<Rightarrow>
              (let stored = (if nc_Revision command = 0 then command\<lparr>nc_Revision := 1\<rparr> else command)
               in (m\<lparr>nodeCommands := mput (nc_ID command) stored (nodeCommands m),
                     nodeCommandKeys := mput key (nc_ID command) (nodeCommandKeys m)\<rparr>, Inr (stored, True)))))"

definition UpdateNodeCommand :: "memory_store \<Rightarrow> node_command \<Rightarrow> memory_store \<times> (error + node_command)" where
  "UpdateNodeCommand m command =
     (case map_of (nodeCommands m) (nc_ID command) of
        None \<Rightarrow> (m, Inl ErrNotFound)
      | Some c \<Rightarrow> (m\<lparr>nodeCommands := mput (nc_ID command) command (nodeCommands m)\<rparr>, Inr command))"

definition CompareAndSwapNodeCommandRevision :: "u64 \<Rightarrow> int \<Rightarrow> bool \<Rightarrow> string list \<Rightarrow> memory_store \<Rightarrow> node_command \<Rightarrow>
    memory_store \<times> (error + node_command)" where
  "CompareAndSwapNodeCommandRevision expectedRevision expectedAttempts expectedUncertain expected m command =
     (case map_of (nodeCommands m) (nc_ID command) of
        None \<Rightarrow> (m, Inl ErrNotFound)
      | Some current \<Rightarrow>
          if \<not> list_ex (\<lambda>status. nc_Status current = status) expected \<or> nc_Revision current \<noteq> expectedRevision \<or>
             nc_Attempts current \<noteq> expectedAttempts \<or> nc_Uncertain current \<noteq> expectedUncertain
          then (m, Inl ErrNodeCommandConflict)
          else (case verifyNodeCommandDelivery current command of
             Some err \<Rightarrow> (m, Inl err)
           | None \<Rightarrow>
               (let stored = command\<lparr>nc_Revision := nc_Revision current + 1\<rparr>
                in (m\<lparr>nodeCommands := mput (nc_ID command) stored (nodeCommands m)\<rparr>, Inr stored))))"

text \<open>
  The variant without a revision reads the row under one lock and swaps under another: \<open>m0\<close> is the
  store at the read, \<open>m\<close> the store at the swap.
\<close>

definition CompareAndSwapNodeCommand :: "memory_store \<Rightarrow> int \<Rightarrow> string list \<Rightarrow> memory_store \<Rightarrow> node_command \<Rightarrow>
    memory_store \<times> (error + node_command)" where
  "CompareAndSwapNodeCommand m0 expectedAttempts expected m command =
     (case map_of (nodeCommands m0) (nc_ID command) of
        None \<Rightarrow> (m, Inl ErrNotFound)
      | Some current \<Rightarrow>
          CompareAndSwapNodeCommandRevision (nc_Revision current) expectedAttempts (nc_Uncertain current) expected m command)"

abbreviation millisecond :: duration where
  "millisecond \<equiv> 1000000"

abbreviation second :: duration where
  "second \<equiv> 1000000000"

fun doubled :: "nat \<Rightarrow> duration \<Rightarrow> duration" where
  "doubled 0 delay = delay"
| "doubled (Suc n) delay = doubled n (delay * 2)"

definition nodeCommandRecoveryBackoff :: "int \<Rightarrow> duration" where
  "nodeCommandRecoveryBackoff attempt =
     (let attempt = (if attempt < 1 then 1 else attempt);
          attempt = (if attempt > 9 then 9 else attempt);
          delay = doubled (nat (attempt - 1)) (100 * millisecond)
      in if delay > 5 * second then 5 * second else delay)"

definition AdvanceNodeCommandRecovery :: "error option \<Rightarrow> time \<Rightarrow> memory_store \<Rightarrow> string \<Rightarrow>
    memory_store \<times> (error + node_command)" where
  "AdvanceNodeCommandRecovery ctxErr now m i =
     (case ctxErr of
        Some err \<Rightarrow> (m, Inl err)
      | None \<Rightarrow>
     (case map_of (nodeCommands m) i of
        None \<Rightarrow> (m, Inl ErrNotFound)
      | Some current \<Rightarrow>
          if \<not> nc_Uncertain current \<or> nc_EvidenceKind current = ''authoritative_observation'' then (m, Inr current)
          else (let attempts = wrap_i64 (nc_RecoveryAttempts current + 1);
                    updated = current\<lparr>nc_RecoveryAttempts := attempts,
                      nc_RecoveryNextAt := Some (now + nodeCommandRecoveryBackoff attempts),
                      nc_UpdatedAt := now, nc_Revision := nc_Revision current + 1\<rparr>
                in (m\<lparr>nodeCommands := mput i updated (nodeCommands m)\<rparr>, Inr updated))))"

definition PromoteNodeCommandUncertain :: "time \<Rightarrow> memory_store \<Rightarrow> string \<Rightarrow> string \<Rightarrow> string \<Rightarrow> string \<Rightarrow>
    memory_store \<times> (error + node_command)" where
  "PromoteNodeCommandUncertain now m i nodeID result commandError =
     (case map_of (nodeCommands m) i of
        None \<Rightarrow> (m, Inl ErrNotFound)
      | Some current \<Rightarrow>
          if nc_NodeID current \<noteq> nodeID then (m, Inl ErrNotFound)
          else if \<not> nc_Uncertain current \<and> (nc_Status current = NodeCommandSucceeded \<or> nc_Status current = NodeCommandFailed) \<and>
                  nc_EvidenceKind current = ''authoritative_observation''
          then (m, Inl ErrNodeCommandConflict)
          else (let updated = current\<lparr>nc_Status := NodeCommandSent, nc_Uncertain := True, nc_Result := result,
                      nc_Error := commandError, nc_UpdatedAt := now, nc_Revision := nc_Revision current + 1\<rparr>
                in (m\<lparr>nodeCommands := mput i updated (nodeCommands m)\<rparr>, Inr updated)))"

definition ListNodeCommandRecovery :: "memory_store \<Rightarrow> string \<Rightarrow> string \<Rightarrow> node_command list" where
  "ListNodeCommandRecovery m nodeID reconcilesCommandID =
     oldest_first nc_CreatedAt
       (filter (\<lambda>c. (nodeID = '''' \<or> nc_NodeID c = nodeID) \<and>
                    (reconcilesCommandID = '''' \<or> nc_ReconcilesCommandID c = reconcilesCommandID))
         (mvalues (nodeCommands m)))"

definition GetNodeCommand :: "memory_store \<Rightarrow> string \<Rightarrow> error + node_command" where
  "GetNodeCommand m i = (case map_of (nodeCommands m) i of None \<Rightarrow> Inl ErrNotFound | Some c \<Rightarrow> Inr c)"

definition ListNodeCommands :: "memory_store \<Rightarrow> string \<Rightarrow> int \<Rightarrow> node_command list" where
  "ListNodeCommands m nodeID limit =
     take (page_limit limit)
       (newest_first nc_CreatedAt (filter (\<lambda>c. nodeID = '''' \<or> nc_NodeID c = nodeID) (mvalues (nodeCommands m))))"

section \<open>Rows under the operations\<close>

text \<open>
  The revision-checked operations as values; the swap that reads first is a revision swap with
  the revision it read.
\<close>

datatype command_op =
    Issue node_command
  | Swap_Command u64 int bool "string list" node_command
  | Advance "error option" time string
  | Promote time string string string string

fun command_exec :: "command_op \<Rightarrow> memory_store \<Rightarrow> memory_store" where
  "command_exec (Issue c) m = fst (CreateNodeCommand m c)"
| "command_exec (Swap_Command e a u ex c) m = fst (CompareAndSwapNodeCommandRevision e a u ex m c)"
| "command_exec (Advance ctx now i) m = fst (AdvanceNodeCommandRecovery ctx now m i)"
| "command_exec (Promote now i n r err) m = fst (PromoteNodeCommandUncertain now m i n r err)"

definition same_signed :: "node_command \<Rightarrow> node_command \<Rightarrow> bool" where
  "same_signed c d \<longleftrightarrow> nc_NodeID c = nc_NodeID d \<and> nc_IdempotencyKey c = nc_IdempotencyKey d \<and>
     nc_Command c = nc_Command d \<and> marshal (nc_Args c) = marshal (nc_Args d) \<and> nc_Signature c = nc_Signature d"

lemma same_signed_refl [simp]: "same_signed c c"
  by (simp add: same_signed_def)

lemma same_signed_trans: "same_signed c d \<Longrightarrow> same_signed d e \<Longrightarrow> same_signed c e"
  by (simp add: same_signed_def)

lemma delivery_ok: "verifyNodeCommandDelivery c d = None \<longleftrightarrow> same_signed c d"
  by (auto simp: verifyNodeCommandDelivery_def verifyNodeCommandReplay_def same_signed_def split: option.splits)

lemma create_command_newD:
  assumes "CreateNodeCommand m c = (m', Inr (v, True))"
  shows "map_of (nodeCommands m) (nc_ID c) = None" "mget_zero '''' (nodeCommandKeys m) (nodeCommandKey c) = ''''"
    "v = (if nc_Revision c = 0 then c\<lparr>nc_Revision := 1\<rparr> else c)"
    "m' = m\<lparr>nodeCommands := mput (nc_ID c) v (nodeCommands m), nodeCommandKeys := mput (nodeCommandKey c) (nc_ID c) (nodeCommandKeys m)\<rparr>"
  using assms by (auto simp: CreateNodeCommand_def Let_def split: option.splits if_splits)

lemma create_command_oldD:
  assumes "CreateNodeCommand m c = (m', r)" and "\<And>v. r \<noteq> Inr (v, True)"
  shows "m' = m" and "r = Inr (v, False) \<Longrightarrow> \<exists>i. map_of (nodeCommands m) i = Some v"
  using assms by (auto simp: CreateNodeCommand_def Let_def split: option.splits if_splits)

lemma swap_command_okD:
  assumes "CompareAndSwapNodeCommandRevision e a u ex m c = (m', Inr v)"
  obtains current where "map_of (nodeCommands m) (nc_ID c) = Some current" "nc_Revision current = e"
    "nc_Attempts current = a" "nc_Uncertain current = u" "nc_Status current \<in> set ex" "same_signed current c"
    "v = c\<lparr>nc_Revision := e + 1\<rparr>" "m' = m\<lparr>nodeCommands := mput (nc_ID c) v (nodeCommands m)\<rparr>"
  using assms unfolding CompareAndSwapNodeCommandRevision_def Let_def
  by (cases "map_of (nodeCommands m) (nc_ID c)")
    (auto simp: list_ex_iff delivery_ok split: if_splits option.splits)

lemma swap_command_errD: "CompareAndSwapNodeCommandRevision e a u ex m c = (m', Inl x) \<Longrightarrow> m' = m"
  by (auto simp: CompareAndSwapNodeCommandRevision_def Let_def split: option.splits if_splits)

interpretation command_cas: cas_row "\<lambda>m. map_of (nodeCommands m)" nc_Revision "\<lambda>(a, u, ex, c). nc_ID c"
  "\<lambda>e m (a, u, ex, c). CompareAndSwapNodeCommandRevision e a u ex m c"
proof
  fix e m x m' v
  assume "(case x of (a, u, ex, c) \<Rightarrow> CompareAndSwapNodeCommandRevision e a u ex m c) = (m', Inr v)"
  then show "(\<exists>old. map_of (nodeCommands m) (case x of (a, u, ex, c) \<Rightarrow> nc_ID c) = Some old \<and> nc_Revision old = e) \<and>
      nc_Revision v = e + 1 \<and> map_of (nodeCommands m') = (map_of (nodeCommands m))(case x of (a, u, ex, c) \<Rightarrow> nc_ID c \<mapsto> v)"
    by (cases x) (auto elim!: swap_command_okD)
qed (auto dest: swap_command_errD)

interpretation command_create: idempotent_create "\<lambda>m. map_of (nodeCommands m)" nc_ID "\<lambda>_ :: unit. CreateNodeCommand"
proof
  fix m c m' v
  assume a: "CreateNodeCommand m c = (m', Inr (v, True))"
  note d = create_command_newD [OF a]
  show "map_of (nodeCommands m) (nc_ID v) = None \<and> map_of (nodeCommands m') = (map_of (nodeCommands m))(nc_ID v \<mapsto> v)"
    using d by simp
  have "verifyNodeCommandReplay (Some v) c = None" using d(3) by (simp add: verifyNodeCommandReplay_def)
  then show "CreateNodeCommand m' c = (m', Inr (v, False))"
    using d(4) by (simp add: CreateNodeCommand_def Let_def)
next
  fix m c m' v
  assume "CreateNodeCommand m c = (m', Inr (v, False))"
  from create_command_oldD [OF this] show "map_of (nodeCommands m') = map_of (nodeCommands m) \<and> (\<exists>k. map_of (nodeCommands m) k = Some v)"
    by auto
qed (use create_command_oldD in blast)

definition command_evolves :: "node_command \<Rightarrow> node_command \<Rightarrow> bool" where
  "command_evolves c d \<longleftrightarrow> same_signed c d \<and> (d = c \<or> nc_Revision d = nc_Revision c + 1)"

lemma create_command_keeps: "map_of (nodeCommands m) i = Some c \<Longrightarrow> map_of (nodeCommands (command_exec (Issue d) m)) i = Some c"
  using command_create.create_keeps_rows [of m d "fst (CreateNodeCommand m d)" "snd (CreateNodeCommand m d)" i c] by simp

lemma command_exec_evolves:
  assumes c: "map_of (nodeCommands m) i = Some c"
  shows "\<exists>d. map_of (nodeCommands (command_exec x m)) i = Some d \<and> command_evolves c d"
proof (cases x)
  case (Issue d)
  then show ?thesis using create_command_keeps [OF c] by (auto simp: command_evolves_def)
next
  case (Swap_Command e a u ex d)
  obtain m' r where r: "CompareAndSwapNodeCommandRevision e a u ex m d = (m', r)" by fastforce
  show ?thesis
  proof (cases r)
    case (Inl err)
    then have "m' = m" using r swap_command_errD by blast
    then show ?thesis using r c Swap_Command by (simp add: command_evolves_def)
  next
    case (Inr v)
    with r have "CompareAndSwapNodeCommandRevision e a u ex m d = (m', Inr v)" by simp
    then show ?thesis
      by (rule swap_command_okD) (use r c Swap_Command in \<open>auto simp: command_evolves_def same_signed_def\<close>)
  qed
next
  case (Advance ctx now j)
  then show ?thesis
    using c by (cases "map_of (nodeCommands m) j")
      (auto simp: AdvanceNodeCommandRecovery_def Let_def command_evolves_def same_signed_def split: option.splits)
next
  case (Promote now j n r err)
  then show ?thesis
    using c by (cases "map_of (nodeCommands m) j")
      (auto simp: PromoteNodeCommandUncertain_def Let_def command_evolves_def same_signed_def)
qed

definition authoritative_final :: "node_command \<Rightarrow> bool" where
  "authoritative_final c \<longleftrightarrow> \<not> nc_Uncertain c \<and> nc_Status c \<in> {NodeCommandSucceeded, NodeCommandFailed} \<and>
     nc_EvidenceKind c = ''authoritative_observation''"

fun recovers :: "command_op \<Rightarrow> bool" where
  "recovers (Swap_Command e a u ex c) = False"
| "recovers _ = True"

lemma recovery_keeps_final:
  assumes c: "map_of (nodeCommands m) i = Some c" and f: "authoritative_final c" and x: "recovers x"
  shows "map_of (nodeCommands (command_exec x m)) i = Some c"
proof (cases x)
  case (Issue d)
  then show ?thesis using create_command_keeps [OF c] by simp
next
  case (Advance ctx now j)
  then show ?thesis
    using c f by (cases "j = i")
      (auto simp: AdvanceNodeCommandRecovery_def authoritative_final_def Let_def split: option.splits)
next
  case (Promote now j n r err)
  then show ?thesis
    using c f by (cases "j = i")
      (auto simp: PromoteNodeCommandUncertain_def authoritative_final_def Let_def split: option.splits)
qed (use x in simp)

lemma command_exec_frame:
  "command_exec x m = m\<lparr>nodeCommands := nodeCommands (command_exec x m), nodeCommandKeys := nodeCommandKeys (command_exec x m)\<rparr>"
  by (cases x)
    (auto simp: CreateNodeCommand_def CompareAndSwapNodeCommandRevision_def AdvanceNodeCommandRecovery_def
      PromoteNodeCommandUncertain_def Let_def split: option.splits)

section \<open>Backoff\<close>

lemma doubled_power: "doubled n d = d * 2 ^ n"
  by (induction n arbitrary: d) simp_all

lemma backoff_form:
  "nodeCommandRecoveryBackoff a = min (5 * second) (100 * millisecond * 2 ^ (nat (min 9 (max 1 a) - 1)))"
proof -
  have "(if (if a < 1 then 1 else a) > 9 then 9 else (if a < 1 then 1 else a)) = min 9 (max 1 a)" by simp
  then show ?thesis unfolding nodeCommandRecoveryBackoff_def Let_def doubled_power by (simp only: min_def) simp
qed

section \<open>Properties\<close>

text \<open>
  C36 \<open>nodeCommandRecoveryBackoff\<close> is exponential backoff with a cap: for every \<open>int\<close>, however small
  or large, it is a tenth of a second doubled once per attempt after the first, at most five
  seconds, and it never decreases with the attempt.
\<close>

theorem recovery_backoff_closed_form:
  "nodeCommandRecoveryBackoff a = min (5 * second) (100 * millisecond * 2 ^ nat (max 0 (min 6 (a - 1)))) \<and>
   100 * millisecond \<le> nodeCommandRecoveryBackoff a \<and> nodeCommandRecoveryBackoff a \<le> nodeCommandRecoveryBackoff (a + 1)"
proof -
  have small: "a \<le> 1 \<or> a \<in> {2, 3, 4, 5, 6, 7, 8} \<or> 9 \<le> a" by auto
  have low: "nodeCommandRecoveryBackoff b = 100 * millisecond" if "b \<le> 1" for b
    using that by (simp add: backoff_form)
  have high: "nodeCommandRecoveryBackoff b = 5 * second" if "9 \<le> b" for b
    using that by (simp add: backoff_form)
  have a0: "a \<le> 1 \<Longrightarrow> a + 1 \<le> 1 \<or> a + 1 = 2" by auto
  show ?thesis
    using small low [of a] high [of a] low [of "a + 1"] high [of "a + 1"] a0 by (auto simp: backoff_form)
qed


definition zero_node_command :: node_command where
  "zero_node_command = \<lparr>
     nc_ID = '''', nc_Revision = 0, nc_IdempotencyKey = '''', nc_NodeID = '''',
     nc_Command = '''', nc_Args = JNull, nc_IssuedBy = '''', nc_Signature = '''',
     nc_Status = '''', nc_CreatedAt = 0, nc_ExpiresAt = 0, nc_SentAt = None,
     nc_CompletedAt = None, nc_Attempts = 0, nc_LastSentAt = None, nc_Result = '''',
     nc_Error = '''', nc_Uncertain = False, nc_EvidenceKind = '''',
     nc_ReconcilesCommandID = '''', nc_RecoveryAttempts = 0, nc_RecoveryNextAt = None,
     nc_UpdatedAt = 0\<rparr>"


definition sample_command :: node_command where
  "sample_command = zero_node_command\<lparr>nc_ID := ''c'', nc_NodeID := ''n'', nc_IdempotencyKey := ''k'', nc_Command := ''load'',
     nc_Signature := ''sig'', nc_Status := NodeCommandSucceeded, nc_EvidenceKind := ''authoritative_observation'', nc_Revision := 3\<rparr>"

definition sample_command_store :: memory_store where
  "sample_command_store = NewMemoryStore\<lparr>nodeCommands := [(''c'', sample_command)]\<rparr>"

lemma sample_command_row: "map_of (nodeCommands sample_command_store) ''c'' = Some sample_command"
  by (simp add: sample_command_store_def)


text \<open>
  C34 Recovery cannot undo authoritative evidence: once a command is certain and has succeeded or
  failed by authoritative observation, no sequence of repeated creations, recovery advances and
  promotions to uncertain changes its row.
\<close>

theorem authoritative_command_final:
  assumes "map_of (nodeCommands m) i = Some c" and "authoritative_final c" and "\<forall>x\<in>set xs. recovers x"
  shows "map_of (nodeCommands (fold command_exec xs m)) i = Some c"
  using assms(1,3)
proof (induction xs arbitrary: m)
  case (Cons x xs)
  then have "map_of (nodeCommands (command_exec x m)) i = Some c"
    using recovery_keeps_final [OF _ assms(2)] by simp
  then show ?case using Cons by simp
qed simp

theorem authoritative_command_final_witness:
  "map_of (nodeCommands (fold command_exec [Promote 5 ''c'' ''n'' '''' ''lost'', Advance None 6 ''c'', Issue sample_command]
     sample_command_store)) ''c'' = Some sample_command"
  by (rule authoritative_command_final [OF sample_command_row])
    (simp_all add: authoritative_final_def sample_command_def zero_node_command_def)

end
