(* ===== verification/Registry.thy ===== *)
theory Registry
  imports Tables Store_State Hashing "HOL-Library.Product_Lexorder" "HOL-Library.List_Lexorder" "HOL-Library.Char_ord"
begin

text \<open>
  The registries of \<open>internal/store/memory.go\<close> and \<open>node_enrollment.go\<close>: tables whose rows are
  written whole and read back, with the rules some of them add. A runtime profile keeps its
  meaning, a model capacity counts its revisions and refuses sizes that are negative or
  overflow, an interference profile only moves to a higher version, an enrollment token belongs
  to one node, audit events are kept once. The callbacks of \<open>UpdateObserved\<close> and
  \<open>UpdateDesired\<close> are arguments.
\<close>

section \<open>Model capacities\<close>

definition FootprintBytes :: "model_capacity \<Rightarrow> i64" where
  "FootprintBytes c =
     (if mc_ModelBytes c < 0 \<or> mc_ProfileBytes c < 0 then -1
      else if mc_ModelBytes c > max_i64 - mc_ProfileBytes c then -1
      else mc_ModelBytes c + mc_ProfileBytes c)"

definition modelCapacityKey :: "string \<Rightarrow> string \<Rightarrow> string \<Rightarrow> string" where
  "modelCapacityKey targetID model profileID = targetID @ NUL # model @ NUL # profileID"

definition modelCapacityID :: "string \<Rightarrow> string \<Rightarrow> string \<Rightarrow> string" where
  "modelCapacityID targetID model profileID = ''capacity-'' @ hex_encode (sha256 (modelCapacityKey targetID model profileID))"

definition UpsertModelCapacity :: "time \<Rightarrow> memory_store \<Rightarrow> model_capacity option \<Rightarrow> memory_store \<times> (error + model_capacity)" where
  "UpsertModelCapacity now m capacity =
     (case capacity of
        None \<Rightarrow> (m, Inl (Err ''model capacity requires target and model''))
      | Some c \<Rightarrow>
          if mc_TargetID c = '''' \<or> mc_Model c = '''' then (m, Inl (Err ''model capacity requires target and model''))
          else if FootprintBytes c < 0 \<or> mc_VRAMReserveBytes c < 0 \<or> mc_RuntimeHardCapBytes c < 0 \<or> mc_RAMBytes c < 0 \<or>
                  mc_RAMReserveBytes c < 0 \<or> mc_VRAMTotalBytes c < 0 \<or> mc_RAMTotalBytes c < 0
          then (m, Inl (Err ''model capacity bytes may not be negative or overflow''))
          else let key = modelCapacityKey (mc_TargetID c) (mc_Model c) (mc_ProfileID c);
                   c1 = (case map_of (modelCapacities m) key of
                           Some previous \<Rightarrow> c\<lparr>mc_Revision := mc_Revision previous + 1\<rparr>
                         | None \<Rightarrow> if mc_Revision c = 0 then c\<lparr>mc_Revision := 1\<rparr> else c);
                   c2 = (if mc_UpdatedAt c1 = 0 then c1\<lparr>mc_UpdatedAt := now\<rparr> else c1);
                   c3 = (if mc_ObservedAt c2 = 0 then c2\<lparr>mc_ObservedAt := mc_UpdatedAt c2\<rparr> else c2);
                   stored = c3\<lparr>mc_ID := modelCapacityID (mc_TargetID c3) (mc_Model c3) (mc_ProfileID c3)\<rparr>
               in (m\<lparr>modelCapacities := mput key stored (modelCapacities m)\<rparr>, Inr stored))"

definition found :: "'a option \<Rightarrow> error + 'a" where
  "found x = (case x of None \<Rightarrow> Inl ErrNotFound | Some v \<Rightarrow> Inr v)"

definition GetModelCapacity :: "memory_store \<Rightarrow> string \<Rightarrow> string \<Rightarrow> string \<Rightarrow> error + model_capacity" where
  "GetModelCapacity m targetID model profileID = found (map_of (modelCapacities m) (modelCapacityKey targetID model profileID))"

definition ListModelCapacities :: "memory_store \<Rightarrow> string \<Rightarrow> string \<Rightarrow> model_capacity list" where
  "ListModelCapacities m targetID model =
     sort_key (\<lambda>c. (mc_TargetID c, mc_Model c, mc_ProfileID c))
       (filter (\<lambda>c. \<not> (targetID \<noteq> '''' \<and> mc_TargetID c \<noteq> targetID \<or> model \<noteq> '''' \<and> mc_Model c \<noteq> model)) (mvalues (modelCapacities m)))"

section \<open>Runtime profiles\<close>

definition runtimeProfileKey :: "string \<Rightarrow> string \<Rightarrow> string" where
  "runtimeProfileKey profileID version = nul_join profileID version"

definition sameJSONSchemaMeaning :: "json \<Rightarrow> json \<Rightarrow> bool" where
  "sameJSONSchemaMeaning left right \<longleftrightarrow> marshal left = marshal right"

definition sameRuntimeProfileMeaning :: "runtime_profile \<Rightarrow> runtime_profile \<Rightarrow> bool" where
  "sameRuntimeProfileMeaning left right \<longleftrightarrow>
     rp_ProfileID left = rp_ProfileID right \<and> rp_Version left = rp_Version right \<and> rp_Digest left = rp_Digest right \<and>
     rp_CapabilityRevision left = rp_CapabilityRevision right \<and> rp_CapabilityDefinitionHash left = rp_CapabilityDefinitionHash right \<and>
     rp_Adapter left = rp_Adapter right \<and> rp_Model left = rp_Model right \<and> rp_Workflow left = rp_Workflow right \<and>
     rp_Modality left = rp_Modality right \<and> rp_ExecutionLocality left = rp_ExecutionLocality right \<and>
     rp_Operations left = rp_Operations right \<and> rp_Features left = rp_Features right \<and>
     rp_AcceptedArtifactTypes left = rp_AcceptedArtifactTypes right \<and> rp_ProducedArtifactTypes left = rp_ProducedArtifactTypes right \<and>
     rp_CompatibilityOperations left = rp_CompatibilityOperations right \<and>
     sameJSONSchemaMeaning (rp_InputSchema left) (rp_InputSchema right) \<and> sameJSONSchemaMeaning (rp_OutputSchema left) (rp_OutputSchema right)"

definition legacyRuntimeProfileMeaning :: "runtime_profile \<Rightarrow> runtime_profile \<Rightarrow> bool" where
  "legacyRuntimeProfileMeaning left right \<longleftrightarrow>
     rp_CapabilityDefinitionHash left = '''' \<and> rp_ProfileID left = rp_ProfileID right \<and> rp_Version left = rp_Version right \<and>
     rp_Digest left = rp_Digest right \<and> rp_Adapter left = rp_Adapter right \<and> rp_Model left = rp_Model right \<and>
     rp_Operations left = rp_Operations right \<and> rp_Features left = rp_Features right"

definition UpsertRuntimeProfile :: "memory_store \<Rightarrow> runtime_profile \<Rightarrow> memory_store \<times> (error + runtime_profile \<times> bool)" where
  "UpsertRuntimeProfile m profile =
     (let key = runtimeProfileKey (rp_ProfileID profile) (rp_Version profile) in
      case map_of (runtimeProfiles m) key of
        Some existing \<Rightarrow>
          if legacyRuntimeProfileMeaning existing profile
          then (m\<lparr>runtimeProfiles := mput key profile (runtimeProfiles m)\<rparr>, Inr (profile, False))
          else if \<not> sameRuntimeProfileMeaning existing profile
          then (m, Inl (Err ''runtime profile identity already exists with a different digest''))
          else (m, Inr (existing, False))
      | None \<Rightarrow> (m\<lparr>runtimeProfiles := mput key profile (runtimeProfiles m)\<rparr>, Inr (profile, True)))"

definition ListRuntimeProfiles :: "memory_store \<Rightarrow> runtime_profile list" where
  "ListRuntimeProfiles m = sort_key (\<lambda>p. (rp_ProfileID p, rp_Version p)) (mvalues (runtimeProfiles m))"

section \<open>Working sets, policies and sessions\<close>

definition workingSetKey :: "string \<Rightarrow> string \<Rightarrow> string \<Rightarrow> string" where
  "workingSetKey ownerID sessionID phaseID = ownerID @ NUL # sessionID @ NUL # phaseID"

definition UpsertWorkingSet :: "memory_store \<Rightarrow> working_set \<Rightarrow> memory_store \<times> (error + working_set)" where
  "UpsertWorkingSet m ws =
     (let key = workingSetKey (ws_OwnerID ws) (ws_SessionID ws) (ws_PhaseID ws);
          stored = (case map_of (workingSets m) key of Some existing \<Rightarrow> ws\<lparr>ws_CreatedAt := ws_CreatedAt existing\<rparr> | None \<Rightarrow> ws)
      in (m\<lparr>workingSets := mput key stored (workingSets m)\<rparr>, Inr stored))"

definition ReleaseWorkingSet :: "memory_store \<Rightarrow> string \<Rightarrow> string \<Rightarrow> string \<Rightarrow> time \<Rightarrow> memory_store \<times> (error + working_set)" where
  "ReleaseWorkingSet m ownerID sessionID phaseID releasedAt =
     (let key = workingSetKey ownerID sessionID phaseID in
      case map_of (workingSets m) key of
        None \<Rightarrow> (m, Inl ErrNotFound)
      | Some ws \<Rightarrow>
          let stored = ws\<lparr>ws_ReleasedAt := Some releasedAt, ws_UpdatedAt := releasedAt\<rparr>
          in (m\<lparr>workingSets := mput key stored (workingSets m)\<rparr>, Inr stored))"

definition ListWorkingSets :: "memory_store \<Rightarrow> string \<Rightarrow> string \<Rightarrow> bool \<Rightarrow> working_set list" where
  "ListWorkingSets m ownerID sessionID includeReleased =
     sort_key (\<lambda>ws. (ws_SessionID ws, ws_PhaseID ws))
       (filter (\<lambda>ws. \<not> (ownerID \<noteq> '''' \<and> ws_OwnerID ws \<noteq> ownerID \<or> sessionID \<noteq> '''' \<and> ws_SessionID ws \<noteq> sessionID \<or>
                        \<not> includeReleased \<and> ws_ReleasedAt ws \<noteq> None)) (mvalues (workingSets m)))"

definition UpsertTargetPolicyOverride :: "memory_store \<Rightarrow> target_policy_override \<Rightarrow> memory_store \<times> (error + target_policy_override)" where
  "UpsertTargetPolicyOverride m policy =
     (m\<lparr>targetPolicyOverrides := mput (po_TargetID policy) policy (targetPolicyOverrides m)\<rparr>, Inr policy)"

definition ListTargetPolicyOverrides :: "memory_store \<Rightarrow> target_policy_override list" where
  "ListTargetPolicyOverrides m = sort_key po_TargetID (mvalues (targetPolicyOverrides m))"

definition CreateBrowserSession :: "memory_store \<Rightarrow> browser_session \<Rightarrow> memory_store \<times> (error + unit)" where
  "CreateBrowserSession m session =
     (if map_of (browserSessions m) (bs_IDHash session) \<noteq> None then (m, Inl (Err ''browser session already exists''))
      else (m\<lparr>browserSessions := mput (bs_IDHash session) session (browserSessions m)\<rparr>, Inr ()))"

definition GetBrowserSession :: "memory_store \<Rightarrow> string \<Rightarrow> error + browser_session" where
  "GetBrowserSession m idHash = found (map_of (browserSessions m) idHash)"

definition DeleteBrowserSession :: "memory_store \<Rightarrow> string \<Rightarrow> memory_store \<times> (error + unit)" where
  "DeleteBrowserSession m idHash = (m\<lparr>browserSessions := mdel idHash (browserSessions m)\<rparr>, Inr ())"

section \<open>Nodes, engines and profiles\<close>

definition UpsertNode :: "time \<Rightarrow> memory_store \<Rightarrow> node \<Rightarrow> memory_store \<times> (error + node)" where
  "UpsertNode now m n =
     (let registered = (case map_of (nodes m) (nd_ID n) of None \<Rightarrow> now | Some existing \<Rightarrow> nd_RegisteredAt existing);
          stored = n\<lparr>nd_RegisteredAt := registered, nd_UpdatedAt := now\<rparr>
      in (m\<lparr>nodes := mput (nd_ID n) stored (nodes m)\<rparr>, Inr stored))"

definition GetNode :: "memory_store \<Rightarrow> string \<Rightarrow> error + node" where
  "GetNode m i = found (map_of (nodes m) i)"

definition ListNodes :: "memory_store \<Rightarrow> node list" where
  "ListNodes m = mvalues (nodes m)"

definition UpdateObserved :: "time \<Rightarrow> (observed \<times> accelerator list \<Rightarrow> observed \<times> accelerator list) \<Rightarrow> memory_store \<Rightarrow> string \<Rightarrow>
    memory_store \<times> (error + unit)" where
  "UpdateObserved now fn m i =
     (case map_of (nodes m) i of
        None \<Rightarrow> (m, Inl ErrNotFound)
      | Some n \<Rightarrow>
          (case fn (nd_Observed n, nd_Accelerators n) of
             (observed, accels) \<Rightarrow>
               (m\<lparr>nodes := mput i (n\<lparr>nd_Observed := observed, nd_Accelerators := accels, nd_UpdatedAt := now\<rparr>) (nodes m)\<rparr>, Inr ())))"

definition UpdateDesired :: "time \<Rightarrow> (desired \<times> string \<Rightarrow> desired \<times> string) \<Rightarrow> memory_store \<Rightarrow> string \<Rightarrow> memory_store \<times> (error + unit)" where
  "UpdateDesired now fn m i =
     (case map_of (nodes m) i of
        None \<Rightarrow> (m, Inl ErrNotFound)
      | Some n \<Rightarrow>
          (case fn (nd_Desired n, nd_SchedulingState n) of
             (desired, scheduling) \<Rightarrow>
               (m\<lparr>nodes := mput i (n\<lparr>nd_Desired := desired, nd_SchedulingState := scheduling, nd_UpdatedAt := now\<rparr>) (nodes m)\<rparr>, Inr ())))"

definition DeleteNode :: "memory_store \<Rightarrow> string \<Rightarrow> memory_store \<times> (error + unit)" where
  "DeleteNode m i =
     (if map_of (nodes m) i = None then (m, Inl ErrNotFound) else (m\<lparr>nodes := mdel i (nodes m)\<rparr>, Inr ()))"

definition UpsertEngine :: "memory_store \<Rightarrow> engine_instance \<Rightarrow> memory_store \<times> (error + engine_instance)" where
  "UpsertEngine m e = (m\<lparr>engines := mput (ei_ID e) e (engines m)\<rparr>, Inr e)"

definition ListEnginesForNode :: "memory_store \<Rightarrow> string \<Rightarrow> engine_instance list" where
  "ListEnginesForNode m nodeID = filter (\<lambda>e. ei_NodeID e = nodeID) (mvalues (engines m))"

definition DeleteEngine :: "memory_store \<Rightarrow> string \<Rightarrow> memory_store \<times> (error + unit)" where
  "DeleteEngine m i =
     (if map_of (engines m) i = None then (m, Inl ErrNotFound) else (m\<lparr>engines := mdel i (engines m)\<rparr>, Inr ()))"

definition SaveProfile :: "memory_store \<Rightarrow> string \<Rightarrow> performance_profile \<Rightarrow> memory_store \<times> (error + performance_profile)" where
  "SaveProfile m nodeID p = (m\<lparr>profiles := mput nodeID (mget_zero [] (profiles m) nodeID @ [p]) (profiles m)\<rparr>, Inr p)"

definition ListProfilesForNode :: "memory_store \<Rightarrow> string \<Rightarrow> performance_profile list" where
  "ListProfilesForNode m nodeID = mget_zero [] (profiles m) nodeID"

definition ListAllProfiles :: "memory_store \<Rightarrow> performance_profile list" where
  "ListAllProfiles m = concat (mvalues (profiles m))"

definition CreateNodeEnrollment :: "memory_store \<Rightarrow> node_enrollment \<Rightarrow> memory_store \<times> (error + unit)" where
  "CreateNodeEnrollment m value =
     (if map_of (nodeEnrollments m) (ne_NodeID value) \<noteq> None then (m, Inl ErrAlreadyExists)
      else if \<exists>existing\<in>set (mvalues (nodeEnrollments m)). ne_TokenHash existing = ne_TokenHash value then (m, Inl ErrAlreadyExists)
      else (m\<lparr>nodeEnrollments := mput (ne_NodeID value) value (nodeEnrollments m)\<rparr>, Inr ()))"

definition GetNodeEnrollmentByHash :: "memory_store \<Rightarrow> string \<Rightarrow> error + node_enrollment" where
  "GetNodeEnrollmentByHash m hash = found (find (\<lambda>v. ne_TokenHash v = hash) (mvalues (nodeEnrollments m)))"

definition GetNodeEnrollment :: "memory_store \<Rightarrow> string \<Rightarrow> error + node_enrollment" where
  "GetNodeEnrollment m nodeID = found (map_of (nodeEnrollments m) nodeID)"

definition ListNodeEnrollments :: "memory_store \<Rightarrow> node_enrollment list" where
  "ListNodeEnrollments m = sort_key ne_NodeID (mvalues (nodeEnrollments m))"

definition RevokeNodeEnrollment :: "memory_store \<Rightarrow> string \<Rightarrow> memory_store \<times> (error + unit)" where
  "RevokeNodeEnrollment m nodeID =
     (case map_of (nodeEnrollments m) nodeID of
        None \<Rightarrow> (m, Inl ErrNotFound)
      | Some value \<Rightarrow> (m\<lparr>nodeEnrollments := mput nodeID (value\<lparr>ne_Status := ''revoked''\<rparr>) (nodeEnrollments m)\<rparr>, Inr ()))"

section \<open>Records of events\<close>

definition or_else :: "string \<Rightarrow> string \<Rightarrow> string" where
  "or_else s t = (if s = '''' then t else s)"

definition SavePromptMapping :: "memory_store \<Rightarrow> prompt_mapping \<Rightarrow> memory_store \<times> (error + unit)" where
  "SavePromptMapping m mapping =
     (let cp = (case map_of (promptMappings m) (pm_PublicPromptID mapping) of
                  None \<Rightarrow> mapping
                | Some e \<Rightarrow> mapping\<lparr>pm_WorkloadID := or_else (pm_WorkloadID mapping) (pm_WorkloadID e),
                     pm_TargetID := or_else (pm_TargetID mapping) (pm_TargetID e),
                     pm_BackendPromptID := or_else (pm_BackendPromptID mapping) (pm_BackendPromptID e),
                     pm_ClientID := or_else (pm_ClientID mapping) (pm_ClientID e)\<rparr>)
      in (m\<lparr>promptMappings := mput (pm_PublicPromptID mapping) cp (promptMappings m)\<rparr>, Inr ()))"

definition GetPromptMapping :: "memory_store \<Rightarrow> string \<Rightarrow> error + prompt_mapping" where
  "GetPromptMapping m publicPromptID = found (map_of (promptMappings m) publicPromptID)"

definition AppendAuditEvent :: "memory_store \<Rightarrow> audit_event \<Rightarrow> memory_store \<times> (error + unit)" where
  "AppendAuditEvent m event =
     (if \<exists>existing\<in>set (auditEvents m). ae_ID existing = ae_ID event then (m, Inr ())
      else (m\<lparr>auditEvents := auditEvents m @ [event]\<rparr>, Inr ()))"

definition ListAuditEvents :: "memory_store \<Rightarrow> string \<Rightarrow> int \<Rightarrow> audit_event list" where
  "ListAuditEvents m ownerID limit =
     take (page_limit limit) (filter (\<lambda>e. \<not> (ownerID \<noteq> '''' \<and> ae_OwnerID e \<noteq> ownerID)) (rev (auditEvents m)))"

definition CreateNotification :: "memory_store \<Rightarrow> notification_delivery \<Rightarrow> memory_store \<times> (error + notification_delivery \<times> bool)" where
  "CreateNotification m delivery =
     (let i = mget_zero '''' (notificationKeys m) (nt_IdempotencyKey delivery) in
      if i \<noteq> '''' then (case map_of (notifications m) i of Some n \<Rightarrow> (m, Inr (n, False)) | None \<Rightarrow> (m, Inl Panic))
      else (case map_of (notifications m) (nt_ID delivery) of
              Some existing \<Rightarrow> (m, Inr (existing, False))
            | None \<Rightarrow> (m\<lparr>notifications := mput (nt_ID delivery) delivery (notifications m),
                         notificationKeys := mput (nt_IdempotencyKey delivery) (nt_ID delivery) (notificationKeys m)\<rparr>, Inr (delivery, True))))"

definition UpdateNotification :: "memory_store \<Rightarrow> notification_delivery \<Rightarrow> memory_store \<times> (error + notification_delivery)" where
  "UpdateNotification m delivery =
     (if map_of (notifications m) (nt_ID delivery) = None then (m, Inl ErrNotFound)
      else (m\<lparr>notifications := mput (nt_ID delivery) delivery (notifications m)\<rparr>, Inr delivery))"

definition ListPendingNotifications :: "memory_store \<Rightarrow> time \<Rightarrow> int \<Rightarrow> notification_delivery list" where
  "ListPendingNotifications m now limit =
     take (page_limit limit) (oldest_first nt_NextAttemptAt
       (filter (\<lambda>n. nt_DeliveredAt n = None \<and> nt_FailedAt n = None \<and> \<not> nt_NextAttemptAt n > now) (mvalues (notifications m))))"

definition ListNotifications :: "memory_store \<Rightarrow> string \<Rightarrow> int \<Rightarrow> notification_delivery list" where
  "ListNotifications m ownerID limit =
     take (page_limit limit) (newest_first nt_CreatedAt
       (filter (\<lambda>n. ownerID = '''' \<or> nt_OwnerID n = ownerID) (mvalues (notifications m))))"

section \<open>Plans, approvals and incidents\<close>

definition transformationApprovalKey :: "string \<Rightarrow> string \<Rightarrow> string" where
  "transformationApprovalKey workloadID planHash = workloadID @ ''::'' @ planHash"

definition CreateTransformationApproval :: "memory_store \<Rightarrow> transformation_approval \<Rightarrow> memory_store \<times> (error + transformation_approval \<times> bool)" where
  "CreateTransformationApproval m approval =
     (let key = transformationApprovalKey (ta_WorkloadID approval) (ta_PlanHash approval) in
      case map_of (transformApprovals m) key of
        Some existing \<Rightarrow> (m, Inr (existing, False))
      | None \<Rightarrow> (m\<lparr>transformApprovals := mput key approval (transformApprovals m)\<rparr>, Inr (approval, True)))"

definition GetTransformationApproval :: "memory_store \<Rightarrow> string \<Rightarrow> string \<Rightarrow> error + transformation_approval" where
  "GetTransformationApproval m workloadID planHash = found (map_of (transformApprovals m) (transformationApprovalKey workloadID planHash))"

definition ListTransformationApprovals :: "memory_store \<Rightarrow> string \<Rightarrow> transformation_approval list" where
  "ListTransformationApprovals m workloadID =
     newest_first ta_CreatedAt (filter (\<lambda>a. workloadID = '''' \<or> ta_WorkloadID a = workloadID) (mvalues (transformApprovals m)))"

definition SaveSchedulerLearningSample :: "memory_store \<Rightarrow> scheduler_learning_sample \<Rightarrow> memory_store \<times> (error + scheduler_learning_sample)" where
  "SaveSchedulerLearningSample m sample =
     (let s = (if sl_ID sample = 0 then sample\<lparr>sl_ID := int (length (learningSamples m)) + 1\<rparr> else sample)
      in (m\<lparr>learningSamples := learningSamples m @ [s]\<rparr>, Inr s))"

definition ListSchedulerLearningSamples :: "memory_store \<Rightarrow> string \<Rightarrow> int \<Rightarrow> scheduler_learning_sample list" where
  "ListSchedulerLearningSamples m acceleratorID limit =
     take (page_limit limit) (filter (\<lambda>s. acceleratorID = '''' \<or> sl_AcceleratorID s = acceleratorID) (rev (learningSamples m)))"

definition UpsertInterferenceProfile :: "memory_store \<Rightarrow> interference_profile \<Rightarrow> memory_store \<times> (error + interference_profile)" where
  "UpsertInterferenceProfile m profile =
     (case map_of (interferenceProfiles m) (ip_Key profile) of
        Some existing \<Rightarrow>
          if ip_Version profile \<le> ip_Version existing then (m, Inl ErrInterferenceProfileConflict)
          else (m\<lparr>interferenceProfiles := mput (ip_Key profile) profile (interferenceProfiles m)\<rparr>, Inr profile)
      | None \<Rightarrow> (m\<lparr>interferenceProfiles := mput (ip_Key profile) profile (interferenceProfiles m)\<rparr>, Inr profile))"

definition GetInterferenceProfile :: "memory_store \<Rightarrow> string \<Rightarrow> error + interference_profile" where
  "GetInterferenceProfile m key = found (map_of (interferenceProfiles m) key)"

definition ListInterferenceProfiles :: "memory_store \<Rightarrow> interference_profile list" where
  "ListInterferenceProfiles m = sort_key ip_Key (mvalues (interferenceProfiles m))"

definition CreateTransitionPlan :: "memory_store \<Rightarrow> transition_plan \<Rightarrow> memory_store \<times> (error + transition_plan)" where
  "CreateTransitionPlan m plan =
     (if map_of (transitionPlans m) (tp_ID plan) \<noteq> None then (m, Inl (Err ''store: transition plan already exists''))
      else (m\<lparr>transitionPlans := mput (tp_ID plan) plan (transitionPlans m)\<rparr>, Inr plan))"

definition UpdateTransitionPlan :: "memory_store \<Rightarrow> transition_plan \<Rightarrow> memory_store \<times> (error + transition_plan)" where
  "UpdateTransitionPlan m plan =
     (if map_of (transitionPlans m) (tp_ID plan) = None then (m, Inl ErrNotFound)
      else (m\<lparr>transitionPlans := mput (tp_ID plan) plan (transitionPlans m)\<rparr>, Inr plan))"

definition ListTransitionPlans :: "memory_store \<Rightarrow> string \<Rightarrow> int \<Rightarrow> transition_plan list" where
  "ListTransitionPlans m workloadID limit =
     take (page_limit limit) (newest_first tp_CreatedAt
       (filter (\<lambda>p. workloadID = '''' \<or> tp_WorkloadID p = workloadID \<or> tp_VictimWorkloadID p = workloadID) (mvalues (transitionPlans m))))"

definition CreateIncident :: "memory_store \<Rightarrow> incident \<Rightarrow> memory_store \<times> (error + incident)" where
  "CreateIncident m incident =
     (if map_of (incidents m) (inc_ID incident) \<noteq> None then (m, Inl (Err ''store: incident already exists''))
      else (m\<lparr>incidents := mput (inc_ID incident) incident (incidents m)\<rparr>, Inr incident))"

definition UpdateIncident :: "memory_store \<Rightarrow> incident \<Rightarrow> memory_store \<times> (error + incident)" where
  "UpdateIncident m incident =
     (if map_of (incidents m) (inc_ID incident) = None then (m, Inl ErrNotFound)
      else (m\<lparr>incidents := mput (inc_ID incident) incident (incidents m)\<rparr>, Inr incident))"

definition GetIncident :: "memory_store \<Rightarrow> string \<Rightarrow> error + incident" where
  "GetIncident m i = found (map_of (incidents m) i)"

definition ListIncidents :: "memory_store \<Rightarrow> string \<Rightarrow> incident list" where
  "ListIncidents m ownerID = newest_first inc_CreatedAt (filter (\<lambda>x. ownerID = '''' \<or> inc_OwnerID x = ownerID) (mvalues (incidents m)))"

section \<open>Runs\<close>

datatype registry_op =
    Enroll node_enrollment
  | Revoke string
  | Put_Profile runtime_profile
  | Put_Capacity time "model_capacity option"
  | Interference interference_profile

fun registry_exec :: "registry_op \<Rightarrow> memory_store \<Rightarrow> memory_store" where
  "registry_exec (Enroll v) m = fst (CreateNodeEnrollment m v)"
| "registry_exec (Revoke i) m = fst (RevokeNodeEnrollment m i)"
| "registry_exec (Put_Profile p) m = fst (UpsertRuntimeProfile m p)"
| "registry_exec (Put_Capacity now c) m = fst (UpsertModelCapacity now m c)"
| "registry_exec (Interference p) m = fst (UpsertInterferenceProfile m p)"

lemma registry_frame:
  "\<exists>e r c i. registry_exec x m = m\<lparr>nodeEnrollments := e, runtimeProfiles := r, modelCapacities := c, interferenceProfiles := i\<rparr>"
proof -
  have same: "m = m\<lparr>nodeEnrollments := nodeEnrollments m, runtimeProfiles := runtimeProfiles m,
      modelCapacities := modelCapacities m, interferenceProfiles := interferenceProfiles m\<rparr>" by simp
  have "registry_exec x m = m\<lparr>nodeEnrollments := nodeEnrollments (registry_exec x m), runtimeProfiles := runtimeProfiles (registry_exec x m),
      modelCapacities := modelCapacities (registry_exec x m), interferenceProfiles := interferenceProfiles (registry_exec x m)\<rparr>"
    by (cases x) (auto simp: CreateNodeEnrollment_def RevokeNodeEnrollment_def UpsertRuntimeProfile_def UpsertModelCapacity_def
        UpsertInterferenceProfile_def Let_def split: option.splits)
  then show ?thesis by blast
qed

subsection \<open>Enrollment\<close>

definition enrollment_inv :: "memory_store \<Rightarrow> bool" where
  "enrollment_inv m \<longleftrightarrow> gomap_wf (nodeEnrollments m) \<and>
     (\<forall>i v. map_of (nodeEnrollments m) i = Some v \<longrightarrow> ne_NodeID v = i) \<and>
     (\<forall>i j v w. map_of (nodeEnrollments m) i = Some v \<longrightarrow> map_of (nodeEnrollments m) j = Some w \<longrightarrow>
        ne_TokenHash v = ne_TokenHash w \<longrightarrow> i = j)"

lemma enrollment_inv_new: "enrollment_inv NewMemoryStore"
  by (simp add: enrollment_inv_def NewMemoryStore_def)

lemma enrollment_same: "nodeEnrollments m' = nodeEnrollments m \<Longrightarrow> enrollment_inv m' = enrollment_inv m"
  by (simp add: enrollment_inv_def)

lemma enrollments_kept:
  "nodeEnrollments (registry_exec (Put_Profile p) m) = nodeEnrollments m"
  "nodeEnrollments (registry_exec (Put_Capacity now c) m) = nodeEnrollments m"
  "nodeEnrollments (registry_exec (Interference q) m) = nodeEnrollments m"
  by (auto simp: UpsertRuntimeProfile_def UpsertModelCapacity_def UpsertInterferenceProfile_def Let_def split: option.splits)

lemma enroll_inv:
  assumes inv: "enrollment_inv m" shows "enrollment_inv (fst (CreateNodeEnrollment m v))"
proof (cases "map_of (nodeEnrollments m) (ne_NodeID v) \<noteq> None \<or> (\<exists>e\<in>set (mvalues (nodeEnrollments m)). ne_TokenHash e = ne_TokenHash v)")
  case True
  then show ?thesis using inv by (auto simp: CreateNodeEnrollment_def)
next
  case False
  then have new: "map_of (nodeEnrollments m) i = Some w \<Longrightarrow> ne_TokenHash w \<noteq> ne_TokenHash v" for i w
    using map_of_in_mvalues by fastforce
  have e: "nodeEnrollments (fst (CreateNodeEnrollment m v)) = mput (ne_NodeID v) v (nodeEnrollments m)"
    using False by (simp add: CreateNodeEnrollment_def)
  show ?thesis using inv new new [THEN not_sym] unfolding enrollment_inv_def e by (auto split: if_splits)
qed

lemma revoke_inv:
  assumes inv: "enrollment_inv m" shows "enrollment_inv (fst (RevokeNodeEnrollment m i))"
proof (cases "map_of (nodeEnrollments m) i")
  case None
  then show ?thesis using inv by (simp add: RevokeNodeEnrollment_def)
next
  case (Some v)
  then have e: "nodeEnrollments (fst (RevokeNodeEnrollment m i)) = mput i (v\<lparr>ne_Status := ''revoked''\<rparr>) (nodeEnrollments m)"
    by (simp add: RevokeNodeEnrollment_def)
  show ?thesis using inv Some unfolding enrollment_inv_def e by (auto split: if_splits)
qed

lemma registry_exec_enrollment: "enrollment_inv m \<Longrightarrow> enrollment_inv (registry_exec x m)"
  by (cases x) (simp_all only: registry_exec.simps(1,2) enroll_inv revoke_inv enrollment_same [OF enrollments_kept(1)]
      enrollment_same [OF enrollments_kept(2)] enrollment_same [OF enrollments_kept(3)])

lemma registry_run_enrollment: "enrollment_inv m \<Longrightarrow> enrollment_inv (fold registry_exec xs m)"
  by (induction xs arbitrary: m) (simp_all add: registry_exec_enrollment del: registry_exec.simps)

lemma by_hash_iff:
  assumes "enrollment_inv m"
  shows "GetNodeEnrollmentByHash m h = Inr v \<longleftrightarrow> map_of (nodeEnrollments m) (ne_NodeID v) = Some v \<and> ne_TokenHash v = h"
proof
  assume "GetNodeEnrollmentByHash m h = Inr v"
  then have "v \<in> set (mvalues (nodeEnrollments m))" "ne_TokenHash v = h"
    by (auto simp: GetNodeEnrollmentByHash_def found_def find_Some_iff split: option.splits)
  then show "map_of (nodeEnrollments m) (ne_NodeID v) = Some v \<and> ne_TokenHash v = h"
    using assms by (auto simp: enrollment_inv_def mvalues_iff)
next
  assume v: "map_of (nodeEnrollments m) (ne_NodeID v) = Some v \<and> ne_TokenHash v = h"
  then have mem: "v \<in> set (mvalues (nodeEnrollments m))" using map_of_in_mvalues by fast
  then obtain w where w: "find (\<lambda>x. ne_TokenHash x = h) (mvalues (nodeEnrollments m)) = Some w"
    using v by (cases "find (\<lambda>x. ne_TokenHash x = h) (mvalues (nodeEnrollments m))") (auto simp: find_None_iff)
  then have "w \<in> set (mvalues (nodeEnrollments m))" "ne_TokenHash w = h" by (auto simp: find_Some_iff)
  then have "w = v" using assms v unfolding enrollment_inv_def by (metis mvalues_iff option.inject)
  then show "GetNodeEnrollmentByHash m h = Inr v" using w by (simp add: GetNodeEnrollmentByHash_def found_def)
qed

lemma revoked_kept:
  assumes "map_of (nodeEnrollments m) i = Some v" and "ne_Status v = ''revoked''"
  shows "map_of (nodeEnrollments (registry_exec x m)) i = Some v"
proof (cases x)
  case (Enroll u)
  then show ?thesis using assms(1) by (auto simp: CreateNodeEnrollment_def)
next
  case (Revoke j)
  have "v\<lparr>ne_Status := ''revoked''\<rparr> = v" using assms(2) by (cases v) simp
  then show ?thesis using Revoke assms(1) by (auto simp: RevokeNodeEnrollment_def split: option.splits)
qed (use assms(1) enrollments_kept in simp_all)

lemma revoked_run:
  "map_of (nodeEnrollments m) i = Some v \<Longrightarrow> ne_Status v = ''revoked'' \<Longrightarrow> map_of (nodeEnrollments (fold registry_exec xs m)) i = Some v"
  by (induction xs arbitrary: m) (simp_all add: revoked_kept del: registry_exec.simps)

subsection \<open>Profiles, capacities and interference\<close>

lemma profile_kept:
  assumes "map_of (runtimeProfiles m) k = Some p" and "rp_CapabilityDefinitionHash p \<noteq> ''''"
  shows "map_of (runtimeProfiles (registry_exec x m)) k = Some p"
proof (cases x)
  case (Put_Profile q)
  show ?thesis
  proof (cases "k = runtimeProfileKey (rp_ProfileID q) (rp_Version q)")
    case True
    have "\<not> legacyRuntimeProfileMeaning p q" using assms(2) by (simp add: legacyRuntimeProfileMeaning_def)
    then show ?thesis using Put_Profile True assms(1) by (simp add: UpsertRuntimeProfile_def Let_def)
  next
    case False
    then show ?thesis using Put_Profile assms(1) by (simp add: UpsertRuntimeProfile_def Let_def split: option.splits)
  qed
qed (use assms(1) in \<open>auto simp: CreateNodeEnrollment_def RevokeNodeEnrollment_def UpsertModelCapacity_def
      UpsertInterferenceProfile_def Let_def split: option.splits\<close>)

lemma profile_run:
  "map_of (runtimeProfiles m) k = Some p \<Longrightarrow> rp_CapabilityDefinitionHash p \<noteq> '''' \<Longrightarrow>
   map_of (runtimeProfiles (fold registry_exec xs m)) k = Some p"
  by (induction xs arbitrary: m) (simp_all add: profile_kept del: registry_exec.simps)

text \<open>An accepted capacity has sizes whose sum is exact, and its revision is the next one.\<close>

lemma capacity_accepted:
  assumes "UpsertModelCapacity now m c = (m', Inr s)" and "\<forall>x. c = Some x \<longrightarrow> in_i64 (mc_ModelBytes x) \<and> in_i64 (mc_ProfileBytes x)"
  shows "FootprintBytes s = mc_ModelBytes s + mc_ProfileBytes s \<and> 0 \<le> FootprintBytes s \<and> in_i64 (FootprintBytes s) \<and>
    GetModelCapacity m' (mc_TargetID s) (mc_Model s) (mc_ProfileID s) = Inr s \<and>
    (\<forall>p. GetModelCapacity m (mc_TargetID s) (mc_Model s) (mc_ProfileID s) = Inr p \<longrightarrow> mc_Revision s = mc_Revision p + 1)"
proof -
  obtain x where x: "c = Some x" using assms(1) by (cases c) (auto simp: UpsertModelCapacity_def)
  have f: "0 \<le> FootprintBytes x" using assms(1) x by (auto simp: UpsertModelCapacity_def split: if_splits)
  have s: "mc_ModelBytes s = mc_ModelBytes x" "mc_ProfileBytes s = mc_ProfileBytes x"
    "mc_TargetID s = mc_TargetID x" "mc_Model s = mc_Model x" "mc_ProfileID s = mc_ProfileID x"
    "map_of (modelCapacities m') (modelCapacityKey (mc_TargetID x) (mc_Model x) (mc_ProfileID x)) = Some s"
    "\<And>p. map_of (modelCapacities m) (modelCapacityKey (mc_TargetID x) (mc_Model x) (mc_ProfileID x)) = Some p \<Longrightarrow> mc_Revision s = mc_Revision p + 1"
    using assms(1) x by (auto simp: UpsertModelCapacity_def Let_def split: if_splits option.splits)
  have "FootprintBytes s = FootprintBytes x" using s by (simp add: FootprintBytes_def)
  moreover have "FootprintBytes x = mc_ModelBytes x + mc_ProfileBytes x" "in_i64 (FootprintBytes x)"
    using f assms(2) x by (auto simp: FootprintBytes_def in_i64_def max_i64_def split: if_splits)
  ultimately show ?thesis using s f by (auto simp: GetModelCapacity_def found_def split: option.splits)
qed

section \<open>Properties\<close>

text \<open>
  C32 An enrollment token belongs to one node: after any sequence of registry operations, the row
  found by a token hash is the row of its node and no other node has that hash, so the order in
  which the map is searched does not matter. A revoked enrollment stays revoked whatever follows:
  its token never finds anything but the revoked row.
\<close>

theorem enrollment_token_unique:
  assumes "m = fold registry_exec xs NewMemoryStore" and "GetNodeEnrollmentByHash m h = Inr v"
  shows "GetNodeEnrollment m (ne_NodeID v) = Inr v \<and> ne_TokenHash v = h \<and>
    (\<forall>i w. map_of (nodeEnrollments m) i = Some w \<longrightarrow> ne_TokenHash w = h \<longrightarrow> i = ne_NodeID v \<and> w = v) \<and>
    (ne_Status v = ''revoked'' \<longrightarrow> GetNodeEnrollmentByHash (fold registry_exec ys m) h = Inr v)"
proof -
  have inv: "enrollment_inv m" unfolding assms(1) by (rule registry_run_enrollment [OF enrollment_inv_new])
  have v: "map_of (nodeEnrollments m) (ne_NodeID v) = Some v" "ne_TokenHash v = h" using by_hash_iff [OF inv] assms(2) by auto
  moreover have "i = ne_NodeID v \<and> w = v" if "map_of (nodeEnrollments m) i = Some w" "ne_TokenHash w = h" for i w
    using inv v that unfolding enrollment_inv_def by (metis option.inject)
  moreover have "GetNodeEnrollmentByHash (fold registry_exec ys m) h = Inr v" if "ne_Status v = ''revoked''"
    using by_hash_iff [OF registry_run_enrollment [OF inv]] revoked_run [OF v(1) that] v(2) by simp
  moreover have "GetNodeEnrollment m (ne_NodeID v) = Inr v" using v(1) by (simp add: GetNodeEnrollment_def found_def)
  ultimately show ?thesis by blast
qed

definition zero_node_enrollment :: node_enrollment where
  "zero_node_enrollment = \<lparr>
     ne_NodeID = '''', ne_NodeName = '''', ne_TokenHash = '''', ne_Status = '''',
     ne_CreatedAt = 0, ne_UpdatedAt = 0\<rparr>"


definition zero_runtime_profile :: runtime_profile where
  "zero_runtime_profile = \<lparr>
     rp_ProfileID = '''', rp_Version = '''', rp_Digest = '''', rp_CapabilityRevision = '''',
     rp_CapabilityDefinitionHash = '''', rp_Modality = '''', rp_ExecutionLocality = '''',
     rp_Operations = [], rp_Features = [], rp_InputSchema = JNull, rp_OutputSchema = JNull,
     rp_AcceptedArtifactTypes = [], rp_ProducedArtifactTypes = [],
     rp_CompatibilityOperations = [], rp_Availability = None, rp_Status = '''',
     rp_CalibrationStatus = '''', rp_Adapter = '''', rp_Model = '''', rp_Workflow = '''',
     rp_CreatedAt = 0\<rparr>"


definition sample_enrollment :: node_enrollment where
  "sample_enrollment = zero_node_enrollment\<lparr>ne_NodeID := ''n'', ne_TokenHash := ''h'', ne_Status := ''active''\<rparr>"

definition sample_enrolled :: memory_store where
  "sample_enrolled = fold registry_exec [Enroll sample_enrollment, Revoke ''n''] NewMemoryStore"

lemma sample_enrolled_found: "GetNodeEnrollmentByHash sample_enrolled ''h'' = Inr (sample_enrollment\<lparr>ne_Status := ''revoked''\<rparr>)"
  by (simp add: sample_enrolled_def sample_enrollment_def zero_node_enrollment_def NewMemoryStore_def CreateNodeEnrollment_def
      RevokeNodeEnrollment_def GetNodeEnrollmentByHash_def found_def mvalues_def)

theorem enrollment_token_unique_witness:
  "GetNodeEnrollmentByHash (fold registry_exec [Enroll (sample_enrollment\<lparr>ne_NodeID := ''x''\<rparr>)] sample_enrolled) ''h'' =
     Inr (sample_enrollment\<lparr>ne_Status := ''revoked''\<rparr>)"
  using enrollment_token_unique [OF sample_enrolled_def sample_enrolled_found, of "[Enroll (sample_enrollment\<lparr>ne_NodeID := ''x''\<rparr>)]"]
  by simp

text \<open>
  C33 A runtime profile that carries a capability definition hash is immutable: no sequence of
  registry operations changes its row, and a later registration under the same identity is
  accepted exactly when it has the same meaning.
\<close>

theorem runtime_profile_immutable:
  assumes "map_of (runtimeProfiles m) (runtimeProfileKey (rp_ProfileID q) (rp_Version q)) = Some p"
    and "rp_CapabilityDefinitionHash p \<noteq> ''''" and "m' = fold registry_exec xs m"
  shows "map_of (runtimeProfiles m') (runtimeProfileKey (rp_ProfileID q) (rp_Version q)) = Some p \<and>
    UpsertRuntimeProfile m' q =
      (m', if sameRuntimeProfileMeaning p q then Inr (p, False)
           else Inl (Err ''runtime profile identity already exists with a different digest''))"
proof -
  have p: "map_of (runtimeProfiles m') (runtimeProfileKey (rp_ProfileID q) (rp_Version q)) = Some p"
    unfolding assms(3) by (rule profile_run [OF assms(1,2)])
  have "\<not> legacyRuntimeProfileMeaning p q" using assms(2) by (simp add: legacyRuntimeProfileMeaning_def)
  then show ?thesis using p by (simp add: UpsertRuntimeProfile_def Let_def)
qed

definition sample_profile :: runtime_profile where
  "sample_profile = zero_runtime_profile\<lparr>rp_ProfileID := ''p'', rp_Version := ''1'', rp_Digest := ''d'', rp_CapabilityDefinitionHash := ''c''\<rparr>"

definition sample_profiles :: memory_store where
  "sample_profiles = NewMemoryStore\<lparr>runtimeProfiles := [(runtimeProfileKey ''p'' ''1'', sample_profile)]\<rparr>"

lemma sample_profile_facts: "rp_ProfileID sample_profile = ''p''" "rp_Version sample_profile = ''1''"
  "rp_CapabilityDefinitionHash sample_profile \<noteq> ''''"
  by (simp_all add: sample_profile_def)

theorem runtime_profile_immutable_witness:
  "map_of (runtimeProfiles (fold registry_exec [Put_Profile (sample_profile\<lparr>rp_Digest := ''e''\<rparr>)] sample_profiles)) (runtimeProfileKey ''p'' ''1'') =
     Some sample_profile"
  using runtime_profile_immutable [of sample_profiles sample_profile sample_profile _ "[Put_Profile (sample_profile\<lparr>rp_Digest := ''e''\<rparr>)]", OF _ _ refl]
  by (simp add: sample_profile_facts sample_profiles_def)

end
