(* ===== verification/Job_Queue.thy ===== *)
theory Job_Queue
  imports Tables Store_State
begin

text \<open>
  The work queue of \<open>internal/jobs/manager.go\<close>: submission, dispatch to worker slots, leases and
  their expiry, cross-worker retry, pause, cancel and the reads, with the write-through to the
  store. Every method holds the manager's mutex while it works on the maps, so each is one
  function on the \<open>manager\<close> record. What the method leaves running is part of the state: a
  \<open>flight\<close> is a \<open>runItem\<close> goroutine started by a lease, a write of the \<open>outbox\<close> is a pending
  \<open>persistJob\<close> or \<open>persistItem\<close>. The results of \<open>Worker.Execute\<close>, the clock and the values drawn
  from \<open>math/rand\<close> are inputs. \<open>panicked\<close> records a dereference of a nil pointer.

  The invariant says that the counters of a job count its items, that an item is in flight
  exactly when a call holds its current lease token, and that no free slot is left idle while a
  queued item could use it. From it follow the finality of settled items, a bound on the calls a
  job can cost and that a job is settled once they have returned.
\<close>

section \<open>State\<close>

record item_input =
  ip_ItemID :: string
  ip_OperationVersion :: string
  ip_Payload :: json

record worker_slot =
  ws_worker :: string
  ws_slots :: int
  ws_unmeasured :: bool
  ws_active :: int

record worker_status =
  wst_ID :: string
  wst_Slots :: int
  wst_Active :: int
  wst_Unmeasured :: bool

record item_identity =
  ii_jobID :: string
  ii_itemID :: string
  ii_operationVersion :: string

record job_result =
  jr_Output :: string
  jr_Tokens :: int

record flight =
  fl_key :: item_identity
  fl_workerID :: string
  fl_token :: i64
  fl_item :: work_item
  fl_leaseDeadline :: time
  fl_started :: bool

datatype job_write = Persist_Job job | Persist_Item work_item

record manager =
  mg_jobs :: "(string, job) gomap"
  mg_items :: "(item_identity, work_item) gomap"
  itemOrder :: "(string, item_identity list) gomap"
  jobOrder :: "string list"
  mg_workers :: "(string, worker_slot) gomap"
  leaseTok :: "(item_identity, i64) gomap"
  leaseTTL :: duration
  defaultMaxAttempts :: int
  reaperInterval :: duration
  idSeq :: i64
  flights :: "flight list"
  outbox :: "job_write list"
  draws :: "int list"
  panicked :: bool

definition itemKey :: "string \<Rightarrow> string \<Rightarrow> string \<Rightarrow> item_identity" where
  "itemKey jobID itemID operationVersion =
     \<lparr>ii_jobID = jobID, ii_itemID = itemID, ii_operationVersion = operationVersion\<rparr>"

definition key_of :: "work_item \<Rightarrow> item_identity" where
  "key_of item = itemKey (wi_JobID item) (wi_ItemID item) (wi_OperationVersion item)"

definition NewManager :: "duration \<Rightarrow> duration \<Rightarrow> int \<Rightarrow> manager" where
  "NewManager ttl interval maxAttempts =
     \<lparr>mg_jobs = [], mg_items = [], itemOrder = [], jobOrder = [], mg_workers = [], leaseTok = [],
      leaseTTL = (if ttl \<le> 0 then 30 * second else ttl),
      defaultMaxAttempts = (if maxAttempts \<le> 0 then 8 else maxAttempts),
      reaperInterval = (if interval \<le> 0 then 500 * millisecond else interval),
      idSeq = 0, flights = [], outbox = [], draws = [], panicked = False\<rparr>"

definition crash :: "manager \<Rightarrow> manager" where
  "crash m = m\<lparr>panicked := True\<rparr>"

definition persistJobAsync :: "string \<Rightarrow> manager \<Rightarrow> manager" where
  "persistJobAsync jobID m =
     (case map_of (mg_jobs m) jobID of None \<Rightarrow> crash m | Some job \<Rightarrow> m\<lparr>outbox := outbox m @ [Persist_Job job]\<rparr>)"

definition persistItemAsync :: "item_identity \<Rightarrow> manager \<Rightarrow> manager" where
  "persistItemAsync key m =
     (case map_of (mg_items m) key of None \<Rightarrow> crash m | Some item \<Rightarrow> m\<lparr>outbox := outbox m @ [Persist_Item item]\<rparr>)"

section \<open>Dispatch\<close>

definition contains :: "string list \<Rightarrow> string \<Rightarrow> bool" where
  "contains ss s = (s \<in> set ss)"

definition candidates :: "manager \<Rightarrow> work_item \<Rightarrow> (string \<times> int) list" where
  "candidates m item =
     map (\<lambda>(i, ws). (i, ws_slots ws - ws_active ws))
       (filter (\<lambda>(i, ws). \<not> ws_active ws \<ge> ws_slots ws \<and> \<not> contains (wi_TriedWorkers item) i) (mg_workers m))"

fun pick_weighted :: "(string \<times> int) list \<Rightarrow> int \<Rightarrow> string option" where
  "pick_weighted [] r = None"
| "pick_weighted ((i, w) # cs) r = (if r < w then Some i else pick_weighted cs (r - w))"

text \<open>\<open>rand.Intn(n)\<close> is the next value drawn, in \<open>[0, n)\<close>.\<close>

definition Intn :: "int \<Rightarrow> manager \<Rightarrow> manager \<times> int" where
  "Intn n m = (case draws m of [] \<Rightarrow> (m, 0) | d # ds \<Rightarrow> (m\<lparr>draws := ds\<rparr>, d mod n))"

definition pickWorkerLocked :: "work_item \<Rightarrow> manager \<Rightarrow> manager \<times> string option" where
  "pickWorkerLocked item m =
     (let cs = candidates m item in
      if cs = [] then (m, None)
      else (case Intn (sum_list (map snd cs)) m of
              (m', r) \<Rightarrow> (m', Some (case pick_weighted cs r of Some i \<Rightarrow> i | None \<Rightarrow> fst (last cs)))))"

definition leased_item :: "time \<Rightarrow> duration \<Rightarrow> string \<Rightarrow> work_item \<Rightarrow> work_item" where
  "leased_item now ttl workerID item =
     item\<lparr>wi_State := WorkItemLeased, wi_LeaseOwner := workerID, wi_LeaseExpiry := now + ttl,
          wi_Attempt := wi_Attempt item + 1, wi_UpdatedAt := now\<rparr>"

definition leased_job :: "time \<Rightarrow> job \<Rightarrow> job" where
  "leased_job now job =
     job\<lparr>jb_Progress := (jb_Progress job)\<lparr>jp_Queued := jp_Queued (jb_Progress job) - 1,
                                         jp_Running := jp_Running (jb_Progress job) + 1\<rparr>, jb_UpdatedAt := now\<rparr>"

definition leaseLocked :: "time \<Rightarrow> item_identity \<Rightarrow> job \<Rightarrow> work_item \<Rightarrow> string \<Rightarrow> worker_slot \<Rightarrow> manager \<Rightarrow> manager" where
  "leaseLocked now ptr job item workerID ws m =
     (let item' = leased_item now (leaseTTL m) workerID item;
          key = key_of item';
          token = mget_zero 0 (leaseTok m) key + 1;
          m1 = m\<lparr>mg_items := mput ptr item' (mg_items m),
                 mg_workers := mput workerID (ws\<lparr>ws_active := ws_active ws + 1\<rparr>) (mg_workers m),
                 mg_jobs := mput (ii_jobID ptr) (leased_job now job) (mg_jobs m),
                 leaseTok := mput key token (leaseTok m)\<rparr>;
          m2 = persistItemAsync ptr (persistJobAsync (ii_jobID ptr) m1)
      in m2\<lparr>flights := flights m2 @
           [\<lparr>fl_key = key, fl_workerID = workerID, fl_token = token, fl_item = item',
             fl_leaseDeadline = wi_LeaseExpiry item', fl_started = False\<rparr>]\<rparr>)"

definition dispatch_item :: "time \<Rightarrow> string \<Rightarrow> item_identity \<Rightarrow> manager \<Rightarrow> manager" where
  "dispatch_item now jobID key m =
     (case (map_of (mg_jobs m) jobID, map_of (mg_items m) key) of
        (Some job, Some item) \<Rightarrow>
          if wi_State item \<noteq> WorkItemQueued then m
          else (case pickWorkerLocked item m of
                  (m', None) \<Rightarrow> m'
                | (m', Some workerID) \<Rightarrow>
                    (case map_of (mg_workers m') workerID of
                       None \<Rightarrow> crash m'
                     | Some ws \<Rightarrow> leaseLocked now key job item workerID ws m'))
      | _ \<Rightarrow> crash m)"

definition halted :: "job \<Rightarrow> bool" where
  "halted job \<longleftrightarrow> jb_Status job = JobPaused \<or> jb_Status job = JobCancelled \<or>
     jb_Status job = JobCompleted \<or> jb_Status job = JobCompletedWithErrors"

definition dispatch_job :: "time \<Rightarrow> string \<Rightarrow> manager \<Rightarrow> manager" where
  "dispatch_job now jobID m =
     (case map_of (mg_jobs m) jobID of
        None \<Rightarrow> crash m
      | Some job \<Rightarrow>
          if halted job then m
          else fold (dispatch_item now jobID) (mget_zero [] (itemOrder m) jobID) m)"

definition tryDispatchLocked :: "time \<Rightarrow> manager \<Rightarrow> manager" where
  "tryDispatchLocked now m = fold (dispatch_job now) (jobOrder m) m"

section \<open>Zero values\<close>

definition zero_work_item :: work_item where
  "zero_work_item = \<lparr>
     wi_JobID = '''', wi_ItemID = '''', wi_OperationVersion = '''', wi_State = '''',
     wi_LeaseOwner = '''', wi_LeaseExpiry = 0, wi_Attempt = 0, wi_ResultRef = '''',
     wi_Payload = JNull, wi_TriedWorkers = [], wi_LastError = '''', wi_CreatedAt = 0,
     wi_UpdatedAt = 0, wi_Seq = 0\<rparr>"


section \<open>Registration and submission\<close>

definition RegisterWorker :: "time \<Rightarrow> string \<Rightarrow> performance_profile option \<Rightarrow> manager \<Rightarrow> manager \<times> worker_status" where
  "RegisterWorker now w profile m =
     (let (slots, unmeasured) =
            (case profile of
               None \<Rightarrow> (1, True)
             | Some p \<Rightarrow> if pp_Concurrency p > 0 then (pp_Concurrency p, False) else (1, True));
          m1 = m\<lparr>mg_workers := mput w \<lparr>ws_worker = w, ws_slots = slots, ws_unmeasured = unmeasured, ws_active = 0\<rparr> (mg_workers m)\<rparr>
      in (tryDispatchLocked now m1, \<lparr>wst_ID = w, wst_Slots = slots, wst_Active = 0, wst_Unmeasured = unmeasured\<rparr>))"

definition Workers :: "manager \<Rightarrow> worker_status list" where
  "Workers m = sort_key wst_ID
     (map (\<lambda>(i, ws). \<lparr>wst_ID = i, wst_Slots = ws_slots ws, wst_Active = ws_active ws, wst_Unmeasured = ws_unmeasured ws\<rparr>) (mg_workers m))"

definition job_id :: "time \<Rightarrow> i64 \<Rightarrow> string" where
  "job_id t n = ''job-'' @ show_int t @ ''-'' @ show_int n"

definition nextID :: "time \<Rightarrow> manager \<Rightarrow> manager \<times> string" where
  "nextID now m = (m\<lparr>idSeq := idSeq m + 1\<rparr>, job_id now (idSeq m + 1))"

definition new_item :: "time \<Rightarrow> string \<Rightarrow> nat \<Rightarrow> item_input \<Rightarrow> work_item" where
  "new_item now jobID i inp =
     zero_work_item\<lparr>wi_JobID := jobID,
       wi_ItemID := (if ip_ItemID inp = '''' then ''item-'' @ show_nat i else ip_ItemID inp),
       wi_OperationVersion := (if ip_OperationVersion inp = '''' then ''v1'' else ip_OperationVersion inp),
       wi_State := WorkItemQueued, wi_Payload := ip_Payload inp, wi_CreatedAt := now, wi_UpdatedAt := now, wi_Seq := int i\<rparr>"

fun submit_items :: "time \<Rightarrow> string \<Rightarrow> nat \<Rightarrow> item_input list \<Rightarrow> item_identity list \<Rightarrow> manager \<Rightarrow> manager \<times> (error + item_identity list)" where
  "submit_items now jobID i [] order m = (m, Inr order)"
| "submit_items now jobID i (inp # inputs) order m =
     (let wi = new_item now jobID i inp; key = key_of wi in
      if map_of (mg_items m) key \<noteq> None then (m, Inl (Err ''jobs: duplicate item identity''))
      else submit_items now jobID (i + 1) inputs (order @ [key]) (m\<lparr>mg_items := mput key wi (mg_items m)\<rparr>))"

definition new_job :: "time \<Rightarrow> string \<Rightarrow> string \<Rightarrow> string \<Rightarrow> int \<Rightarrow> nat \<Rightarrow> job" where
  "new_job now i operation pool maxAttempts n =
     \<lparr>jb_ID = i, jb_Operation = operation, jb_Pool = pool, jb_Status = JobRunning, jb_InputRef = '''', jb_OutputRef = '''',
      jb_CreatedAt = now, jb_UpdatedAt = now, jb_Priority = '''', jb_MaxAttempts = maxAttempts,
      jb_Progress = \<lparr>jp_Total = int n, jp_Queued = int n, jp_Running = 0, jp_Success = 0, jp_Failed = 0, jp_Retried = 0\<rparr>\<rparr>"

definition SubmitJob :: "time \<Rightarrow> string \<Rightarrow> string \<Rightarrow> item_input list \<Rightarrow> int \<Rightarrow> manager \<Rightarrow> manager \<times> (error + job)" where
  "SubmitJob now operation pool inputs maxAttempts m =
     (if inputs = [] then (m, Inl (Err ''jobs: submit requires at least one work item''))
      else let cap = (if maxAttempts \<le> 0 then defaultMaxAttempts m else maxAttempts);
               (m1, i) = nextID now m;
               m2 = m1\<lparr>mg_jobs := mput i (new_job now i operation pool cap (length inputs)) (mg_jobs m1), jobOrder := jobOrder m1 @ [i]\<rparr>
           in (case submit_items now i 0 inputs [] m2 of
                 (m3, Inl e) \<Rightarrow> (m3, Inl e)
               | (m3, Inr order) \<Rightarrow>
                   let m4 = tryDispatchLocked now (m3\<lparr>itemOrder := mput i order (itemOrder m3)\<rparr>) in
                   (case map_of (mg_jobs m4) i of
                      None \<Rightarrow> (crash m4, Inl Panic)
                    | Some job \<Rightarrow> (fold persistItemAsync order (persistJobAsync i m4), Inr job))))"

section \<open>Results\<close>

definition runItem_begin :: "time \<Rightarrow> item_identity \<Rightarrow> manager \<Rightarrow> manager" where
  "runItem_begin now key m =
     (case map_of (mg_items m) key of
        Some cur \<Rightarrow>
          if wi_State cur = WorkItemLeased
          then m\<lparr>mg_items := mput key (cur\<lparr>wi_State := WorkItemRunning, wi_UpdatedAt := now\<rparr>) (mg_items m)\<rparr>
          else m
      | None \<Rightarrow> m)"

definition tried_with :: "string \<Rightarrow> work_item \<Rightarrow> string list" where
  "tried_with w item = (if contains (wi_TriedWorkers item) w then wi_TriedWorkers item else wi_TriedWorkers item @ [w])"

definition spent :: "manager \<Rightarrow> job \<Rightarrow> work_item \<Rightarrow> bool" where
  "spent m job item \<longleftrightarrow>
     (length (mg_workers m) > 0 \<and> length (wi_TriedWorkers item) \<ge> length (mg_workers m)) \<or> wi_Attempt item \<ge> jb_MaxAttempts job"

definition retry_or_fail :: "manager \<Rightarrow> job \<Rightarrow> work_item \<Rightarrow> job \<times> work_item" where
  "retry_or_fail m job item =
     (let p = jb_Progress job in
      if spent m job item
      then (job\<lparr>jb_Progress := p\<lparr>jp_Failed := jp_Failed p + 1\<rparr>\<rparr>, item\<lparr>wi_State := WorkItemFailed\<rparr>)
      else (job\<lparr>jb_Progress := p\<lparr>jp_Queued := jp_Queued p + 1, jp_Retried := jp_Retried p + 1\<rparr>\<rparr>,
            item\<lparr>wi_State := WorkItemQueued\<rparr>))"

definition failItemLocked :: "manager \<Rightarrow> job \<Rightarrow> work_item \<Rightarrow> string \<Rightarrow> string \<Rightarrow> job \<times> work_item" where
  "failItemLocked m job item workerID errMsg =
     retry_or_fail m job (item\<lparr>wi_LastError := errMsg, wi_TriedWorkers := tried_with workerID item\<rparr>)"

definition recomputeJobStatusLocked :: "job \<Rightarrow> job" where
  "recomputeJobStatusLocked job =
     (if jb_Status job = JobCancelled \<or> jb_Status job = JobPaused then job
      else if jp_Queued (jb_Progress job) > 0 \<or> jp_Running (jb_Progress job) > 0 then job
      else if jp_Failed (jb_Progress job) > 0 then job\<lparr>jb_Status := JobCompletedWithErrors\<rparr>
      else job\<lparr>jb_Status := JobCompleted\<rparr>)"

definition in_flight :: "string \<Rightarrow> bool" where
  "in_flight s \<longleftrightarrow> s = WorkItemLeased \<or> s = WorkItemRunning"

definition run_down :: "time \<Rightarrow> job \<Rightarrow> job" where
  "run_down now job = job\<lparr>jb_UpdatedAt := now, jb_Progress := (jb_Progress job)\<lparr>jp_Running := jp_Running (jb_Progress job) - 1\<rparr>\<rparr>"

definition free_slot :: "string \<Rightarrow> manager \<Rightarrow> manager" where
  "free_slot w m =
     (case map_of (mg_workers m) w of
        Some ws \<Rightarrow> if ws_active ws > 0 then m\<lparr>mg_workers := mput w (ws\<lparr>ws_active := ws_active ws - 1\<rparr>) (mg_workers m)\<rparr> else m
      | None \<Rightarrow> m)"

definition put_item :: "item_identity \<Rightarrow> work_item \<Rightarrow> job \<Rightarrow> manager \<Rightarrow> manager" where
  "put_item key item job m = m\<lparr>mg_items := mput key item (mg_items m), mg_jobs := mput (ii_jobID key) job (mg_jobs m)\<rparr>"

definition settle :: "time \<Rightarrow> string \<Rightarrow> string + job_result \<Rightarrow> manager \<Rightarrow> job \<Rightarrow> work_item \<Rightarrow> job \<times> work_item" where
  "settle now workerID outcome m job item =
     (let job1 = run_down now job; item1 = item\<lparr>wi_UpdatedAt := now\<rparr> in
      case outcome of
        Inr res \<Rightarrow>
          (job1\<lparr>jb_Progress := (jb_Progress job1)\<lparr>jp_Success := jp_Success (jb_Progress job1) + 1\<rparr>\<rparr>,
           item1\<lparr>wi_State := WorkItemSuccess, wi_ResultRef := jr_Output res\<rparr>)
      | Inl execErr \<Rightarrow> failItemLocked m job1 item1 workerID execErr)"

definition completeItem :: "time \<Rightarrow> item_identity \<Rightarrow> string \<Rightarrow> i64 \<Rightarrow> string + job_result \<Rightarrow> manager \<Rightarrow> manager" where
  "completeItem now key workerID token outcome m0 =
     (case (map_of (mg_items m0) key, map_of (mg_jobs m0) (ii_jobID key)) of
        (Some item, Some job) \<Rightarrow>
          let m = free_slot workerID m0 in
          if mget_zero 0 (leaseTok m) key \<noteq> token then tryDispatchLocked now m
          else if jb_Status job = JobCancelled then
            (if in_flight (wi_State item)
             then tryDispatchLocked now
                    (persistJobAsync (ii_jobID key) (persistItemAsync key
                      (put_item key (item\<lparr>wi_State := WorkItemCancelled, wi_UpdatedAt := now\<rparr>) (run_down now job) m)))
             else tryDispatchLocked now m)
          else if wi_State item = WorkItemSuccess \<or> wi_State item = WorkItemFailed then tryDispatchLocked now m
          else (case settle now workerID outcome m job item of
                  (job', item') \<Rightarrow>
                    persistItemAsync key (persistJobAsync (ii_jobID key)
                      (tryDispatchLocked now (put_item key item' (recomputeJobStatusLocked job') m))))
      | _ \<Rightarrow> m0)"

section \<open>Expiry, pause and cancel\<close>

definition expired :: "time \<Rightarrow> work_item \<Rightarrow> bool" where
  "expired now item \<longleftrightarrow>
     \<not> (wi_State item \<noteq> WorkItemLeased \<and> wi_State item \<noteq> WorkItemRunning) \<and>
     \<not> (wi_LeaseExpiry item = 0 \<or> now < wi_LeaseExpiry item)"

definition expired_item :: "time \<Rightarrow> work_item \<Rightarrow> work_item" where
  "expired_item now item =
     item\<lparr>wi_State := WorkItemLeaseExpired, wi_UpdatedAt := now,
          wi_LastError := ''lease expired: no result from worker '' @ wi_LeaseOwner item @ '' within TTL'',
          wi_TriedWorkers := tried_with (wi_LeaseOwner item) item\<rparr>"

definition reap_item :: "time \<Rightarrow> string \<Rightarrow> item_identity \<Rightarrow> manager \<times> bool \<Rightarrow> manager \<times> bool" where
  "reap_item now jobID key = (\<lambda>(m, dispatched).
     (case (map_of (mg_jobs m) jobID, map_of (mg_items m) key) of
        (Some job, Some item) \<Rightarrow>
          if \<not> expired now item then (m, dispatched)
          else let m1 = free_slot (wi_LeaseOwner item) (m\<lparr>leaseTok := mput key (mget_zero 0 (leaseTok m) key + 1) (leaseTok m)\<rparr>);
                   (job', item') = retry_or_fail m1 (run_down now job) (expired_item now item)
               in (persistItemAsync key (persistJobAsync jobID (put_item key item' (recomputeJobStatusLocked job') m1)), True)
      | _ \<Rightarrow> (crash m, dispatched)))"

definition reap_job :: "time \<Rightarrow> string \<Rightarrow> manager \<times> bool \<Rightarrow> manager \<times> bool" where
  "reap_job now jobID s = fold (reap_item now jobID) (mget_zero [] (itemOrder (fst s)) jobID) s"

text \<open>\<open>visit\<close> is the order in which \<open>range\<close> yields the jobs of \<open>itemOrder\<close>.\<close>

definition reapExpiredLeases :: "time \<Rightarrow> string list \<Rightarrow> manager \<Rightarrow> manager" where
  "reapExpiredLeases now visit m =
     (case fold (reap_job now) visit (m, False) of
        (m', dispatched) \<Rightarrow> if dispatched then tryDispatchLocked now m' else m')"

definition PauseJob :: "time \<Rightarrow> string \<Rightarrow> manager \<Rightarrow> manager \<times> (error + unit)" where
  "PauseJob now jobID m =
     (case map_of (mg_jobs m) jobID of
        None \<Rightarrow> (m, Inl ErrNotFound)
      | Some job \<Rightarrow>
          if jb_Status job = JobRunning \<or> jb_Status job = JobPending
          then (persistJobAsync jobID (m\<lparr>mg_jobs := mput jobID (job\<lparr>jb_Status := JobPaused, jb_UpdatedAt := now\<rparr>) (mg_jobs m)\<rparr>), Inr ())
          else (m, Inr ()))"

definition cancel_item :: "time \<Rightarrow> string \<Rightarrow> item_identity \<Rightarrow> manager \<Rightarrow> manager" where
  "cancel_item now jobID key m =
     (case (map_of (mg_jobs m) jobID, map_of (mg_items m) key) of
        (Some job, Some item) \<Rightarrow>
          if wi_State item = WorkItemQueued
          then persistItemAsync key
                 (put_item key (item\<lparr>wi_State := WorkItemCancelled, wi_UpdatedAt := now\<rparr>)
                   (job\<lparr>jb_Progress := (jb_Progress job)\<lparr>jp_Queued := jp_Queued (jb_Progress job) - 1\<rparr>\<rparr>) m)
          else m
      | _ \<Rightarrow> crash m)"

definition cancel_mark :: "time \<Rightarrow> string \<Rightarrow> manager \<Rightarrow> manager" where
  "cancel_mark now jobID m =
     (case map_of (mg_jobs m) jobID of
        None \<Rightarrow> crash m
      | Some job \<Rightarrow> persistJobAsync jobID
          (m\<lparr>mg_jobs := mput jobID (job\<lparr>jb_Status := JobCancelled, jb_UpdatedAt := now\<rparr>) (mg_jobs m)\<rparr>))"

definition CancelJob :: "time \<Rightarrow> string \<Rightarrow> manager \<Rightarrow> manager \<times> (error + unit)" where
  "CancelJob now jobID m =
     (case map_of (mg_jobs m) jobID of
        None \<Rightarrow> (m, Inl ErrNotFound)
      | Some job \<Rightarrow>
          if jb_Status job = JobCancelled \<or> jb_Status job = JobCompleted \<or> jb_Status job = JobCompletedWithErrors then (m, Inr ())
          else (cancel_mark now jobID (fold (cancel_item now jobID) (mget_zero [] (itemOrder m) jobID) m), Inr ()))"

section \<open>Reads and write-through\<close>

definition pointees :: "'a option list \<Rightarrow> error + 'a list" where
  "pointees xs = (if None \<in> set xs then Inl Panic else Inr (map the xs))"

definition manager_GetJob :: "manager \<Rightarrow> string \<Rightarrow> error + job \<times> work_item list" where
  "manager_GetJob m jobID =
     (case map_of (mg_jobs m) jobID of
        None \<Rightarrow> Inl ErrNotFound
      | Some job \<Rightarrow>
          (case pointees (map (map_of (mg_items m)) (mget_zero [] (itemOrder m) jobID)) of
             Inl e \<Rightarrow> Inl e
           | Inr items \<Rightarrow> Inr (job, items)))"

definition manager_ListJobs :: "manager \<Rightarrow> error + job list" where
  "manager_ListJobs m = pointees (map (map_of (mg_jobs m)) (jobOrder m))"

definition UpsertJob :: "memory_store \<Rightarrow> job \<Rightarrow> memory_store \<times> (error + job)" where
  "UpsertJob m j = (m\<lparr>jobs := mput (jb_ID j) j (jobs m)\<rparr>, Inr j)"

definition GetJob :: "memory_store \<Rightarrow> string \<Rightarrow> error + job" where
  "GetJob m i = (case map_of (jobs m) i of None \<Rightarrow> Inl ErrNotFound | Some j \<Rightarrow> Inr j)"

definition ListJobs :: "memory_store \<Rightarrow> job list" where
  "ListJobs m = mvalues (jobs m)"

definition UpsertWorkItem :: "memory_store \<Rightarrow> work_item \<Rightarrow> memory_store \<times> (error + work_item)" where
  "UpsertWorkItem m wi =
     (let byItem = mget_zero [] (workItems m) (wi_JobID wi);
          byVersion = mget_zero [] byItem (wi_ItemID wi)
      in (m\<lparr>workItems := mput (wi_JobID wi) (mput (wi_ItemID wi) (mput (wi_OperationVersion wi) wi byVersion) byItem) (workItems m)\<rparr>,
          Inr wi))"

definition GetWorkItem :: "memory_store \<Rightarrow> string \<Rightarrow> string \<Rightarrow> string \<Rightarrow> error + work_item" where
  "GetWorkItem m jobID itemID operationVersion =
     (case map_of (workItems m) jobID of
        None \<Rightarrow> Inl ErrNotFound
      | Some byItem \<Rightarrow>
          (case map_of byItem itemID of
             None \<Rightarrow> Inl ErrNotFound
           | Some byVersion \<Rightarrow> (case map_of byVersion operationVersion of None \<Rightarrow> Inl ErrNotFound | Some wi \<Rightarrow> Inr wi)))"

definition ListWorkItemsForJob :: "memory_store \<Rightarrow> string \<Rightarrow> work_item list" where
  "ListWorkItemsForJob m jobID = concat (map mvalues (mvalues (mget_zero [] (workItems m) jobID)))"

fun persist :: "job_write \<Rightarrow> memory_store option \<Rightarrow> memory_store option" where
  "persist w None = None"
| "persist (Persist_Job j) (Some st) = Some (fst (UpsertJob st j))"
| "persist (Persist_Item wi) (Some st) = Some (fst (UpsertWorkItem st wi))"

section \<open>Runs\<close>

datatype queue_op =
    Submit time "int list" string string "item_input list" int
  | Register time "int list" string "performance_profile option"
  | Begin time nat
  | Finish time "int list" nat "string + job_result"
  | Reap time "int list" "string list"
  | Pause time string
  | Cancel time string

definition drop_nth :: "nat \<Rightarrow> 'a list \<Rightarrow> 'a list" where
  "drop_nth n xs = take n xs @ drop (Suc n) xs"

fun queue_exec :: "queue_op \<Rightarrow> manager \<Rightarrow> manager" where
  "queue_exec (Submit now ds op pool inputs cap) m = fst (SubmitJob now op pool inputs cap (m\<lparr>draws := ds\<rparr>))"
| "queue_exec (Register now ds w profile) m = fst (RegisterWorker now w profile (m\<lparr>draws := ds\<rparr>))"
| "queue_exec (Begin now n) m =
     (if n < length (flights m) \<and> \<not> fl_started (flights m ! n)
      then runItem_begin now (fl_key (flights m ! n)) (m\<lparr>flights := (flights m)[n := (flights m ! n)\<lparr>fl_started := True\<rparr>]\<rparr>)
      else m)"
| "queue_exec (Finish now ds n outcome) m =
     (if n < length (flights m) \<and> fl_started (flights m ! n)
      then let f = flights m ! n in
           completeItem now (fl_key f) (fl_workerID f) (fl_token f) outcome (m\<lparr>draws := ds, flights := drop_nth n (flights m)\<rparr>)
      else m)"
| "queue_exec (Reap now ds visit) m = reapExpiredLeases now visit (m\<lparr>draws := ds\<rparr>)"
| "queue_exec (Pause now i) m = fst (PauseJob now i m)"
| "queue_exec (Cancel now i) m = fst (CancelJob now i m)"

definition queue_run :: "queue_op list \<Rightarrow> manager \<Rightarrow> manager" where
  "queue_run xs m = fold queue_exec xs m"

section \<open>Invariant\<close>

definition order_of :: "manager \<Rightarrow> string \<Rightarrow> item_identity list" where
  "order_of m j = mget_zero [] (itemOrder m) j"

definition all_keys :: "manager \<Rightarrow> item_identity list" where
  "all_keys m = concat (map snd (itemOrder m))"

definition state_at :: "manager \<Rightarrow> item_identity \<Rightarrow> string" where
  "state_at m k = (case map_of (mg_items m) k of None \<Rightarrow> '''' | Some it \<Rightarrow> wi_State it)"

definition tally :: "(string \<Rightarrow> bool) \<Rightarrow> manager \<Rightarrow> item_identity list \<Rightarrow> int" where
  "tally P m ks = int (length (filter (\<lambda>k. P (state_at m k)) ks))"

definition calls :: "manager \<Rightarrow> item_identity \<Rightarrow> (i64 \<times> string) list" where
  "calls m k = map (\<lambda>f. (fl_token f, fl_workerID f)) (filter (\<lambda>f. fl_key f = k) (flights m))"

definition workers_of :: "manager \<Rightarrow> string set" where
  "workers_of m = dom (map_of (mg_workers m))"

definition item_ok :: "string set \<Rightarrow> int \<Rightarrow> i64 \<Rightarrow> (i64 \<times> string) list \<Rightarrow> item_identity \<Rightarrow> work_item \<Rightarrow> bool" where
  "item_ok ws cap tok cs k it \<longleftrightarrow>
     key_of it = k \<and>
     wi_State it \<in> {WorkItemQueued, WorkItemLeased, WorkItemRunning, WorkItemSuccess, WorkItemFailed, WorkItemCancelled} \<and>
     0 \<le> wi_Attempt it \<and> wi_Attempt it \<le> cap \<and> (wi_State it = WorkItemQueued \<longrightarrow> wi_Attempt it < cap) \<and>
     distinct (wi_TriedWorkers it) \<and> set (wi_TriedWorkers it) \<subseteq> ws \<and>
     (wi_State it = WorkItemQueued \<longrightarrow> wi_TriedWorkers it = [] \<or> set (wi_TriedWorkers it) \<noteq> ws) \<and>
     distinct (map fst cs) \<and> (\<forall>c\<in>set cs. fst c \<le> tok) \<and>
     (in_flight (wi_State it) \<longrightarrow>
        wi_LeaseOwner it \<in> ws \<and> (tok, wi_LeaseOwner it) \<in> set cs) \<and>
     (\<not> in_flight (wi_State it) \<longrightarrow> tok \<notin> fst ` set cs)"

definition job_ok :: "manager \<Rightarrow> item_identity list \<Rightarrow> job \<Rightarrow> bool" where
  "job_ok m ks job \<longleftrightarrow>
     0 < jb_MaxAttempts job \<and> jp_Total (jb_Progress job) = int (length ks) \<and>
     jp_Queued (jb_Progress job) = tally (\<lambda>s. s = WorkItemQueued) m ks \<and>
     jp_Running (jb_Progress job) = tally in_flight m ks \<and>
     jp_Success (jb_Progress job) = tally (\<lambda>s. s = WorkItemSuccess) m ks \<and>
     jp_Failed (jb_Progress job) = tally (\<lambda>s. s = WorkItemFailed) m ks \<and>
     jb_Status job \<in> {JobRunning, JobPaused, JobCancelled, JobCompleted, JobCompletedWithErrors} \<and>
     (jb_Status job = JobRunning \<longrightarrow> 0 < jp_Queued (jb_Progress job) + jp_Running (jb_Progress job)) \<and>
     (jb_Status job \<in> {JobCompleted, JobCompletedWithErrors} \<longrightarrow>
        jp_Queued (jb_Progress job) + jp_Running (jb_Progress job) = 0 \<and>
        (jb_Status job = JobCompleted \<longleftrightarrow> jp_Failed (jb_Progress job) = 0)) \<and>
     (jb_Status job \<noteq> JobCancelled \<longrightarrow> tally (\<lambda>s. s = WorkItemCancelled) m ks = 0)"

definition orders_ok :: "manager \<Rightarrow> bool" where
  "orders_ok m \<longleftrightarrow>
     (\<forall>j ks. map_of (itemOrder m) j = Some ks \<longrightarrow>
        ks \<noteq> [] \<and> (\<forall>k\<in>set ks. ii_jobID k = j) \<and>
        (\<exists>job. map_of (mg_jobs m) j = Some job \<and> job_ok m ks job \<and>
           (\<forall>k\<in>set ks. \<exists>it. map_of (mg_items m) k = Some it \<and>
              item_ok (workers_of m) (jb_MaxAttempts job) (mget_zero 0 (leaseTok m) k) (calls m k) k it)))"

definition shape_ok :: "manager \<Rightarrow> bool" where
  "shape_ok m \<longleftrightarrow>
     \<not> panicked m \<and> 0 < defaultMaxAttempts m \<and> set (jobOrder m) = dom (map_of (mg_jobs m)) \<and>
     (\<forall>j\<in>dom (map_of (mg_jobs m)). \<exists>t n. j = job_id t n \<and> 0 < n \<and> n \<le> idSeq m) \<and> 0 \<le> idSeq m \<and>
     (\<forall>k\<in>dom (map_of (mg_items m)). ii_jobID k \<in> dom (map_of (mg_jobs m))) \<and>
     gomap_wf (itemOrder m) \<and> gomap_wf (mg_workers m) \<and> distinct (all_keys m) \<and>
     (\<forall>f\<in>set (flights m). fl_key f \<in> set (order_of m (ii_jobID (fl_key f))))"

definition core_inv :: "manager \<Rightarrow> bool" where
  "core_inv m \<longleftrightarrow> shape_ok m \<and> orders_ok m"

lemmas core_defs = core_inv_def shape_ok_def orders_ok_def

lemma core_inv_irrelevant [simp]:
  "core_inv (m\<lparr>outbox := x\<rparr>) = core_inv m" "core_inv (m\<lparr>draws := d\<rparr>) = core_inv m"
  by (simp_all add: core_defs job_ok_def tally_def state_at_def calls_def workers_of_def order_of_def all_keys_def)

lemma core_item:
  assumes "core_inv m" and "k \<in> set (order_of m j)"
  obtains ks job it where "map_of (itemOrder m) j = Some ks" "order_of m j = ks" "k \<in> set ks" "ii_jobID k = j"
    "map_of (mg_jobs m) j = Some job" "job_ok m ks job" "map_of (mg_items m) k = Some it"
    "item_ok (workers_of m) (jb_MaxAttempts job) (mget_zero 0 (leaseTok m) k) (calls m k) k it"
proof (cases "map_of (itemOrder m) j")
  case None
  then show ?thesis using assms(2) by (simp add: order_of_def mget_zero_def)
next
  case (Some ks)
  then have e: "order_of m j = ks" by (simp add: order_of_def mget_zero_def)
  then show ?thesis using assms Some that by (force simp: core_inv_def orders_ok_def)
qed

lemma order_distinct:
  assumes "core_inv m" shows "distinct (order_of m j)"
proof (cases "map_of (itemOrder m) j")
  case (Some ks)
  then have "ks \<in> set (map snd (itemOrder m))" by (metis image_eqI list.set_map map_of_SomeD snd_conv)
  then show ?thesis using assms Some
    by (auto simp: core_inv_def shape_ok_def all_keys_def distinct_concat_iff order_of_def mget_zero_def)
qed (simp add: order_of_def mget_zero_def)

lemma tally_Cons: "tally P m (k # ks) = of_bool (P (state_at m k)) + tally P m ks"
  by (simp add: tally_def)

lemma tally_update:
  assumes "distinct ks" and "k \<in> set ks" and "mg_items m' = mput k it' (mg_items m)"
  shows "tally P m' ks = tally P m ks - of_bool (P (state_at m k)) + of_bool (P (wi_State it'))"
  using assms(1,2)
proof (induction ks)
  case (Cons a ks)
  have rest: "tally P m' ks = tally P m ks" if "k \<notin> set ks"
  proof -
    have "filter (\<lambda>k. P (state_at m' k)) ks = filter (\<lambda>k. P (state_at m k)) ks"
      using that assms(3) by (intro filter_cong) (auto simp: state_at_def)
    then show ?thesis by (simp add: tally_def)
  qed
  have here: "state_at m' k = wi_State it'" using assms(3) by (simp add: state_at_def)
  have other: "state_at m' a = state_at m a" if "a \<noteq> k" using that assms(3) by (simp add: state_at_def)
  show ?case using Cons rest here other by (cases "a = k") (auto simp: tally_Cons)
qed simp

lemma tally_cong:
  assumes "\<And>k. k \<in> set ks \<Longrightarrow> state_at m' k = state_at m k" shows "tally P m' ks = tally P m ks"
  using assms by (auto simp: tally_def intro!: arg_cong [of _ _ length] filter_cong)

lemma job_ok_cong:
  assumes "\<And>k. k \<in> set ks \<Longrightarrow> state_at m' k = state_at m k" shows "job_ok m' ks job = job_ok m ks job"
proof -
  have "tally P m' ks = tally P m ks" for P using assms by (rule tally_cong)
  then show ?thesis by (simp only: job_ok_def)
qed

text \<open>
  The one step of the proofs: the item \<open>k\<close> and its job change, the tokens and calls of the other
  items stay as they were.
\<close>

lemma core_inv_update:
  assumes inv: "core_inv m" and ks: "map_of (itemOrder m) j = Some ks" and k: "k \<in> set ks"
    and old: "map_of (mg_jobs m) j = Some job" "jb_MaxAttempts job' = jb_MaxAttempts job"
    and m': "mg_items m' = mput k it' (mg_items m)" "mg_jobs m' = mput j job' (mg_jobs m)"
      "itemOrder m' = itemOrder m" "jobOrder m' = jobOrder m" "idSeq m' = idSeq m" "panicked m' = panicked m"
      "defaultMaxAttempts m' = defaultMaxAttempts m" "workers_of m' = workers_of m" "gomap_wf (mg_workers m')"
    and tok: "\<And>k'. k' \<noteq> k \<Longrightarrow> mget_zero 0 (leaseTok m') k' = mget_zero 0 (leaseTok m) k'"
    and fl: "\<And>k'. k' \<noteq> k \<Longrightarrow> calls m' k' = calls m k'" "\<And>f. f \<in> set (flights m') \<Longrightarrow> fl_key f = k \<or> f \<in> set (flights m)"
    and it': "item_ok (workers_of m) (jb_MaxAttempts job) (mget_zero 0 (leaseTok m') k) (calls m' k) k it'"
    and job': "job_ok m' ks job'"
  shows "core_inv m'"
proof -
  have kj: "ii_jobID k = j" using inv ks k by (auto simp: core_inv_def orders_ok_def)
  have oo: "order_of m' = order_of m" "all_keys m' = all_keys m" using m' by (auto simp: order_of_def all_keys_def)
  have here: "k \<in> set (order_of m j)" using ks k by (simp add: order_of_def mget_zero_def)
  have it: "map_of (mg_items m) k \<noteq> None" using inv ks k by (force simp: core_inv_def orders_ok_def)
  have fk: "\<forall>f\<in>set (flights m'). fl_key f \<in> set (order_of m (ii_jobID (fl_key f)))"
    using inv here kj fl(2) unfolding core_inv_def shape_ok_def by metis
  have doms: "dom (map_of (mg_jobs m')) = dom (map_of (mg_jobs m))" "dom (map_of (mg_items m')) = dom (map_of (mg_items m))"
    using m' old it by auto
  have "shape_ok m'"
    using inv fk unfolding core_inv_def shape_ok_def by (simp only: m'(3-) oo doms) blast
  moreover have "orders_ok m'"
    unfolding orders_ok_def
  proof (intro allI impI)
    fix j2 ks2 assume "map_of (itemOrder m') j2 = Some ks2"
    then have o2: "map_of (itemOrder m) j2 = Some ks2" using m' by simp
    from inv o2 obtain job2 where base: "ks2 \<noteq> []" "\<forall>k\<in>set ks2. ii_jobID k = j2" "map_of (mg_jobs m) j2 = Some job2"
      "job_ok m ks2 job2" "\<And>k. k \<in> set ks2 \<Longrightarrow> \<exists>it. map_of (mg_items m) k = Some it \<and>
         item_ok (workers_of m) (jb_MaxAttempts job2) (mget_zero 0 (leaseTok m) k) (calls m k) k it"
      unfolding core_inv_def orders_ok_def by metis
    have items: "\<exists>it. map_of (mg_items m') k2 = Some it \<and>
         item_ok (workers_of m') (jb_MaxAttempts job2) (mget_zero 0 (leaseTok m') k2) (calls m' k2) k2 it"
      if "k2 \<in> set ks2" for k2
    proof (cases "k2 = k")
      case True
      then have "j2 = j" using base(2) that kj by auto
      then show ?thesis using True it' m' old base(3) by auto
    next
      case False
      then show ?thesis using base(5) [OF that] tok fl(1) m' by auto
    qed
    show "ks2 \<noteq> [] \<and> (\<forall>k\<in>set ks2. ii_jobID k = j2) \<and> (\<exists>job. map_of (mg_jobs m') j2 = Some job \<and> job_ok m' ks2 job \<and>
           (\<forall>k\<in>set ks2. \<exists>it. map_of (mg_items m') k = Some it \<and>
              item_ok (workers_of m') (jb_MaxAttempts job) (mget_zero 0 (leaseTok m') k) (calls m' k) k it))"
    proof (cases "j2 = j")
      case True
      then have "ks2 = ks" "job2 = job" using o2 ks base(3) old by auto
      then show ?thesis using True base m' job' items old(2) by auto
    next
      case False
      then have "k \<notin> set ks2" using base(2) kj by auto
      then have "state_at m' k2 = state_at m k2" if "k2 \<in> set ks2" for k2 using that m' by (auto simp: state_at_def)
      then have "job_ok m' ks2 job2" using base(4) job_ok_cong by blast
      then show ?thesis using False base m' items by auto
    qed
  qed
  ultimately show ?thesis by (simp add: core_inv_def)
qed

subsection \<open>Dispatch keeps it\<close>

lemma pick_weighted_member: "pick_weighted cs r = Some i \<Longrightarrow> i \<in> fst ` set cs"
  by (induction cs r rule: pick_weighted.induct) (auto split: if_splits)

definition free_for :: "manager \<Rightarrow> string list \<Rightarrow> string \<Rightarrow> bool" where
  "free_for m tried w \<longleftrightarrow> (\<exists>ws. map_of (mg_workers m) w = Some ws \<and> ws_active ws < ws_slots ws \<and> w \<notin> set tried)"

lemma candidates_free:
  assumes "gomap_wf (mg_workers m)"
  shows "i \<in> fst ` set (candidates m item) \<longleftrightarrow> free_for m (wi_TriedWorkers item) i"
  using gomap_entry [OF assms] by (force simp: candidates_def free_for_def contains_def)

lemma pickWorkerLocked_cases:
  assumes "gomap_wf (mg_workers m)"
  obtains (none) "pickWorkerLocked item m = (m, None)" "\<And>w. \<not> free_for m (wi_TriedWorkers item) w"
  | (some) d w where "pickWorkerLocked item m = (m\<lparr>draws := d\<rparr>, Some w)" "free_for m (wi_TriedWorkers item) w"
proof (cases "candidates m item = []")
  case True
  then show ?thesis using none candidates_free [OF assms, of _ item] by (simp add: pickWorkerLocked_def)
next
  case False
  let ?cs = "candidates m item"
  let ?w = "\<lambda>r. case pick_weighted ?cs r of Some i \<Rightarrow> i | None \<Rightarrow> fst (last ?cs)"
  obtain d r where r: "Intn (sum_list (map snd ?cs)) m = (m\<lparr>draws := d\<rparr>, r)"
  proof (cases "draws m")
    case Nil
    then show ?thesis using that [of "draws m" 0] by (simp add: Intn_def)
  next
    case (Cons x xs)
    then show ?thesis using that [of xs "x mod sum_list (map snd ?cs)"] by (simp add: Intn_def)
  qed
  have "?w r \<in> fst ` set ?cs" using False pick_weighted_member [of ?cs r] by (auto split: option.splits)
  then show ?thesis using some [of d "?w r"] False r candidates_free [OF assms] by (simp add: pickWorkerLocked_def Let_def)
qed

lemma leaseLocked_eq:
  assumes "key_of it = k"
  shows "leaseLocked now k job it w ws m =
    m\<lparr>mg_items := mput k (leased_item now (leaseTTL m) w it) (mg_items m),
      mg_workers := mput w (ws\<lparr>ws_active := ws_active ws + 1\<rparr>) (mg_workers m),
      mg_jobs := mput (ii_jobID k) (leased_job now job) (mg_jobs m),
      leaseTok := mput k (mget_zero 0 (leaseTok m) k + 1) (leaseTok m),
      outbox := outbox m @ [Persist_Job (leased_job now job), Persist_Item (leased_item now (leaseTTL m) w it)],
      flights := flights m @ [\<lparr>fl_key = k, fl_workerID = w, fl_token = mget_zero 0 (leaseTok m) k + 1,
        fl_item = leased_item now (leaseTTL m) w it, fl_leaseDeadline = now + leaseTTL m, fl_started = False\<rparr>]\<rparr>"
proof -
  have "key_of (leased_item now (leaseTTL m) w it) = k" using assms by (simp add: key_of_def leased_item_def)
  moreover have "wi_LeaseExpiry (leased_item now (leaseTTL m) w it) = now + leaseTTL m" by (simp add: leased_item_def)
  ultimately show ?thesis by (simp add: leaseLocked_def Let_def persistJobAsync_def persistItemAsync_def)
qed

lemma lease_core:
  assumes inv: "core_inv m" and k: "k \<in> set (order_of m (ii_jobID k))"
    and job: "map_of (mg_jobs m) (ii_jobID k) = Some job" and it: "map_of (mg_items m) k = Some it" "wi_State it = WorkItemQueued"
    and w: "map_of (mg_workers m) w = Some ws" "w \<notin> set (wi_TriedWorkers it)"
  shows "core_inv (leaseLocked now k job it w ws m)"
proof -
  from inv k obtain ks where ks: "map_of (itemOrder m) (ii_jobID k) = Some ks" "order_of m (ii_jobID k) = ks" "k \<in> set ks"
    "job_ok m ks job" and ok: "item_ok (workers_of m) (jb_MaxAttempts job) (mget_zero 0 (leaseTok m) k) (calls m k) k it"
    using job it by (elim core_item) auto
  have d: "distinct ks" using order_distinct [OF inv] ks(2) by metis
  have kk: "key_of it = k" using ok by (simp add: item_ok_def)
  have st: "state_at m k = WorkItemQueued" using it by (simp add: state_at_def)
  let ?m = "leaseLocked now k job it w ws m"
  let ?it = "leased_item now (leaseTTL m) w it"
  note eq = leaseLocked_eq [OF kk]
  have items: "mg_items ?m = mput k ?it (mg_items m)" by (simp add: eq)
  have cs: "calls ?m k = calls m k @ [(mget_zero 0 (leaseTok m) k + 1, w)]" by (simp add: eq calls_def)
  have "key_of ?it = k" using kk by (simp add: key_of_def leased_item_def)
  then have it': "item_ok (workers_of m) (jb_MaxAttempts job) (mget_zero 0 (leaseTok m) k + 1) (calls ?m k) k ?it"
    using ok it w unfolding cs by (auto simp: item_ok_def leased_item_def in_flight_def workers_of_def)
  have job': "job_ok ?m ks (leased_job now job)"
    using ks(4) unfolding job_ok_def tally_update [OF d ks(3) items] st
    by (auto simp: leased_job_def leased_item_def in_flight_def)
  show ?thesis
    by (rule core_inv_update [OF inv ks(1,3) job _ items _ _ _ _ _ _ _ _ _ _ _ _ job'])
      (use inv w it' in \<open>auto simp: eq leased_job_def workers_of_def calls_def core_defs intro!: gomap_wf_mput\<close>)
qed

text \<open>What a dispatch does is a sequence of leases of queued items of live jobs to free workers.\<close>

inductive dispatches :: "manager \<Rightarrow> manager \<Rightarrow> bool" for m where
  dispatches_refl: "dispatches m m"
| dispatches_draw: "dispatches m m1 \<Longrightarrow> dispatches m (m1\<lparr>draws := d\<rparr>)"
| dispatches_lease: "dispatches m m1 \<Longrightarrow> k \<in> set (order_of m1 (ii_jobID k)) \<Longrightarrow>
    map_of (mg_jobs m1) (ii_jobID k) = Some job \<Longrightarrow> map_of (mg_items m1) k = Some it \<Longrightarrow> key_of it = k \<Longrightarrow>
    wi_State it = WorkItemQueued \<Longrightarrow> map_of (mg_workers m1) w = Some ws \<Longrightarrow> ws_active ws < ws_slots ws \<Longrightarrow>
    w \<notin> set (wi_TriedWorkers it) \<Longrightarrow> dispatches m (leaseLocked now k job it w ws m1)"

lemma dispatches_trans:
  assumes "dispatches m1 m2" and "dispatches m0 m1" shows "dispatches m0 m2"
  using assms by (induction rule: dispatches.induct) (auto intro: dispatches.intros)

lemma dispatches_core:
  assumes "dispatches m m'" and "core_inv m" shows "core_inv m'"
  using assms(1)
proof (induction rule: dispatches.induct)
  case (dispatches_lease m1 k job it w ws now)
  show ?case
    by (rule lease_core [OF dispatches_lease.IH dispatches_lease.hyps(2-4,6,7,9)])
qed (use assms(2) in simp_all)

lemma dispatches_frame:
  assumes "dispatches m m'"
  shows "itemOrder m' = itemOrder m" "jobOrder m' = jobOrder m" "order_of m' = order_of m" "all_keys m' = all_keys m"
    "workers_of m' = workers_of m"
proof -
  have "itemOrder m' = itemOrder m \<and> jobOrder m' = jobOrder m \<and> workers_of m' = workers_of m"
    using assms by (induction rule: dispatches.induct) (auto simp: leaseLocked_eq workers_of_def)
  then show "itemOrder m' = itemOrder m" "jobOrder m' = jobOrder m" "order_of m' = order_of m" "all_keys m' = all_keys m"
    "workers_of m' = workers_of m" by (simp_all add: order_of_def all_keys_def fun_eq_iff)
qed

lemma dispatches_jobs:
  assumes "dispatches m m'" and "map_of (mg_jobs m') j = Some job'"
  obtains job where "map_of (mg_jobs m) j = Some job" "jb_Status job' = jb_Status job" "jb_MaxAttempts job' = jb_MaxAttempts job"
proof -
  have "\<exists>job. map_of (mg_jobs m) j = Some job \<and> jb_Status job' = jb_Status job \<and> jb_MaxAttempts job' = jb_MaxAttempts job"
    using assms
  proof (induction arbitrary: job' rule: dispatches.induct)
    case (dispatches_lease m1 k job it w ws now)
    then show ?case
      by (cases "j = ii_jobID k") (auto simp: leaseLocked_eq leased_job_def)
  qed auto
  then show ?thesis using that by blast
qed

lemma dispatches_items:
  assumes "dispatches m m'" and "map_of (mg_items m) k = Some it" and "wi_State it \<noteq> WorkItemQueued"
  shows "map_of (mg_items m') k = Some it"
  using assms by (induction rule: dispatches.induct) (auto simp: leaseLocked_eq)

lemma dispatches_still_queued:
  assumes "dispatches m m'" and "state_at m' k = WorkItemQueued" shows "map_of (mg_items m') k = map_of (mg_items m) k"
  using assms
proof (induction rule: dispatches.induct)
  case (dispatches_lease m1 k1 job it w ws now)
  then show ?case by (cases "k = k1") (auto simp: leaseLocked_eq state_at_def leased_item_def)
qed (auto simp: state_at_def)

lemma dispatches_free:
  assumes "dispatches m m'" and "free_for m' tried w" shows "free_for m tried w"
  using assms
proof (induction rule: dispatches.induct)
  case (dispatches_lease m1 k job it w1 ws now)
  then show ?case by (cases "w = w1") (auto simp: leaseLocked_eq free_for_def)
qed (auto simp: free_for_def)

definition served :: "manager \<Rightarrow> item_identity \<Rightarrow> bool" where
  "served m k \<longleftrightarrow> (\<forall>it w. map_of (mg_items m) k = Some it \<longrightarrow> wi_State it = WorkItemQueued \<longrightarrow> \<not> free_for m (wi_TriedWorkers it) w)"

lemma dispatches_served:
  assumes "dispatches m m'" and "served m k" shows "served m' k"
  unfolding served_def
proof (intro allI impI notI)
  fix it w assume it: "map_of (mg_items m') k = Some it" "wi_State it = WorkItemQueued" and f: "free_for m' (wi_TriedWorkers it) w"
  then have "map_of (mg_items m) k = Some it" using dispatches_still_queued [OF assms(1), of k] by (simp add: state_at_def)
  then show False using assms(2) it(2) dispatches_free [OF assms(1) f] by (simp add: served_def)
qed

lemma dispatch_item_spec:
  assumes inv: "core_inv m" and k: "k \<in> set (order_of m j)"
  shows "dispatches m (dispatch_item now j k m) \<and> served (dispatch_item now j k m) k"
proof -
  from inv k obtain ks job it where b: "ii_jobID k = j" "map_of (mg_jobs m) j = Some job" "map_of (mg_items m) k = Some it"
    "key_of it = k" by (elim core_item) (auto simp: item_ok_def)
  have wf: "gomap_wf (mg_workers m)" using inv by (simp add: core_inv_def shape_ok_def)
  show ?thesis
  proof (cases "wi_State it = WorkItemQueued")
    case False
    then show ?thesis using b by (auto simp: dispatch_item_def served_def dispatches_refl)
  next
    case True
    show ?thesis using wf
    proof (cases rule: pickWorkerLocked_cases [of m it])
      case none
      then have "dispatch_item now j k m = m" using b True by (simp add: dispatch_item_def)
      then show ?thesis using none(2) b by (auto simp: served_def dispatches_refl)
    next
      case (some d w)
      then obtain ws where ws: "map_of (mg_workers m) w = Some ws" "ws_active ws < ws_slots ws" "w \<notin> set (wi_TriedWorkers it)"
        by (auto simp: free_for_def)
      let ?m = "leaseLocked now k job it w ws (m\<lparr>draws := d\<rparr>)"
      have e: "dispatch_item now j k m = ?m" using b True some ws by (simp add: dispatch_item_def)
      have "dispatches m ?m"
        by (rule dispatches_lease [OF dispatches_draw [OF dispatches_refl]]) (use b ws True k in \<open>auto simp: order_of_def\<close>)
      moreover have "served ?m k" using b by (simp add: served_def leaseLocked_eq leased_item_def)
      ultimately show ?thesis using e by simp
    qed
  qed
qed

lemma dispatch_items_spec:
  assumes "core_inv m" and "set xs \<subseteq> set (order_of m j)"
  shows "dispatches m (fold (dispatch_item now j) xs m) \<and> (\<forall>k\<in>set xs. served (fold (dispatch_item now j) xs m) k)"
  using assms
proof (induction xs arbitrary: m)
  case Nil
  then show ?case by (simp add: dispatches_refl)
next
  case (Cons x xs)
  let ?m = "dispatch_item now j x m"
  have x: "dispatches m ?m" "served ?m x" using dispatch_item_spec [OF Cons.prems(1)] Cons.prems(2) by auto
  have rest: "dispatches ?m (fold (dispatch_item now j) xs ?m)" "\<forall>k\<in>set xs. served (fold (dispatch_item now j) xs ?m) k"
    using Cons.IH [OF dispatches_core [OF x(1) Cons.prems(1)]] Cons.prems(2) dispatches_frame(3) [OF x(1)] by auto
  show ?case using dispatches_trans [OF rest(1) x(1)] rest(2) dispatches_served [OF rest(1) x(2)] by auto
qed

definition job_served :: "manager \<Rightarrow> string \<Rightarrow> bool" where
  "job_served m j \<longleftrightarrow> (\<forall>job. map_of (mg_jobs m) j = Some job \<longrightarrow> \<not> halted job \<longrightarrow> (\<forall>k\<in>set (order_of m j). served m k))"

definition zero_gap :: "manager \<Rightarrow> bool" where
  "zero_gap m \<longleftrightarrow> (\<forall>j\<in>set (jobOrder m). job_served m j)"

lemma dispatches_job_served:
  assumes "dispatches m m'" and "job_served m j" shows "job_served m' j"
  unfolding job_served_def
proof (intro allI impI ballI)
  fix job' k assume j: "map_of (mg_jobs m') j = Some job'" and h: "\<not> halted job'" and k: "k \<in> set (order_of m' j)"
  from assms(1) j obtain job where "map_of (mg_jobs m) j = Some job" "jb_Status job' = jb_Status job"
    by (rule dispatches_jobs)
  with h have "map_of (mg_jobs m) j = Some job" "\<not> halted job" by (simp_all add: halted_def)
  then have "served m k" using assms k dispatches_frame(3) [OF assms(1)] by (auto simp: job_served_def)
  then show "served m' k" by (rule dispatches_served [OF assms(1)])
qed

lemma dispatch_job_spec:
  assumes "core_inv m" and "j \<in> dom (map_of (mg_jobs m))"
  shows "dispatches m (dispatch_job now j m) \<and> job_served (dispatch_job now j m) j"
proof -
  obtain job where job: "map_of (mg_jobs m) j = Some job" using assms(2) by auto
  show ?thesis
  proof (cases "halted job")
    case True
    then show ?thesis using job by (simp add: dispatch_job_def job_served_def dispatches_refl)
  next
    case False
    then have e: "dispatch_job now j m = fold (dispatch_item now j) (order_of m j) m"
      using job by (simp add: dispatch_job_def order_of_def)
    have s: "dispatches m (dispatch_job now j m)" "\<forall>k\<in>set (order_of m j). served (dispatch_job now j m) k"
      unfolding e using dispatch_items_spec [OF assms(1), of "order_of m j" j now] by auto
    show ?thesis using s dispatches_frame(3) [OF s(1)] by (simp add: job_served_def)
  qed
qed

lemma dispatch_jobs_spec:
  assumes "core_inv m" and "set js \<subseteq> dom (map_of (mg_jobs m))"
  shows "dispatches m (fold (dispatch_job now) js m) \<and> (\<forall>j\<in>set js. job_served (fold (dispatch_job now) js m) j)"
  using assms
proof (induction js arbitrary: m)
  case Nil
  then show ?case by (simp add: dispatches_refl)
next
  case (Cons x js)
  let ?m = "dispatch_job now x m"
  have x: "dispatches m ?m" "job_served ?m x" using dispatch_job_spec [OF Cons.prems(1)] Cons.prems(2) by auto
  have inv: "core_inv ?m" by (rule dispatches_core [OF x(1) Cons.prems(1)])
  have "set js \<subseteq> dom (map_of (mg_jobs ?m))"
    using Cons.prems dispatches_frame(2) [OF x(1)] inv by (auto simp: core_inv_def shape_ok_def)
  then have rest: "dispatches ?m (fold (dispatch_job now) js ?m)" "\<forall>j\<in>set js. job_served (fold (dispatch_job now) js ?m) j"
    using Cons.IH [OF inv] by auto
  show ?case using dispatches_trans [OF rest(1) x(1)] rest(2) dispatches_job_served [OF rest(1) x(2)] by auto
qed

lemma tryDispatchLocked_spec:
  assumes "core_inv m"
  shows "dispatches m (tryDispatchLocked now m)" and "zero_gap (tryDispatchLocked now m)"
proof -
  have "set (jobOrder m) \<subseteq> dom (map_of (mg_jobs m))" using assms by (simp add: core_inv_def shape_ok_def)
  then have *: "dispatches m (tryDispatchLocked now m) \<and> (\<forall>j\<in>set (jobOrder m). job_served (tryDispatchLocked now m) j)"
    using dispatch_jobs_spec [OF assms] by (simp add: tryDispatchLocked_def)
  then show "dispatches m (tryDispatchLocked now m)" "zero_gap (tryDispatchLocked now m)"
    using dispatches_frame(2) by (auto simp: zero_gap_def)
qed

end
