(* ===== verification/Job_Runs.thy ===== *)
theory Job_Runs
  imports Job_Queue
begin

text \<open>
  Every operation of the job manager keeps the invariant of \<open>Job_Queue\<close>, so it holds after every
  sequence of operations and whatever the workers return.
\<close>

section \<open>Worker slots\<close>

definition busy :: "manager \<Rightarrow> string \<Rightarrow> int" where
  "busy m w = int (length (filter (\<lambda>f. fl_workerID f = w) (flights m)))"

definition slots_ok :: "manager \<Rightarrow> bool" where
  "slots_ok m \<longleftrightarrow> (\<forall>w ws. map_of (mg_workers m) w = Some ws \<longrightarrow>
     1 \<le> ws_slots ws \<and> 0 \<le> ws_active ws \<and> ws_active ws \<le> ws_slots ws \<and> ws_active ws \<le> busy m w)"

definition queue_inv :: "manager \<Rightarrow> bool" where
  "queue_inv m \<longleftrightarrow> core_inv m \<and> slots_ok m \<and> zero_gap m"

lemma slots_ok_irrelevant [simp]: "slots_ok (m\<lparr>outbox := x\<rparr>) = slots_ok m" "slots_ok (m\<lparr>draws := d\<rparr>) = slots_ok m"
  by (simp_all add: slots_ok_def busy_def)

lemma zero_gap_irrelevant [simp]: "zero_gap (m\<lparr>outbox := x\<rparr>) = zero_gap m" "zero_gap (m\<lparr>draws := d\<rparr>) = zero_gap m"
  by (simp_all add: zero_gap_def job_served_def served_def free_for_def order_of_def)

lemma dispatches_slots:
  assumes "dispatches m m'" and "slots_ok m" shows "slots_ok m'"
  using assms
proof (induction rule: dispatches.induct)
  case (dispatches_lease m1 k job it w ws now)
  let ?m = "leaseLocked now k job it w ws m1"
  have ok: "slots_ok m1" by (rule dispatches_lease.IH [OF dispatches_lease.prems])
  have b: "busy ?m x = busy m1 x + of_bool (x = w)" for x
    using dispatches_lease.hyps(5) by (simp add: leaseLocked_eq busy_def)
  have ws: "map_of (mg_workers ?m) = (map_of (mg_workers m1))(w \<mapsto> ws\<lparr>ws_active := ws_active ws + 1\<rparr>)"
    using dispatches_lease.hyps(5) by (simp add: leaseLocked_eq)
  show ?case unfolding slots_ok_def ws
  proof (intro allI impI)
    fix x y assume "((map_of (mg_workers m1))(w \<mapsto> ws\<lparr>ws_active := ws_active ws + 1\<rparr>)) x = Some y"
    then show "1 \<le> ws_slots y \<and> 0 \<le> ws_active y \<and> ws_active y \<le> ws_slots y \<and> ws_active y \<le> busy ?m x"
      using ok dispatches_lease.hyps(7,8) unfolding slots_ok_def b by (cases "x = w") auto
  qed
qed simp_all

lemma tryDispatchLocked_inv:
  assumes "core_inv m" and "slots_ok m" shows "queue_inv (tryDispatchLocked now m)"
proof -
  note d = tryDispatchLocked_spec [OF assms(1), of now]
  show ?thesis unfolding queue_inv_def
    by (intro conjI dispatches_core [OF d(1) assms(1)] dispatches_slots [OF d(1) assms(2)] d(2))
qed

lemma queue_inv_irrelevant [simp]:
  "queue_inv (m\<lparr>outbox := x\<rparr>) = queue_inv m" "queue_inv (m\<lparr>draws := d\<rparr>) = queue_inv m"
  by (simp_all add: queue_inv_def)

lemma persist_ok:
  "map_of (mg_jobs m) j = Some job \<Longrightarrow> persistJobAsync j m = m\<lparr>outbox := outbox m @ [Persist_Job job]\<rparr>"
  "map_of (mg_items m) k = Some it \<Longrightarrow> persistItemAsync k m = m\<lparr>outbox := outbox m @ [Persist_Item it]\<rparr>"
  by (simp_all add: persistJobAsync_def persistItemAsync_def)

section \<open>Calls\<close>

definition triples :: "flight list \<Rightarrow> (item_identity \<times> i64 \<times> string) list" where
  "triples fs = map (\<lambda>f. (fl_key f, fl_token f, fl_workerID f)) fs"

lemma calls_triples: "calls m k = map snd (filter (\<lambda>t. fst t = k) (triples (flights m)))"
  by (simp add: calls_def triples_def filter_map o_def)

lemma busy_triples: "busy m w = int (length (filter (\<lambda>t. snd (snd t) = w) (triples (flights m))))"
  by (simp add: busy_def triples_def filter_map o_def)

lemma flight_keys: "(\<forall>f\<in>set fs. P (fl_key f)) \<longleftrightarrow> (\<forall>t\<in>set (triples fs). P (fst t))"
  by (simp add: triples_def)

lemma queue_inv_flights:
  assumes "triples fs = triples (flights m)" shows "queue_inv (m\<lparr>flights := fs\<rparr>) = queue_inv m"
proof -
  have "calls (m\<lparr>flights := fs\<rparr>) = calls m" "busy (m\<lparr>flights := fs\<rparr>) = busy m"
    using assms by (simp_all add: calls_triples busy_triples fun_eq_iff)
  moreover have "shape_ok (m\<lparr>flights := fs\<rparr>) = shape_ok m"
    using assms by (simp add: shape_ok_def order_of_def all_keys_def
        flight_keys [where P = "\<lambda>k. k \<in> set (mget_zero [] (itemOrder m) (ii_jobID k))"])
  ultimately show ?thesis
    by (simp add: queue_inv_def core_inv_def orders_ok_def slots_ok_def zero_gap_def job_served_def served_def
        free_for_def order_of_def job_ok_def tally_def state_at_def workers_of_def)
qed

lemma triples_update:
  assumes "n < length fs" and "fl_key f = fl_key (fs ! n)" "fl_token f = fl_token (fs ! n)" "fl_workerID f = fl_workerID (fs ! n)"
  shows "triples (fs[n := f]) = triples fs"
  using assms by (intro nth_equalityI) (auto simp: triples_def nth_list_update)

lemma calls_drop:
  assumes "n < length (flights m)" and f: "f = flights m ! n"
  shows "k \<noteq> fl_key f \<Longrightarrow> calls (m\<lparr>flights := drop_nth n (flights m)\<rparr>) k = calls m k"
    and "\<exists>xs ys. calls m (fl_key f) = xs @ (fl_token f, fl_workerID f) # ys \<and>
           calls (m\<lparr>flights := drop_nth n (flights m)\<rparr>) (fl_key f) = xs @ ys"
    and "busy (m\<lparr>flights := drop_nth n (flights m)\<rparr>) w = busy m w - of_bool (w = fl_workerID f)"
proof -
  have s: "flights m = take n (flights m) @ f # drop (Suc n) (flights m)" using id_take_nth_drop [OF assms(1)] f by simp
  obtain xs ys where xy: "flights m = xs @ f # ys" "drop_nth n (flights m) = xs @ ys"
    using that [OF s] unfolding drop_nth_def by blast
  show "k \<noteq> fl_key f \<Longrightarrow> calls (m\<lparr>flights := drop_nth n (flights m)\<rparr>) k = calls m k" using xy by (simp add: calls_def)
  show "\<exists>xs ys. calls m (fl_key f) = xs @ (fl_token f, fl_workerID f) # ys \<and>
           calls (m\<lparr>flights := drop_nth n (flights m)\<rparr>) (fl_key f) = xs @ ys" using xy by (auto simp: calls_def)
  show "busy (m\<lparr>flights := drop_nth n (flights m)\<rparr>) w = busy m w - of_bool (w = fl_workerID f)" using xy by (simp add: busy_def)
qed

section \<open>Attempts\<close>

definition settled :: "work_item \<Rightarrow> bool" where
  "settled it \<longleftrightarrow> wi_State it = WorkItemSuccess \<or> wi_State it = WorkItemFailed"

definition attempts_left :: "manager \<Rightarrow> item_identity \<Rightarrow> nat" where
  "attempts_left m k =
     (case (map_of (mg_jobs m) (ii_jobID k), map_of (mg_items m) k) of
        (Some job, Some it) \<Rightarrow> nat (jb_MaxAttempts job - wi_Attempt it)
      | _ \<Rightarrow> 0)"

text \<open>The calls that can still return: those in flight and those that the attempts left allow.\<close>

definition potential :: "manager \<Rightarrow> nat" where
  "potential m = sum_list (map (attempts_left m) (all_keys m)) + length (flights m)"

text \<open>What every operation but a submission and the return of a call keeps.\<close>

definition keeps_settled :: "manager \<Rightarrow> manager \<Rightarrow> bool" where
  "keeps_settled m m' \<longleftrightarrow> (\<forall>k it. map_of (mg_items m) k = Some it \<longrightarrow> settled it \<longrightarrow> map_of (mg_items m') k = Some it)"

definition flow :: "manager \<Rightarrow> manager \<Rightarrow> bool" where
  "flow m m' \<longleftrightarrow> potential m' = potential m \<and> keeps_settled m m'"

lemma flow_trans: "flow m m1 \<Longrightarrow> flow m1 m2 \<Longrightarrow> flow m m2"
  by (simp add: flow_def keeps_settled_def)

lemma flow_same:
  assumes "mg_items m' = mg_items m" "mg_jobs m' = mg_jobs m" "itemOrder m' = itemOrder m" "length (flights m') = length (flights m)"
  shows "flow m m'"
proof -
  have "attempts_left m' = attempts_left m" using assms by (simp add: attempts_left_def fun_eq_iff)
  then show ?thesis using assms by (simp add: flow_def keeps_settled_def potential_def all_keys_def)
qed

lemma flow_put:
  assumes "map_of (mg_items m) k = Some it" "\<not> settled it" "map_of (mg_jobs m) (ii_jobID k) = Some job"
    and "wi_Attempt it' = wi_Attempt it" "jb_MaxAttempts job' = jb_MaxAttempts job"
    and m': "mg_items m' = mput k it' (mg_items m)" "mg_jobs m' = mput (ii_jobID k) job' (mg_jobs m)"
      "itemOrder m' = itemOrder m" "length (flights m') = length (flights m)"
  shows "flow m m'"
proof -
  have "attempts_left m' x = attempts_left m x" for x
    using assms by (auto simp: attempts_left_def split: option.splits)
  then have "attempts_left m' = attempts_left m" by (simp add: fun_eq_iff)
  then show ?thesis using assms by (auto simp: flow_def keeps_settled_def potential_def all_keys_def)
qed

lemma flow_job:
  assumes "map_of (mg_jobs m) j = Some job" "jb_MaxAttempts job' = jb_MaxAttempts job"
    and m': "mg_items m' = mg_items m" "mg_jobs m' = mput j job' (mg_jobs m)" "itemOrder m' = itemOrder m" "length (flights m') = length (flights m)"
  shows "flow m m'"
proof -
  have "attempts_left m' x = attempts_left m x" for x
    using assms by (auto simp: attempts_left_def split: option.splits)
  then have "attempts_left m' = attempts_left m" by (simp add: fun_eq_iff)
  then show ?thesis using m' by (simp add: flow_def keeps_settled_def potential_def all_keys_def)
qed

lemma sum_list_one_less:
  assumes "distinct xs" "k \<in> set xs" "f k = Suc (g k)" "\<And>x. x \<noteq> k \<Longrightarrow> f x = g x"
  shows "sum_list (map f xs) = Suc (sum_list (map g xs))"
  using assms(1,2)
proof (induction xs)
  case (Cons a xs)
  have same: "sum_list (map f ys) = sum_list (map g ys)" if "k \<notin> set ys" for ys
    using that assms(4) by (metis map_eq_conv)
  show ?case using Cons same [of xs] assms(3) assms(4) [of a] by (cases "a = k") auto
qed simp

lemma order_in_all_keys:
  assumes "k \<in> set (order_of m j)" shows "k \<in> set (all_keys m)"
proof (cases "map_of (itemOrder m) j")
  case (Some ks)
  then show ?thesis using assms map_of_SomeD [OF Some] by (force simp: order_of_def mget_zero_def all_keys_def)
qed (use assms in \<open>simp add: order_of_def mget_zero_def\<close>)

lemma core_item_ok:
  assumes "core_inv m" and "k \<in> set (order_of m j)" and "map_of (mg_jobs m) j = Some job" and "map_of (mg_items m) k = Some it"
  shows "item_ok (workers_of m) (jb_MaxAttempts job) (mget_zero 0 (leaseTok m) k) (calls m k) k it"
  using core_item [OF assms(1,2)] assms(3,4) by (metis option.inject)

lemma dispatches_flow:
  assumes "dispatches m m'" and "core_inv m" shows "flow m m'"
  using assms(1)
proof (induction rule: dispatches.induct)
  case dispatches_refl
  then show ?case by (rule flow_same) simp_all
next
  case (dispatches_draw m1 d)
  have "flow m1 (m1\<lparr>draws := d\<rparr>)" by (rule flow_same) simp_all
  then show ?case by (rule flow_trans [OF dispatches_draw.IH])
next
  case (dispatches_lease m1 k job it w ws now)
  let ?m = "leaseLocked now k job it w ws m1"
  have core: "core_inv m1" by (rule dispatches_core [OF dispatches_lease.hyps(1) assms(2)])
  have cap: "wi_Attempt it < jb_MaxAttempts job"
    using core_item_ok [OF core dispatches_lease.hyps(2-4)] dispatches_lease.hyps(6) by (simp add: item_ok_def)
  have k: "k \<in> set (all_keys m1)" "distinct (all_keys m1)"
    using dispatches_lease.hyps(2) order_in_all_keys core by (auto simp: core_inv_def shape_ok_def)
  note eq = leaseLocked_eq [OF dispatches_lease.hyps(5), of now job w ws m1]
  have "attempts_left m1 k = Suc (attempts_left ?m k)"
    using dispatches_lease.hyps(3,4) cap by (simp add: attempts_left_def eq leased_item_def leased_job_def)
  moreover have "attempts_left m1 x = attempts_left ?m x" if "x \<noteq> k" for x
    using that dispatches_lease.hyps(3,4) by (auto simp: attempts_left_def eq leased_job_def split: option.splits)
  ultimately have "sum_list (map (attempts_left m1) (all_keys m1)) = Suc (sum_list (map (attempts_left ?m) (all_keys m1)))"
    by (intro sum_list_one_less [OF k(2,1)]) auto
  then have "potential ?m = potential m1" by (simp add: potential_def eq all_keys_def)
  moreover have "keeps_settled m1 ?m" using dispatches_lease.hyps(4,6) by (auto simp: keeps_settled_def settled_def eq)
  ultimately show ?case using flow_trans [OF dispatches_lease.IH] by (simp add: flow_def)
qed

section \<open>Settling an item\<close>

lemma tally_nonneg: "0 \<le> tally P m ks"
  by (simp add: tally_def)

lemma tally_pos: "k \<in> set ks \<Longrightarrow> P (state_at m k) \<Longrightarrow> 1 \<le> tally P m ks"
  by (induction ks) (auto simp: tally_Cons tally_nonneg add_nonneg_pos add_increasing)

lemma job_ok_settled:
  assumes ok: "job_ok m ks job" and d: "distinct ks" "k \<in> set ks" and act: "in_flight (state_at m k)"
    and items: "mg_items m' = mput k it' (mg_items m)"
    and st: "wi_State it' \<in> {WorkItemQueued, WorkItemSuccess, WorkItemFailed}"
    and job': "jb_Status job' = jb_Status job" "jb_MaxAttempts job' = jb_MaxAttempts job"
      "jp_Total (jb_Progress job') = jp_Total (jb_Progress job)" "jp_Running (jb_Progress job') = jp_Running (jb_Progress job) - 1"
      "jp_Queued (jb_Progress job') = jp_Queued (jb_Progress job) + of_bool (wi_State it' = WorkItemQueued)"
      "jp_Success (jb_Progress job') = jp_Success (jb_Progress job) + of_bool (wi_State it' = WorkItemSuccess)"
      "jp_Failed (jb_Progress job') = jp_Failed (jb_Progress job) + of_bool (wi_State it' = WorkItemFailed)"
  shows "job_ok m' ks (recomputeJobStatusLocked job')"
proof -
  have run: "1 \<le> jp_Running (jb_Progress job)" using ok tally_pos [OF d(2), of in_flight m] act by (simp add: job_ok_def)
  have old: "state_at m k \<notin> {WorkItemQueued, WorkItemSuccess, WorkItemFailed, WorkItemCancelled}"
    using act by (auto simp: in_flight_def)
  have new: "\<not> in_flight (wi_State it')" "wi_State it' \<noteq> WorkItemCancelled" using st by (auto simp: in_flight_def)
  have nn: "0 \<le> jp_Queued (jb_Progress job)" "0 \<le> jp_Failed (jb_Progress job)" using ok tally_nonneg by (simp_all add: job_ok_def)
  have t: "tally (\<lambda>s. s = WorkItemQueued) m' ks = jp_Queued (jb_Progress job')" "tally in_flight m' ks = jp_Running (jb_Progress job')"
    "tally (\<lambda>s. s = WorkItemSuccess) m' ks = jp_Success (jb_Progress job')" "tally (\<lambda>s. s = WorkItemFailed) m' ks = jp_Failed (jb_Progress job')"
    "tally (\<lambda>s. s = WorkItemCancelled) m' ks = tally (\<lambda>s. s = WorkItemCancelled) m ks"
    unfolding tally_update [OF d items] job' using ok old new act by (simp_all add: job_ok_def)
  have s: "jb_Status job \<in> {JobRunning, JobPaused, JobCancelled}" using ok run nn by (auto simp: job_ok_def)
  have p: "jb_Progress (recomputeJobStatusLocked job') = jb_Progress job'" "jb_MaxAttempts (recomputeJobStatusLocked job') = jb_MaxAttempts job"
    using job' by (simp_all add: recomputeJobStatusLocked_def)
  have z: "jb_Status job \<noteq> JobCancelled \<Longrightarrow> tally (\<lambda>s. s = WorkItemCancelled) m ks = 0" using ok by (simp add: job_ok_def)
  have q: "0 < jb_MaxAttempts job" "jp_Total (jb_Progress job) = int (length ks)" using ok by (simp_all add: job_ok_def)
  have pos: "0 \<le> jp_Queued (jb_Progress job')" "0 \<le> jp_Running (jb_Progress job')" "0 \<le> jp_Failed (jb_Progress job')"
    unfolding job' using nn run by simp_all
  show ?thesis unfolding job_ok_def t p job'(3) using s z q pos by (auto simp: recomputeJobStatusLocked_def job'(1))
qed

lemma item_ok_stale:
  assumes "item_ok ws cap tok (xs @ c # ys) k it" and "fst c \<noteq> tok" shows "item_ok ws cap tok (xs @ ys) k it"
  using assms by (auto simp: item_ok_def)

lemma item_ok_current:
  assumes "item_ok ws cap tok (xs @ (tok, w) # ys) k it"
  shows "in_flight (wi_State it)" "wi_LeaseOwner it = w" "w \<in> ws" "tok \<notin> fst ` set (xs @ ys)"
    "distinct (map fst (xs @ ys))" "\<forall>c\<in>set (xs @ ys). fst c \<le> tok"
proof -
  show f: "in_flight (wi_State it)" using assms by (auto simp: item_ok_def)
  have d: "distinct (map fst (xs @ (tok, w) # ys))" using assms by (simp add: item_ok_def)
  have "(tok, wi_LeaseOwner it) \<in> set (xs @ (tok, w) # ys)" using assms f by (simp add: item_ok_def)
  then show o: "wi_LeaseOwner it = w" using d by force
  show "w \<in> ws" using assms f o by (simp add: item_ok_def)
  show "tok \<notin> fst ` set (xs @ ys)" using d by auto
  show "distinct (map fst (xs @ ys))" "\<forall>c\<in>set (xs @ ys). fst c \<le> tok" using assms by (auto simp: item_ok_def)
qed

lemma tried_with:
  assumes "distinct (wi_TriedWorkers it)" "set (wi_TriedWorkers it) \<subseteq> ws" "w \<in> ws"
  shows "distinct (tried_with w it)" "set (tried_with w it) \<subseteq> ws"
  using assms by (auto simp: tried_with_def contains_def)

lemma tried_with_cong: "wi_TriedWorkers it = wi_TriedWorkers it' \<Longrightarrow> tried_with w it = tried_with w it'"
  by (simp add: tried_with_def)

lemma not_spent:
  assumes "gomap_wf (mg_workers m)" and "set (wi_TriedWorkers it) \<subseteq> workers_of m" and "distinct (wi_TriedWorkers it)"
    and "workers_of m \<noteq> {}" and "\<not> spent m job it"
  shows "set (wi_TriedWorkers it) \<noteq> workers_of m" and "wi_Attempt it < jb_MaxAttempts job"
proof -
  have "card (workers_of m) = length (mg_workers m)"
    using assms(1) by (simp add: workers_of_def dom_map_of_conv_image_fst gomap_wf_def distinct_card flip: set_map)
  moreover have "mg_workers m \<noteq> []" using assms(4) by (auto simp: workers_of_def)
  ultimately show "set (wi_TriedWorkers it) \<noteq> workers_of m" using assms(3,5) distinct_card by (fastforce simp: spent_def)
  show "wi_Attempt it < jb_MaxAttempts job" using assms(5) by (simp add: spent_def)
qed

text \<open>How the end of a call changes the item and its job: the item is queued again, done or failed.\<close>

definition settles :: "string set \<Rightarrow> job \<Rightarrow> work_item \<Rightarrow> job \<Rightarrow> work_item \<Rightarrow> bool" where
  "settles ws job it job' it' \<longleftrightarrow>
     wi_State it' \<in> {WorkItemQueued, WorkItemSuccess, WorkItemFailed} \<and>
     key_of it' = key_of it \<and> wi_Attempt it' = wi_Attempt it \<and> distinct (wi_TriedWorkers it') \<and> set (wi_TriedWorkers it') \<subseteq> ws \<and>
     (wi_State it' = WorkItemQueued \<longrightarrow> wi_Attempt it' < jb_MaxAttempts job \<and> set (wi_TriedWorkers it') \<noteq> ws) \<and>
     jb_Status job' = jb_Status job \<and> jb_MaxAttempts job' = jb_MaxAttempts job \<and>
     jp_Total (jb_Progress job') = jp_Total (jb_Progress job) \<and> jp_Running (jb_Progress job') = jp_Running (jb_Progress job) - 1 \<and>
     jp_Queued (jb_Progress job') = jp_Queued (jb_Progress job) + of_bool (wi_State it' = WorkItemQueued) \<and>
     jp_Success (jb_Progress job') = jp_Success (jb_Progress job) + of_bool (wi_State it' = WorkItemSuccess) \<and>
     jp_Failed (jb_Progress job') = jp_Failed (jb_Progress job) + of_bool (wi_State it' = WorkItemFailed)"

lemma run_down_simps [simp]:
  "jb_Status (run_down now job) = jb_Status job" "jb_MaxAttempts (run_down now job) = jb_MaxAttempts job"
  "jb_Progress (run_down now job) = (jb_Progress job)\<lparr>jp_Running := jp_Running (jb_Progress job) - 1\<rparr>"
  by (simp_all add: run_down_def)

lemma retry_settles:
  assumes r: "retry_or_fail m (run_down now job) it1 = (job', it')"
    and it1: "key_of it1 = key_of it" "wi_Attempt it1 = wi_Attempt it" "wi_TriedWorkers it1 = tried_with w it"
    and ws: "gomap_wf (mg_workers m)" "workers_of m = ws" "w \<in> ws" "distinct (wi_TriedWorkers it)" "set (wi_TriedWorkers it) \<subseteq> ws"
  shows "settles ws job it job' it'"
proof (cases "spent m (run_down now job) it1")
  case True
  then have "job' = (run_down now job)\<lparr>jb_Progress := (jb_Progress (run_down now job))\<lparr>jp_Failed := jp_Failed (jb_Progress job) + 1\<rparr>\<rparr>"
    "it' = it1\<lparr>wi_State := WorkItemFailed\<rparr>" using r by (simp_all add: retry_or_fail_def Let_def)
  then show ?thesis using it1 tried_with [OF ws(4,5,3)] by (simp add: settles_def key_of_def)
next
  case False
  then have e: "job' = (run_down now job)\<lparr>jb_Progress := (jb_Progress (run_down now job))\<lparr>jp_Queued := jp_Queued (jb_Progress job) + 1,
      jp_Retried := jp_Retried (jb_Progress job) + 1\<rparr>\<rparr>"
    "it' = it1\<lparr>wi_State := WorkItemQueued\<rparr>" using r by (simp_all add: retry_or_fail_def Let_def)
  have "set (wi_TriedWorkers it1) \<noteq> ws" "wi_Attempt it1 < jb_MaxAttempts (run_down now job)"
    using not_spent [OF ws(1) _ _ _ False] it1 tried_with [OF ws(4,5,3)] ws(2,3) by auto
  then show ?thesis using e it1 tried_with [OF ws(4,5,3)] by (simp add: settles_def key_of_def)
qed

lemma settled_core:
  assumes inv: "core_inv m" and k: "k \<in> set (order_of m j)"
    and old: "map_of (mg_jobs m) j = Some job" "map_of (mg_items m) k = Some it" "in_flight (wi_State it)"
    and m': "mg_items m' = mput k it' (mg_items m)" "mg_jobs m' = mput j (recomputeJobStatusLocked job') (mg_jobs m)"
      "itemOrder m' = itemOrder m" "jobOrder m' = jobOrder m" "idSeq m' = idSeq m" "panicked m' = panicked m"
      "defaultMaxAttempts m' = defaultMaxAttempts m" "workers_of m' = workers_of m" "gomap_wf (mg_workers m')"
    and tok: "\<And>k'. k' \<noteq> k \<Longrightarrow> mget_zero 0 (leaseTok m') k' = mget_zero 0 (leaseTok m) k'"
    and fl: "\<And>k'. k' \<noteq> k \<Longrightarrow> calls m' k' = calls m k'" "set (flights m') \<subseteq> set (flights m)"
    and cs: "distinct (map fst (calls m' k))" "\<forall>c\<in>set (calls m' k). fst c \<le> mget_zero 0 (leaseTok m') k"
      "mget_zero 0 (leaseTok m') k \<notin> fst ` set (calls m' k)"
    and set: "settles (workers_of m) job it job' it'"
  shows "core_inv m'"
proof -
  from inv k obtain ks where ks: "map_of (itemOrder m) j = Some ks" "order_of m j = ks" "k \<in> set ks" "job_ok m ks job"
    and ok: "item_ok (workers_of m) (jb_MaxAttempts job) (mget_zero 0 (leaseTok m) k) (calls m k) k it"
    using old by (elim core_item) auto
  note set = set [unfolded settles_def]
  have d: "distinct ks" using order_distinct [OF inv] ks(2) by metis
  have act: "in_flight (state_at m k)" using old by (simp add: state_at_def)
  have cap: "jb_MaxAttempts (recomputeJobStatusLocked job') = jb_MaxAttempts job"
    using set by (simp add: recomputeJobStatusLocked_def)
  have nf: "\<not> in_flight (wi_State it')" using set by (auto simp: in_flight_def)
  have "item_ok (workers_of m) (jb_MaxAttempts job) (mget_zero 0 (leaseTok m') k) (calls m' k) k it'"
    unfolding item_ok_def
  proof (intro conjI)
    show "key_of it' = k" "0 \<le> wi_Attempt it'" "wi_Attempt it' \<le> jb_MaxAttempts job" using ok set by (simp_all add: item_ok_def)
  qed (use set cs nf in blast)+
  moreover have "job_ok m' ks (recomputeJobStatusLocked job')"
    by (rule job_ok_settled [OF ks(4) d ks(3) act m'(1)]) (use set in simp_all)
  ultimately show ?thesis
    using fl(2) by (intro core_inv_update [OF inv ks(1,3) old(1) cap m' tok fl(1)]) auto
qed

lemma free_slot_frame:
  obtains ws where "free_slot w m = m\<lparr>mg_workers := ws\<rparr>" "dom (map_of ws) = workers_of m"
    "gomap_wf (mg_workers m) \<Longrightarrow> gomap_wf ws"
proof (cases "\<exists>x. map_of (mg_workers m) w = Some x \<and> 0 < ws_active x")
  case True
  then obtain x where "map_of (mg_workers m) w = Some x" "0 < ws_active x" by blast
  then show ?thesis
    by (intro that [of "mput w (x\<lparr>ws_active := ws_active x - 1\<rparr>) (mg_workers m)"]) (auto simp: free_slot_def workers_of_def)
next
  case False
  then have "free_slot w m = m" by (auto simp: free_slot_def split: option.splits)
  then show ?thesis by (intro that [of "mg_workers m"]) (auto simp: workers_of_def)
qed

lemma free_slot_slots:
  assumes ok: "slots_ok m" and ws: "mg_workers m1 = mg_workers m" and b: "\<And>x. busy m x - of_bool (x = w) \<le> busy m1 x"
  shows "slots_ok (free_slot w m1)"
  unfolding slots_ok_def
proof (intro allI impI)
  fix x y assume y: "map_of (mg_workers (free_slot w m1)) x = Some y"
  have busy: "busy (free_slot w m1) x = busy m1 x" by (rule free_slot_frame [of w m1]) (simp add: busy_def)
  have pos: "0 \<le> busy m1 x" by (simp add: busy_def)
  have old: "1 \<le> ws_slots z \<and> 0 \<le> ws_active z \<and> ws_active z \<le> ws_slots z \<and> ws_active z \<le> busy m x"
    if "map_of (mg_workers m) x = Some z" for z using ok that by (simp add: slots_ok_def)
  show "1 \<le> ws_slots y \<and> 0 \<le> ws_active y \<and> ws_active y \<le> ws_slots y \<and> ws_active y \<le> busy (free_slot w m1) x"
    using y old b [of x] pos unfolding busy by (cases "x = w") (auto simp: free_slot_def ws split: option.splits if_splits)
qed

lemma put_item_simps [simp]:
  "mg_items (put_item k it job m) = mput k it (mg_items m)" "mg_jobs (put_item k it job m) = mput (ii_jobID k) job (mg_jobs m)"
  "itemOrder (put_item k it job m) = itemOrder m" "jobOrder (put_item k it job m) = jobOrder m" "idSeq (put_item k it job m) = idSeq m"
  "panicked (put_item k it job m) = panicked m" "defaultMaxAttempts (put_item k it job m) = defaultMaxAttempts m"
  "mg_workers (put_item k it job m) = mg_workers m" "leaseTok (put_item k it job m) = leaseTok m"
  "flights (put_item k it job m) = flights m" "outbox (put_item k it job m) = outbox m"
  by (simp_all add: put_item_def)

lemma put_item_views [simp]:
  "workers_of (put_item k it job m) = workers_of m" "calls (put_item k it job m) = calls m" "busy (put_item k it job m) = busy m"
  "slots_ok (put_item k it job m) = slots_ok m" "order_of (put_item k it job m) = order_of m"
  by (simp_all add: workers_of_def calls_def busy_def slots_ok_def order_of_def fun_eq_iff)

lemma view_simps [simp]:
  "calls (m\<lparr>leaseTok := t\<rparr>) = calls m" "calls (m\<lparr>mg_workers := ws\<rparr>) = calls m" "calls (m\<lparr>outbox := x\<rparr>) = calls m"
  "calls (m\<lparr>draws := ds\<rparr>) = calls m" "busy (m\<lparr>leaseTok := t\<rparr>) = busy m" "busy (m\<lparr>mg_workers := ws\<rparr>) = busy m"
  "busy (m\<lparr>outbox := x\<rparr>) = busy m" "busy (m\<lparr>draws := ds\<rparr>) = busy m" "workers_of (m\<lparr>leaseTok := t\<rparr>) = workers_of m"
  "workers_of (m\<lparr>mg_workers := ws\<rparr>) = dom (map_of ws)" "workers_of (m\<lparr>flights := fs\<rparr>) = workers_of m"
  by (simp_all add: calls_def busy_def workers_of_def fun_eq_iff)

lemma expired_item_simps [simp]:
  "key_of (expired_item now it) = key_of it" "wi_Attempt (expired_item now it) = wi_Attempt it"
  "wi_TriedWorkers (expired_item now it) = tried_with (wi_LeaseOwner it) it"
  by (simp_all add: expired_item_def key_of_def)

lemma reap_item_expired:
  assumes inv: "core_inv m" "slots_ok m" and k: "k \<in> set (order_of m j)" "ii_jobID k = j"
    and old: "map_of (mg_jobs m) j = Some job" "map_of (mg_items m) k = Some it" "expired now it"
    and ok: "item_ok (workers_of m) (jb_MaxAttempts job) (mget_zero 0 (leaseTok m) k) (calls m k) k it"
  obtains job' it' ws x where
    "reap_item now j k (m, d) = (put_item k it' (recomputeJobStatusLocked job')
       (m\<lparr>leaseTok := mput k (mget_zero 0 (leaseTok m) k + 1) (leaseTok m), mg_workers := ws, outbox := x\<rparr>), True)"
    "core_inv (fst (reap_item now j k (m, d)))" "slots_ok (fst (reap_item now j k (m, d)))" "flow m (fst (reap_item now j k (m, d)))"
proof -
  let ?t = "mget_zero 0 (leaseTok m) k + 1"
  let ?m0 = "m\<lparr>leaseTok := mput k ?t (leaseTok m)\<rparr>"
  obtain ws where ws: "free_slot (wi_LeaseOwner it) ?m0 = ?m0\<lparr>mg_workers := ws\<rparr>" "dom (map_of ws) = workers_of m"
    "gomap_wf (mg_workers m) \<Longrightarrow> gomap_wf ws"
    by (rule free_slot_frame [of "wi_LeaseOwner it" ?m0]) (simp add: workers_of_def)
  let ?m1 = "?m0\<lparr>mg_workers := ws\<rparr>"
  obtain job' it' where r: "retry_or_fail ?m1 (run_down now job) (expired_item now it) = (job', it')" by force
  let ?m2 = "put_item k it' (recomputeJobStatusLocked job') ?m1"
  obtain x where e: "reap_item now j k (m, d) = (?m2\<lparr>outbox := x\<rparr>, True)"
    using old k ws(1) r by (simp add: reap_item_def persist_ok)
  have wf: "gomap_wf ws" using inv ws(3) by (simp add: core_inv_def shape_ok_def)
  have fl: "in_flight (wi_State it)" using old(3) by (auto simp: expired_def in_flight_def)
  have "settles (workers_of m) job it job' it'"
    by (rule retry_settles [OF r, where w = "wi_LeaseOwner it"]) (use wf ws(2) ok fl in \<open>simp_all add: item_ok_def\<close>)
  note sets = this and fields = this [unfolded settles_def]
  have cs0: "distinct (map fst (calls m k))" "\<forall>c\<in>set (calls m k). fst c \<le> ?t - 1" using ok by (simp_all add: item_ok_def)
  then have cs: "distinct (map fst (calls m k))" "\<forall>c\<in>set (calls m k). fst c \<le> ?t" "?t \<notin> fst ` set (calls m k)" by force+
  have "core_inv ?m2"
    by (rule settled_core [OF inv(1) k(1) old(1,2) fl _ _ _ _ _ _ _ _ _ _ _ _ _ _ _ sets])
      (simp_all add: k(2) ws(2) wf cs)
  moreover have "slots_ok ?m2"
    using free_slot_slots [OF inv(2), of ?m0 "wi_LeaseOwner it"] ws(1) by (simp add: busy_def)
  moreover have "flow m (?m2\<lparr>outbox := x\<rparr>)"
  proof (rule flow_put [of m k it job it' "recomputeJobStatusLocked job'"])
    show "\<not> settled it" using fl by (auto simp: settled_def in_flight_def)
    show "wi_Attempt it' = wi_Attempt it" "jb_MaxAttempts (recomputeJobStatusLocked job') = jb_MaxAttempts job"
      using fields by (simp_all add: recomputeJobStatusLocked_def)
  qed (use old k in simp_all)
  ultimately show ?thesis using e by (intro that [of it' job' x ws]) (simp_all add: put_item_def)
qed

lemma settle_settles:
  assumes s: "settle now w out m job it = (job', it')"
    and ws: "gomap_wf (mg_workers m)" "workers_of m = ws" "w \<in> ws" "distinct (wi_TriedWorkers it)" "set (wi_TriedWorkers it) \<subseteq> ws"
  shows "settles ws job it job' it'"
proof (cases out)
  case (Inr res)
  have "job' = (run_down now job)\<lparr>jb_Progress := (jb_Progress (run_down now job))\<lparr>jp_Success := jp_Success (jb_Progress (run_down now job)) + 1\<rparr>\<rparr>"
    "it' = it\<lparr>wi_UpdatedAt := now, wi_State := WorkItemSuccess, wi_ResultRef := jr_Output res\<rparr>"
    using s Inr by (simp_all add: settle_def Let_def)
  then show ?thesis using ws by (simp add: settles_def key_of_def)
next
  case (Inl err)
  have "retry_or_fail m (run_down now job) (it\<lparr>wi_UpdatedAt := now, wi_LastError := err, wi_TriedWorkers := tried_with w it\<rparr>) = (job', it')"
    using s Inl tried_with_cong [of "it\<lparr>wi_UpdatedAt := now\<rparr>" it] by (simp add: settle_def failItemLocked_def Let_def)
  then show ?thesis by (rule retry_settles) (use ws in \<open>simp_all add: key_of_def\<close>)
qed

section \<open>Every operation keeps the invariant\<close>

lemma persist_frame:
  assumes "core_inv m" and "k \<in> set (order_of m (ii_jobID k))"
  shows "\<exists>x. persistItemAsync k (persistJobAsync (ii_jobID k) m) = m\<lparr>outbox := x\<rparr>"
proof -
  from assms obtain job it where "map_of (mg_jobs m) (ii_jobID k) = Some job" "map_of (mg_items m) k = Some it"
    by (elim core_item) auto
  then show ?thesis by (auto simp: persist_ok)
qed

lemma unchanged_item_core:
  assumes inv: "core_inv m" and k: "k \<in> set (order_of m j)"
    and old: "map_of (mg_jobs m) j = Some job" "map_of (mg_items m) k = Some it"
    and m': "mg_items m' = mg_items m" "mg_jobs m' = mg_jobs m"
      "itemOrder m' = itemOrder m" "jobOrder m' = jobOrder m" "idSeq m' = idSeq m" "panicked m' = panicked m"
      "defaultMaxAttempts m' = defaultMaxAttempts m" "workers_of m' = workers_of m" "gomap_wf (mg_workers m')" "leaseTok m' = leaseTok m"
    and fl: "\<And>k'. k' \<noteq> k \<Longrightarrow> calls m' k' = calls m k'" "set (flights m') \<subseteq> set (flights m)"
    and ok: "item_ok (workers_of m) (jb_MaxAttempts job) (mget_zero 0 (leaseTok m) k) (calls m' k) k it"
  shows "core_inv m'"
proof -
  from inv k obtain ks where ks: "map_of (itemOrder m) j = Some ks" "k \<in> set ks" "job_ok m ks job"
    using old by (elim core_item) auto
  have same: "mg_items m' = mput k it (mg_items m)" "mg_jobs m' = mput j job (mg_jobs m)"
    using m' old by (simp_all add: update_triv)
  have "job_ok m' ks job" using ks(3) job_ok_cong [of ks m' m job] m'(1) by (simp add: state_at_def)
  then show ?thesis
    using fl(2) ok m'(10) by (intro core_inv_update [OF inv ks(1,2) old(1) refl same m'(3-9) _ fl(1)]) auto
qed

lemma cancelled_core:
  assumes inv: "core_inv m" and k: "k \<in> set (order_of m j)"
    and old: "map_of (mg_jobs m) j = Some job" "map_of (mg_items m) k = Some it"
    and st: "wi_State it = WorkItemQueued \<or> in_flight (wi_State it)" "jb_Status job = JobCancelled"
    and m': "mg_items m' = mput k (it\<lparr>wi_State := WorkItemCancelled, wi_UpdatedAt := now\<rparr>) (mg_items m)" "mg_jobs m' = mput j job' (mg_jobs m)"
      "itemOrder m' = itemOrder m" "jobOrder m' = jobOrder m" "idSeq m' = idSeq m" "panicked m' = panicked m"
      "defaultMaxAttempts m' = defaultMaxAttempts m" "workers_of m' = workers_of m" "gomap_wf (mg_workers m')" "leaseTok m' = leaseTok m"
    and fl: "\<And>k'. k' \<noteq> k \<Longrightarrow> calls m' k' = calls m k'" "set (flights m') \<subseteq> set (flights m)"
    and cs: "distinct (map fst (calls m' k))" "\<forall>c\<in>set (calls m' k). fst c \<le> mget_zero 0 (leaseTok m) k"
      "mget_zero 0 (leaseTok m) k \<notin> fst ` set (calls m' k)"
    and job': "jb_Status job' = jb_Status job" "jb_MaxAttempts job' = jb_MaxAttempts job"
      "jb_Progress job' = (jb_Progress job)\<lparr>jp_Queued := jp_Queued (jb_Progress job) - of_bool (wi_State it = WorkItemQueued),
         jp_Running := jp_Running (jb_Progress job) - of_bool (in_flight (wi_State it))\<rparr>"
  shows "core_inv m'"
proof -
  let ?it = "it\<lparr>wi_State := WorkItemCancelled, wi_UpdatedAt := now\<rparr>"
  from inv k obtain ks where ks: "map_of (itemOrder m) j = Some ks" "order_of m j = ks" "k \<in> set ks" "job_ok m ks job"
    and ok: "item_ok (workers_of m) (jb_MaxAttempts job) (mget_zero 0 (leaseTok m) k) (calls m k) k it"
    using old by (elim core_item) auto
  have d: "distinct ks" using order_distinct [OF inv] ks(2) by metis
  have s: "state_at m k = wi_State it" using old by (simp add: state_at_def)
  have x: "\<not> (wi_State it = WorkItemQueued \<and> in_flight (wi_State it))" "wi_State it \<noteq> WorkItemSuccess" "wi_State it \<noteq> WorkItemFailed"
    "\<not> in_flight WorkItemCancelled" using st(1) by (auto simp: in_flight_def)
  have "item_ok (workers_of m) (jb_MaxAttempts job) (mget_zero 0 (leaseTok m) k) (calls m' k) k ?it"
    unfolding item_ok_def
  proof (intro conjI)
    show "key_of ?it = k" "0 \<le> wi_Attempt ?it" "wi_Attempt ?it \<le> jb_MaxAttempts job" "distinct (wi_TriedWorkers ?it)"
      "set (wi_TriedWorkers ?it) \<subseteq> workers_of m" using ok by (simp_all add: item_ok_def key_of_def)
  qed (use cs x(4) in simp_all)
  moreover have "job_ok m' ks job'"
    using ks(4) unfolding job_ok_def tally_update [OF d ks(3) m'(1)] s job' by (simp add: st(2) x)
  ultimately show ?thesis
    using fl(2) m'(10) by (intro core_inv_update [OF inv ks(1,3) old(1) job'(2) m'(1-9) _ fl(1)]) auto
qed

lemma finish_dispatch:
  assumes inv: "queue_inv m" and n: "n < length (flights m)"
  obtains M x where "core_inv M" "slots_ok M" "flow (m\<lparr>draws := ds, flights := drop_nth n (flights m)\<rparr>) M"
    "completeItem now (fl_key (flights m ! n)) (fl_workerID (flights m ! n)) (fl_token (flights m ! n)) out
       (m\<lparr>draws := ds, flights := drop_nth n (flights m)\<rparr>) = (tryDispatchLocked now M)\<lparr>outbox := x\<rparr>"
proof -
  let ?f = "flights m ! n" let ?k = "fl_key ?f" let ?j = "ii_jobID ?k" let ?w = "fl_workerID ?f" let ?t = "mget_zero 0 (leaseTok m) ?k"
  let ?d = "m\<lparr>flights := drop_nth n (flights m)\<rparr>" let ?m0 = "m\<lparr>draws := ds, flights := drop_nth n (flights m)\<rparr>"
  have core: "core_inv m" "slots_ok m" using inv by (simp_all add: queue_inv_def)
  have k: "?k \<in> set (order_of m ?j)" using core(1) n by (simp add: core_inv_def shape_ok_def)
  from core(1) k obtain job it where old: "map_of (mg_jobs m) ?j = Some job" "map_of (mg_items m) ?k = Some it"
    and ok: "item_ok (workers_of m) (jb_MaxAttempts job) ?t (calls m ?k) ?k it" by (elim core_item) auto
  obtain xs ys where cs: "calls m ?k = xs @ (fl_token ?f, ?w) # ys" "calls ?d ?k = xs @ ys" using calls_drop(2) [OF n refl] by blast
  obtain ws where ws: "free_slot ?w ?m0 = ?m0\<lparr>mg_workers := ws\<rparr>" "dom (map_of ws) = workers_of m"
    "gomap_wf (mg_workers m) \<Longrightarrow> gomap_wf ws" by (rule free_slot_frame [of ?w ?m0]) (simp add: workers_of_def)
  let ?m1 = "?m0\<lparr>mg_workers := ws\<rparr>"
  have wf: "gomap_wf ws" using ws(3) core(1) by (simp add: core_inv_def shape_ok_def)
  have c1: "calls ?m0 = calls ?d" "busy ?m0 = busy ?d" by (simp_all add: calls_def busy_def fun_eq_iff)
  have c2: "calls ?m0 k' = calls m k'" if "k' \<noteq> ?k" for k' unfolding c1 by (rule calls_drop(1) [OF n refl that])
  have c3: "calls ?m0 ?k = xs @ ys" unfolding c1 by (rule cs(2))
  have sub: "set (drop_nth n (flights m)) \<subseteq> set (flights m)"
    by (auto simp: drop_nth_def dest: in_set_takeD in_set_dropD)
  have slots: "slots_ok ?m1"
    using free_slot_slots [OF core(2), of ?m0 ?w] ws(1) calls_drop(3) [OF n refl] by (simp add: c1(2))
  show ?thesis
  proof (cases "fl_token ?f = ?t")
    case False
    then have ok': "item_ok (workers_of m) (jb_MaxAttempts job) ?t (xs @ ys) ?k it" using item_ok_stale ok cs(1) by fastforce
    have "core_inv ?m1"
      by (rule unchanged_item_core [OF core(1) k old]) (simp_all add: ws(2) wf c2 c3 ok' sub)
    moreover have "flow ?m0 ?m1" by (rule flow_same) simp_all
    moreover have "completeItem now ?k ?w (fl_token ?f) out ?m0 = (tryDispatchLocked now ?m1)\<lparr>outbox := outbox (tryDispatchLocked now ?m1)\<rparr>"
      using old False ws(1) by (simp add: completeItem_def)
    ultimately show ?thesis using slots that by blast
  next
    case True
    note cur = item_ok_current [OF ok [unfolded cs(1) True]]
    have ns: "\<not> settled it" using cur(1) by (auto simp: settled_def in_flight_def)
    show ?thesis
    proof (cases "jb_Status job = JobCancelled")
      case c: True
      let ?m2 = "put_item ?k (it\<lparr>wi_State := WorkItemCancelled, wi_UpdatedAt := now\<rparr>) (run_down now job) ?m1"
      have "wi_State it \<noteq> WorkItemQueued" using cur(1) by (auto simp: in_flight_def)
      then have c2: "core_inv ?m2"
        by (intro cancelled_core [OF core(1) k old, where now = now and job' = "run_down now job"])
          (simp_all add: c cur(1) ws(2) wf c2 c3 cur(4-6) [simplified] sub)
      obtain x where x: "persistJobAsync ?j (persistItemAsync ?k ?m2) = ?m2\<lparr>outbox := x\<rparr>" by (simp add: persist_ok)
      have "flow ?m0 (?m2\<lparr>outbox := x\<rparr>)"
        by (rule flow_put [OF _ ns, of ?m0 ?k job "it\<lparr>wi_State := WorkItemCancelled, wi_UpdatedAt := now\<rparr>" "run_down now job"])
          (use old in simp_all)
      moreover have "completeItem now ?k ?w (fl_token ?f) out ?m0 =
          (tryDispatchLocked now (?m2\<lparr>outbox := x\<rparr>))\<lparr>outbox := outbox (tryDispatchLocked now (?m2\<lparr>outbox := x\<rparr>))\<rparr>"
        using old True c cur(1) ws(1) x by (simp add: completeItem_def)
      moreover have "core_inv (?m2\<lparr>outbox := x\<rparr>)" "slots_ok (?m2\<lparr>outbox := x\<rparr>)" using c2 slots by simp_all
      ultimately show ?thesis by (intro that)
    next
      case nc: False
      obtain job' it' where s: "settle now ?w out ?m1 job it = (job', it')" by force
      have sets: "settles (workers_of m) job it job' it'"
        by (rule settle_settles [OF s]) (use wf ws(2) ok cur(3) in \<open>simp_all add: item_ok_def\<close>)
      let ?m2 = "put_item ?k it' (recomputeJobStatusLocked job') ?m1"
      have "core_inv ?m2"
        by (rule settled_core [OF core(1) k old cur(1) _ _ _ _ _ _ _ _ _ _ _ _ _ _ _ sets])
          (simp_all add: ws(2) wf c2 c3 cur(4-6) [simplified] sub)
      moreover have "slots_ok ?m2" using slots by simp
      moreover have "wi_Attempt it' = wi_Attempt it" "jb_MaxAttempts (recomputeJobStatusLocked job') = jb_MaxAttempts job"
        using sets by (simp_all add: settles_def recomputeJobStatusLocked_def)
      then have "flow ?m0 ?m2" by (intro flow_put [OF _ ns, of ?m0 ?k job it' "recomputeJobStatusLocked job'"]) (use old in simp_all)
      moreover have "?k \<in> set (order_of (tryDispatchLocked now ?m2) ?j)"
        using k dispatches_frame(3) [OF tryDispatchLocked_spec(1) [OF \<open>core_inv ?m2\<close>]] by (simp add: order_of_def)
      then obtain x where x: "persistItemAsync ?k (persistJobAsync ?j (tryDispatchLocked now ?m2)) = (tryDispatchLocked now ?m2)\<lparr>outbox := x\<rparr>"
        using persist_frame dispatches_core [OF tryDispatchLocked_spec(1)] \<open>core_inv ?m2\<close> by metis
      moreover have "wi_State it \<noteq> WorkItemSuccess" "wi_State it \<noteq> WorkItemFailed" using ns by (auto simp: settled_def)
      ultimately show ?thesis using that [of ?m2 x] old True nc ws(1) s by (simp add: completeItem_def)
    qed
  qed
qed

lemma finish_inv:
  assumes inv: "queue_inv m" and n: "n < length (flights m)"
  shows "queue_inv (completeItem now (fl_key (flights m ! n)) (fl_workerID (flights m ! n)) (fl_token (flights m ! n)) out
           (m\<lparr>draws := ds, flights := drop_nth n (flights m)\<rparr>))"
  by (rule finish_dispatch [OF assms, of ds now out]) (simp add: tryDispatchLocked_inv)

lemma same_queued_zero_gap:
  assumes "zero_gap m" and "jobOrder m' = jobOrder m" "itemOrder m' = itemOrder m" "mg_workers m' = mg_workers m"
    and "\<And>j job'. map_of (mg_jobs m') j = Some job' \<Longrightarrow> \<not> halted job' \<Longrightarrow> \<exists>job. map_of (mg_jobs m) j = Some job \<and> \<not> halted job"
    and "\<And>k it. map_of (mg_items m') k = Some it \<Longrightarrow> wi_State it = WorkItemQueued \<Longrightarrow> map_of (mg_items m) k = Some it"
  shows "zero_gap m'"
proof -
  have o: "order_of m' = order_of m" "free_for m' = free_for m" using assms(3,4) by (simp_all add: order_of_def free_for_def fun_eq_iff)
  have "job_served m' j" if j: "job_served m j" for j
    unfolding job_served_def
  proof (intro allI impI ballI)
    fix job' k assume a: "map_of (mg_jobs m') j = Some job'" "\<not> halted job'" "k \<in> set (order_of m' j)"
    obtain job where "map_of (mg_jobs m) j = Some job" "\<not> halted job" using assms(5) [OF a(1,2)] by blast
    then have "served m k" using j a(3) by (simp add: job_served_def o)
    then show "served m' k" using assms(6) [of k] by (simp add: served_def o)
  qed
  then show ?thesis using assms(1,2) by (simp add: zero_gap_def)
qed

lemma begin_inv:
  assumes inv: "queue_inv m" and k: "k \<in> set (order_of m (ii_jobID k))" shows "queue_inv (runItem_begin now k m)"
proof -
  have core: "core_inv m" using inv by (simp add: queue_inv_def)
  from core k obtain ks job it where ks: "map_of (itemOrder m) (ii_jobID k) = Some ks" "order_of m (ii_jobID k) = ks" "k \<in> set ks" "job_ok m ks job"
    and old: "map_of (mg_jobs m) (ii_jobID k) = Some job" "map_of (mg_items m) k = Some it"
    and ok: "item_ok (workers_of m) (jb_MaxAttempts job) (mget_zero 0 (leaseTok m) k) (calls m k) k it" by (elim core_item) auto
  show ?thesis
  proof (cases "wi_State it = WorkItemLeased")
    case False
    then show ?thesis using inv old by (simp add: runItem_begin_def)
  next
    case True
    let ?it = "it\<lparr>wi_State := WorkItemRunning, wi_UpdatedAt := now\<rparr>" let ?m = "m\<lparr>mg_items := mput k ?it (mg_items m)\<rparr>"
    have d: "distinct ks" using order_distinct [OF core] ks(2) by metis
    have items: "mg_items ?m = mput k ?it (mg_items m)" by simp
    have s: "state_at m k = WorkItemLeased" using old True by (simp add: state_at_def)
    have t: "tally (\<lambda>s. s = WorkItemQueued) ?m ks = tally (\<lambda>s. s = WorkItemQueued) m ks" "tally in_flight ?m ks = tally in_flight m ks"
      "tally (\<lambda>s. s = WorkItemSuccess) ?m ks = tally (\<lambda>s. s = WorkItemSuccess) m ks"
      "tally (\<lambda>s. s = WorkItemFailed) ?m ks = tally (\<lambda>s. s = WorkItemFailed) m ks"
      "tally (\<lambda>s. s = WorkItemCancelled) ?m ks = tally (\<lambda>s. s = WorkItemCancelled) m ks"
      by (simp_all add: tally_update [OF d ks(3) items] s in_flight_def)
    have "job_ok ?m ks job" using ks(4) unfolding job_ok_def t .
    moreover have "item_ok (workers_of m) (jb_MaxAttempts job) (mget_zero 0 (leaseTok m) k) (calls m k) k ?it"
      using ok True by (simp add: item_ok_def in_flight_def key_of_def)
    ultimately have "core_inv ?m"
      using core old by (intro core_inv_update [OF core ks(1,3) old(1) refl items])
        (simp_all add: update_triv workers_of_def calls_def core_inv_def shape_ok_def)
    moreover have "slots_ok ?m" using inv by (simp add: queue_inv_def slots_ok_def busy_def)
    moreover have "zero_gap ?m"
      by (rule same_queued_zero_gap [of m]) (use inv in \<open>auto simp: queue_inv_def split: if_splits\<close>)
    ultimately show ?thesis using old True by (simp add: runItem_begin_def queue_inv_def)
  qed
qed

lemma reap_items_inv:
  assumes "core_inv (fst s)" "slots_ok (fst s)" and "set xs \<subseteq> set (order_of (fst s) j)"
  shows "core_inv (fst (fold (reap_item now j) xs s)) \<and> slots_ok (fst (fold (reap_item now j) xs s)) \<and>
    itemOrder (fst (fold (reap_item now j) xs s)) = itemOrder (fst s) \<and> flow (fst s) (fst (fold (reap_item now j) xs s)) \<and>
    (fold (reap_item now j) xs s = s \<or> snd (fold (reap_item now j) xs s))"
  using assms
proof (induction xs arbitrary: s)
  case (Cons k xs)
  obtain m d where s: "s = (m, d)" by force
  from Cons.prems obtain job it where b: "ii_jobID k = j" "k \<in> set (order_of m j)" "map_of (mg_jobs m) j = Some job"
    "map_of (mg_items m) k = Some it"
    and ok: "item_ok (workers_of m) (jb_MaxAttempts job) (mget_zero 0 (leaseTok m) k) (calls m k) k it"
    by (auto simp: s elim: core_item [of m k j])
  let ?s = "reap_item now j k s"
  have step: "core_inv (fst ?s) \<and> slots_ok (fst ?s) \<and> itemOrder (fst ?s) = itemOrder (fst s) \<and> flow (fst s) (fst ?s) \<and> (?s = s \<or> snd ?s)"
  proof (cases "expired now it")
    case False
    then have "?s = s" using b by (simp add: s reap_item_def)
    then show ?thesis using Cons.prems by (simp add: flow_same)
  next
    case True
    have "core_inv m" "slots_ok m" using Cons.prems by (simp_all add: s)
    then show ?thesis
      by (rule reap_item_expired [OF _ _ b(2,1,3,4) True ok, of d]) (simp add: s put_item_def)
  qed
  then have "set xs \<subseteq> set (order_of (fst ?s) j)" using Cons.prems(3) by (simp add: order_of_def)
  then show ?case using Cons.IH [of ?s] step flow_trans [of "fst s" "fst ?s"] by (metis fold_simps(2))
qed (simp add: flow_same)

lemma reap_jobs_inv:
  assumes "core_inv (fst s)" "slots_ok (fst s)"
  shows "core_inv (fst (fold (reap_job now) js s)) \<and> slots_ok (fst (fold (reap_job now) js s)) \<and> flow (fst s) (fst (fold (reap_job now) js s)) \<and>
    (fold (reap_job now) js s = s \<or> snd (fold (reap_job now) js s))"
  using assms
proof (induction js arbitrary: s)
  case (Cons j js)
  have e: "reap_job now j s = fold (reap_item now j) (order_of (fst s) j) s" by (simp add: reap_job_def order_of_def)
  have "core_inv (fst (reap_job now j s)) \<and> slots_ok (fst (reap_job now j s)) \<and> flow (fst s) (fst (reap_job now j s)) \<and> (reap_job now j s = s \<or> snd (reap_job now j s))"
    using reap_items_inv [OF Cons.prems subset_refl, of now j] unfolding e by blast
  then show ?case using Cons.IH [of "reap_job now j s"] flow_trans [of "fst s" "fst (reap_job now j s)"] by (metis fold_simps(2))
qed (simp add: flow_same)

lemma reap_inv:
  assumes "queue_inv m" shows "queue_inv (reapExpiredLeases now visit m)"
proof -
  obtain m' d where e: "fold (reap_job now) visit (m, False) = (m', d)" by force
  have "core_inv m'" "slots_ok m'" "(m', d) = (m, False) \<or> d"
    using reap_jobs_inv [of "(m, False)" now visit] assms unfolding e queue_inv_def by auto
  then show ?thesis using tryDispatchLocked_inv assms by (auto simp: reapExpiredLeases_def e)
qed

lemma item_ok_mono:
  assumes "item_ok ws cap tok cs k it" shows "item_ok (insert w ws) cap tok cs k it"
  using assms unfolding item_ok_def by (elim conjE) (intro conjI impI; blast)

lemma orders_ok_transfer:
  assumes inv: "core_inv m" and same: "itemOrder m' = itemOrder m" "mg_items m' = mg_items m" "leaseTok m' = leaseTok m"
    and jobs: "\<And>j job. map_of (mg_jobs m) j = Some job \<Longrightarrow> \<exists>job'. map_of (mg_jobs m') j = Some job' \<and>
      jb_MaxAttempts job' = jb_MaxAttempts job \<and> (\<forall>ks. job_ok m ks job \<longrightarrow> job_ok m ks job')"
    and items: "\<And>cap tok k it. item_ok (workers_of m) cap tok (calls m k) k it \<Longrightarrow> item_ok (workers_of m') cap tok (calls m' k) k it"
  shows "orders_ok m'"
  unfolding orders_ok_def
proof (intro allI impI)
  fix j ks assume "map_of (itemOrder m') j = Some ks"
  then obtain job where b: "ks \<noteq> []" "\<forall>k\<in>set ks. ii_jobID k = j" "map_of (mg_jobs m) j = Some job" "job_ok m ks job"
    "\<forall>k\<in>set ks. \<exists>it. map_of (mg_items m) k = Some it \<and>
       item_ok (workers_of m) (jb_MaxAttempts job) (mget_zero 0 (leaseTok m) k) (calls m k) k it"
    using inv unfolding core_inv_def orders_ok_def same by metis
  obtain job' where job': "map_of (mg_jobs m') j = Some job'" "jb_MaxAttempts job' = jb_MaxAttempts job" "job_ok m ks job'"
    using jobs [OF b(3)] b(4) by blast
  have "job_ok m' ks job'" using job'(3) job_ok_cong [of ks m' m job'] same by (simp add: state_at_def)
  moreover have "\<forall>k\<in>set ks. \<exists>it. map_of (mg_items m') k = Some it \<and>
       item_ok (workers_of m') (jb_MaxAttempts job') (mget_zero 0 (leaseTok m') k) (calls m' k) k it"
    unfolding same job'(2) using b(5) items by blast
  ultimately show "ks \<noteq> [] \<and> (\<forall>k\<in>set ks. ii_jobID k = j) \<and> (\<exists>job. map_of (mg_jobs m') j = Some job \<and> job_ok m' ks job \<and>
      (\<forall>k\<in>set ks. \<exists>it. map_of (mg_items m') k = Some it \<and>
         item_ok (workers_of m') (jb_MaxAttempts job) (mget_zero 0 (leaseTok m') k) (calls m' k) k it))"
    using b(1,2) job'(1) by blast
qed

lemma register_core:
  assumes "core_inv m" and "slots_ok m" and "1 \<le> ws_slots x" and "ws_active x = 0"
  shows "core_inv (m\<lparr>mg_workers := mput w x (mg_workers m)\<rparr>)" (is "core_inv ?m") and "slots_ok (m\<lparr>mg_workers := mput w x (mg_workers m)\<rparr>)"
proof -
  have ws: "workers_of ?m = insert w (workers_of m)" by (simp add: workers_of_def)
  have "orders_ok ?m" by (rule orders_ok_transfer [OF assms(1)]) (use ws item_ok_mono in simp_all)
  moreover have "shape_ok ?m" using assms(1) by (simp add: core_inv_def shape_ok_def order_of_def all_keys_def)
  ultimately show "core_inv ?m" by (simp add: core_inv_def)
  show "slots_ok ?m" using assms(2-4) by (auto simp: slots_ok_def busy_def)
qed

lemma register_inv:
  assumes "queue_inv m" shows "queue_inv (fst (RegisterWorker now w profile m))"
proof -
  obtain s u where su: "(case profile of None \<Rightarrow> (1, True)
      | Some p \<Rightarrow> if pp_Concurrency p > 0 then (pp_Concurrency p, False) else (1, True)) = (s, u)" by force
  then have "1 \<le> s" by (auto split: option.splits if_splits)
  then show ?thesis
    using assms su register_core [of m "\<lparr>ws_worker = w, ws_slots = s, ws_unmeasured = u, ws_active = 0\<rparr>" w]
    by (simp add: RegisterWorker_def queue_inv_def [of m] tryDispatchLocked_inv)
qed

section \<open>Pause and cancel\<close>

lemma job_update_core:
  assumes inv: "core_inv m" and old: "map_of (mg_jobs m) j = Some job" "jb_MaxAttempts job' = jb_MaxAttempts job"
    and ok: "\<And>ks. job_ok m ks job \<Longrightarrow> job_ok m ks job'"
  shows "core_inv (m\<lparr>mg_jobs := mput j job' (mg_jobs m)\<rparr>)" (is "core_inv ?m")
proof -
  have v: "workers_of ?m = workers_of m" "calls ?m = calls m" by (simp_all add: workers_of_def calls_def fun_eq_iff)
  have "orders_ok ?m" by (rule orders_ok_transfer [OF inv]) (use old ok v in auto)
  moreover have "insert j (dom (map_of (mg_jobs m))) = dom (map_of (mg_jobs m))" using old(1) by auto
  then have "shape_ok ?m" using inv by (simp add: core_inv_def shape_ok_def order_of_def all_keys_def)
  ultimately show ?thesis by (simp add: core_inv_def)
qed

lemma pause_inv:
  assumes "queue_inv m" shows "queue_inv (fst (PauseJob now j m))"
proof (cases "\<exists>job. map_of (mg_jobs m) j = Some job \<and> (jb_Status job = JobRunning \<or> jb_Status job = JobPending)")
  case False
  then show ?thesis using assms by (auto simp: PauseJob_def split: option.splits)
next
  case True
  then obtain job where job: "map_of (mg_jobs m) j = Some job" "jb_Status job = JobRunning \<or> jb_Status job = JobPending" by blast
  let ?job = "job\<lparr>jb_Status := JobPaused, jb_UpdatedAt := now\<rparr>" let ?m = "m\<lparr>mg_jobs := mput j ?job (mg_jobs m)\<rparr>"
  have ok: "job_ok m ks job \<Longrightarrow> job_ok m ks ?job" for ks using job(2) by (auto simp: job_ok_def)
  have "core_inv ?m" using assms job_update_core [OF _ job(1) _ ok] by (simp add: queue_inv_def)
  moreover have "slots_ok ?m" using assms by (simp add: queue_inv_def slots_ok_def busy_def)
  moreover have "zero_gap ?m"
    by (rule same_queued_zero_gap [of m]) (use assms job in \<open>auto simp: queue_inv_def halted_def split: if_splits\<close>)
  ultimately show ?thesis using job by (auto simp: PauseJob_def persist_ok queue_inv_def)
qed

definition mark_cancelled :: "time \<Rightarrow> string \<Rightarrow> job \<Rightarrow> manager \<Rightarrow> manager" where
  "mark_cancelled now j job m = m\<lparr>mg_jobs := mput j (job\<lparr>jb_Status := JobCancelled, jb_UpdatedAt := now\<rparr>) (mg_jobs m)\<rparr>"

lemma mput_twice: "mput k v (mput k v' m) = mput k v m"
  by (induction m) auto

text \<open>Cancelling the queued items and then marking the job is the same as marking it first.\<close>

lemma cancel_mark_commute:
  assumes "map_of (mg_jobs m) (ii_jobID k) = Some job" and "map_of (mg_items m) k = Some it"
  obtains job' where "map_of (mg_jobs (cancel_item now (ii_jobID k) k m)) (ii_jobID k) = Some job'"
    "mark_cancelled now (ii_jobID k) job' (cancel_item now (ii_jobID k) k m) =
     cancel_item now (ii_jobID k) k (mark_cancelled now (ii_jobID k) job m)"
proof (cases "wi_State it = WorkItemQueued")
  case False
  then show ?thesis using assms that [of job] by (simp add: cancel_item_def mark_cancelled_def)
next
  case True
  then show ?thesis
    using assms that by (cases m, cases job) (simp add: cancel_item_def mark_cancelled_def put_item_def persist_ok mput_twice)
qed

lemma cancel_item_inv:
  assumes inv: "core_inv m" "slots_ok m" and k: "k \<in> set (order_of m j)" and c: "map_of (mg_jobs m) j = Some job" "jb_Status job = JobCancelled"
  obtains job' where "core_inv (cancel_item now j k m)" "slots_ok (cancel_item now j k m)" "itemOrder (cancel_item now j k m) = itemOrder m"
    "map_of (mg_jobs (cancel_item now j k m)) j = Some job'" "jb_Status job' = JobCancelled"
proof -
  from inv k obtain it where it: "map_of (mg_items m) k = Some it" "ii_jobID k = j"
    and ok: "item_ok (workers_of m) (jb_MaxAttempts job) (mget_zero 0 (leaseTok m) k) (calls m k) k it" using c by (elim core_item) auto
  show ?thesis
  proof (cases "wi_State it = WorkItemQueued")
    case False
    then show ?thesis using inv c it that [of job] by (simp add: cancel_item_def)
  next
    case True
    let ?job = "job\<lparr>jb_Progress := (jb_Progress job)\<lparr>jp_Queued := jp_Queued (jb_Progress job) - 1\<rparr>\<rparr>"
    let ?m = "put_item k (it\<lparr>wi_State := WorkItemCancelled, wi_UpdatedAt := now\<rparr>) ?job m"
    have nf: "\<not> in_flight (wi_State it)" using True by (simp add: in_flight_def)
    have cs: "distinct (map fst (calls m k))" "\<forall>c\<in>set (calls m k). fst c \<le> mget_zero 0 (leaseTok m) k"
      "mget_zero 0 (leaseTok m) k \<notin> fst ` set (calls m k)" using ok nf unfolding item_ok_def by blast+
    have wf: "gomap_wf (mg_workers m)" using inv(1) by (simp add: core_inv_def shape_ok_def)
    have "core_inv ?m"
      by (rule cancelled_core [OF inv(1) k c(1) it(1) _ c(2), where now = now and job' = ?job])
        (simp_all add: True nf it(2) cs wf in_flight_def)
    then show ?thesis using inv(2) c it True that [of ?job] by (simp add: cancel_item_def persist_ok)
  qed
qed

lemma cancel_items_inv:
  assumes "core_inv m" "slots_ok m" and "set ks \<subseteq> set (order_of m j)" and "map_of (mg_jobs m) j = Some job" "jb_Status job = JobCancelled"
  shows "core_inv (fold (cancel_item now j) ks m) \<and> slots_ok (fold (cancel_item now j) ks m)"
  using assms
proof (induction ks arbitrary: m job)
  case (Cons k ks)
  then show ?case
    by (elim cancel_item_inv [of m k j job now]) (auto simp: order_of_def intro!: Cons.IH)
qed simp

lemma cancel_items_commute:
  assumes "core_inv (mark_cancelled now j job m)" "slots_ok (mark_cancelled now j job m)"
    and "set ks \<subseteq> set (order_of m j)" and "map_of (mg_jobs m) j = Some job"
  shows "\<exists>job'. map_of (mg_jobs (fold (cancel_item now j) ks m)) j = Some job' \<and>
    mark_cancelled now j job' (fold (cancel_item now j) ks m) = fold (cancel_item now j) ks (mark_cancelled now j job m)"
  using assms
proof (induction ks arbitrary: m job)
  case (Cons k ks)
  let ?c = "mark_cancelled now j job m"
  have cm: "mg_items ?c = mg_items m" "order_of ?c = order_of m"
    "map_of (mg_jobs ?c) j = Some (job\<lparr>jb_Status := JobCancelled, jb_UpdatedAt := now\<rparr>)"
    by (simp_all add: mark_cancelled_def order_of_def fun_eq_iff)
  have k: "k \<in> set (order_of ?c j)" using Cons.prems(3) cm by simp
  from Cons.prems(1) k obtain it where it: "map_of (mg_items m) k = Some it" "ii_jobID k = j" unfolding cm(1) [symmetric] by (elim core_item)
  obtain job1 where j1: "map_of (mg_jobs (cancel_item now j k m)) j = Some job1"
    "mark_cancelled now j job1 (cancel_item now j k m) = cancel_item now j k ?c"
    using cancel_mark_commute [of m k job it now] Cons.prems(4) it by auto
  have s: "jb_Status (job\<lparr>jb_Status := JobCancelled, jb_UpdatedAt := now\<rparr>) = JobCancelled" by simp
  have inv: "core_inv (cancel_item now j k ?c)" "slots_ok (cancel_item now j k ?c)" "itemOrder (cancel_item now j k ?c) = itemOrder ?c"
    using cancel_item_inv [OF Cons.prems(1,2) k cm(3) s, of now] by blast+
  have io: "itemOrder (mark_cancelled now j x y) = itemOrder y" for x y by (simp add: mark_cancelled_def)
  have "itemOrder (cancel_item now j k m) = itemOrder (mark_cancelled now j job1 (cancel_item now j k m))" by (simp only: io)
  also have "\<dots> = itemOrder m" unfolding j1(2) inv(3) io ..
  finally have "itemOrder (cancel_item now j k m) = itemOrder m" .
  then have "set ks \<subseteq> set (order_of (cancel_item now j k m) j)" using Cons.prems(3) by (simp add: order_of_def)
  then show ?case using Cons.IH [of job1 "cancel_item now j k m"] inv j1 by simp
qed simp

lemma cancelled_queue_inv:
  assumes inv: "queue_inv m" and job: "map_of (mg_jobs m) j = Some job"
    and live: "jb_Status job \<notin> {JobCancelled, JobCompleted, JobCompletedWithErrors}"
  shows "core_inv (mark_cancelled now j job m)" "slots_ok (mark_cancelled now j job m)"
proof -
  have "job_ok m ks job \<Longrightarrow> job_ok m ks (job\<lparr>jb_Status := JobCancelled, jb_UpdatedAt := now\<rparr>)" for ks
    by (simp add: job_ok_def)
  then show "core_inv (mark_cancelled now j job m)"
    using job_update_core [OF _ job] inv by (simp add: mark_cancelled_def queue_inv_def)
  show "slots_ok (mark_cancelled now j job m)" using inv by (simp add: mark_cancelled_def queue_inv_def slots_ok_def busy_def)
qed

definition cancel_frame :: "string \<Rightarrow> manager \<Rightarrow> manager \<Rightarrow> bool" where
  "cancel_frame j m m' \<longleftrightarrow> jobOrder m' = jobOrder m \<and> itemOrder m' = itemOrder m \<and> mg_workers m' = mg_workers m \<and>
     (\<forall>i. i \<noteq> j \<longrightarrow> map_of (mg_jobs m') i = map_of (mg_jobs m) i) \<and>
     (\<forall>k it. map_of (mg_items m') k = Some it \<longrightarrow> wi_State it = WorkItemQueued \<longrightarrow> map_of (mg_items m) k = Some it)"

lemma cancel_frame_trans:
  assumes "cancel_frame j m m1" and "cancel_frame j m1 m2" shows "cancel_frame j m m2"
  using assms unfolding cancel_frame_def by (elim conjE) (intro conjI; simp)

lemma cancel_items_frame:
  assumes "\<forall>k\<in>set ks. ii_jobID k = j \<and> k \<in> dom (map_of (mg_items m))" and "j \<in> dom (map_of (mg_jobs m))"
  shows "cancel_frame j m (fold (cancel_item now j) ks m) \<and> flow m (fold (cancel_item now j) ks m)"
  using assms
proof (induction ks arbitrary: m)
  case Nil
  then show ?case by (simp add: cancel_frame_def flow_same)
next
  case (Cons k ks)
  obtain job it where b: "map_of (mg_jobs m) j = Some job" "map_of (mg_items m) k = Some it" using Cons.prems by auto
  let ?m = "cancel_item now j k m"
  have k: "ii_jobID k = j" using Cons.prems by simp
  have f: "cancel_frame j m ?m" "j \<in> dom (map_of (mg_jobs ?m))" "dom (map_of (mg_items ?m)) = dom (map_of (mg_items m))"
    using b k by (auto simp: cancel_item_def persist_ok cancel_frame_def)
  have "flow m ?m"
  proof (cases "wi_State it = WorkItemQueued")
    case True
    then show ?thesis
      by (intro flow_put [of m k it job "it\<lparr>wi_State := WorkItemCancelled, wi_UpdatedAt := now\<rparr>"
            "job\<lparr>jb_Progress := (jb_Progress job)\<lparr>jp_Queued := jp_Queued (jb_Progress job) - 1\<rparr>\<rparr>"])
        (use b k in \<open>simp_all add: settled_def cancel_item_def persist_ok\<close>)
  next
    case False
    then show ?thesis using b k by (intro flow_same) (simp_all add: cancel_item_def)
  qed
  moreover have "cancel_frame j ?m (fold (cancel_item now j) ks ?m) \<and> flow ?m (fold (cancel_item now j) ks ?m)"
    using Cons.prems by (intro Cons.IH f(2)) (simp add: f(3))
  ultimately show ?case using cancel_frame_trans [OF f(1)] flow_trans by simp
qed

lemma cancel_inv:
  assumes inv: "queue_inv m" shows "queue_inv (fst (CancelJob now j m))"
proof (cases "\<exists>job. map_of (mg_jobs m) j = Some job \<and> jb_Status job \<notin> {JobCancelled, JobCompleted, JobCompletedWithErrors}")
  case False
  then show ?thesis using inv by (auto simp: CancelJob_def split: option.splits)
next
  case True
  then obtain job where job: "map_of (mg_jobs m) j = Some job" "jb_Status job \<notin> {JobCancelled, JobCompleted, JobCompletedWithErrors}"
    by blast
  let ?ks = "order_of m j" let ?c = "mark_cancelled now j job m" let ?f = "fold (cancel_item now j) ?ks m"
  note ci = cancelled_queue_inv [OF inv job, of now]
  obtain job' where j': "map_of (mg_jobs ?f) j = Some job'" "mark_cancelled now j job' ?f = fold (cancel_item now j) ?ks ?c"
    using cancel_items_commute [OF ci subset_refl job(1)] by blast
  let ?r = "mark_cancelled now j job' ?f"
  have cj: "map_of (mg_jobs ?c) j = Some (job\<lparr>jb_Status := JobCancelled, jb_UpdatedAt := now\<rparr>)" "order_of ?c = order_of m"
    by (simp_all add: mark_cancelled_def order_of_def fun_eq_iff)
  have core: "core_inv ?r" "slots_ok ?r"
    unfolding j'(2) using cancel_items_inv [OF ci _ cj(1), of ?ks now] cj(2) by simp_all
  have "core_inv m" using inv by (simp add: queue_inv_def)
  then have dom: "\<forall>k\<in>set ?ks. ii_jobID k = j \<and> k \<in> dom (map_of (mg_items m))"
    by (auto elim: core_item [of m _ j])
  have "cancel_frame j m ?f" using cancel_items_frame [OF dom, of now] job(1) by auto
  note fr = this [unfolded cancel_frame_def]
  have "zero_gap ?r"
  proof (rule same_queued_zero_gap [of m])
    show "zero_gap m" using inv by (simp add: queue_inv_def)
    show "jobOrder ?r = jobOrder m" "itemOrder ?r = itemOrder m" "mg_workers ?r = mg_workers m"
      using fr job(1) by (simp_all add: mark_cancelled_def)
    show "\<exists>job. map_of (mg_jobs m) i = Some job \<and> \<not> halted job" if "map_of (mg_jobs ?r) i = Some x" "\<not> halted x" for i x
      using that fr job(1) by (cases "i = j") (auto simp: mark_cancelled_def halted_def)
    show "map_of (mg_items m) k = Some it" if "map_of (mg_items ?r) k = Some it" "wi_State it = WorkItemQueued" for k it
      using that fr job(1) by (simp add: mark_cancelled_def)
  qed
  moreover have "fst (CancelJob now j m) = ?r\<lparr>outbox := outbox ?f @ [Persist_Job (job'\<lparr>jb_Status := JobCancelled, jb_UpdatedAt := now\<rparr>)]\<rparr>"
    using job j'(1) by (auto simp: CancelJob_def cancel_mark_def order_of_def persist_ok mark_cancelled_def)
  ultimately show ?thesis using core by (simp add: queue_inv_def)
qed

section \<open>Submission\<close>

lemma last_field:
  assumes "x @ c # b = y @ c # b'" and "c \<notin> set b" "c \<notin> set b'" shows "b = b'"
proof -
  have "rev b @ c # rev x = rev b' @ c # rev y" using arg_cong [OF assms(1), of rev] by simp
  then show ?thesis using append_sep_inject [of c "rev b" "rev b'"] assms(2,3) by simp
qed

lemma job_id_inject:
  assumes "job_id t n = job_id t' n'" and "0 < n" "0 < n'" shows "n = n'"
proof -
  have d: "CHR ''-'' \<notin> set (show_int i)" if "0 < i" for i using that digit_codes(2) by (simp add: show_int_def)
  have "(''job-'' @ show_int t) @ CHR ''-'' # show_int n = (''job-'' @ show_int t') @ CHR ''-'' # show_int n'"
    using assms(1) by (simp add: job_id_def)
  then show ?thesis using last_field d assms(2,3) show_int_inject by metis
qed

lemma new_item_simps [simp]:
  "ii_jobID (key_of (new_item now j i inp)) = j" "wi_State (new_item now j i inp) = WorkItemQueued"
  "wi_Attempt (new_item now j i inp) = 0" "wi_TriedWorkers (new_item now j i inp) = []"
  by (simp_all add: new_item_def key_of_def itemKey_def zero_work_item_def)

definition fresh_item :: "item_identity \<Rightarrow> work_item \<Rightarrow> bool" where
  "fresh_item k it \<longleftrightarrow> key_of it = k \<and> wi_State it = WorkItemQueued \<and> wi_Attempt it = 0 \<and> wi_TriedWorkers it = []"

lemma submit_items_spec:
  assumes "submit_items now j i inputs order m = (m', r)"
  shows "m' = m\<lparr>mg_items := mg_items m'\<rparr> \<and>
    (\<forall>k. ii_jobID k \<noteq> j \<longrightarrow> map_of (mg_items m') k = map_of (mg_items m) k) \<and>
    (\<forall>order'. r = Inr order' \<longrightarrow> (\<exists>ks. order' = order @ ks \<and> length ks = length inputs \<and> distinct ks \<and>
       (\<forall>k. k \<notin> set ks \<longrightarrow> map_of (mg_items m') k = map_of (mg_items m) k) \<and>
       (\<forall>k\<in>set ks. ii_jobID k = j \<and> map_of (mg_items m) k = None \<and> (\<exists>it. map_of (mg_items m') k = Some it \<and> fresh_item k it))))"
  using assms
proof (induction now j i inputs order m rule: submit_items.induct)
  case (1 now j i order m)
  then show ?case by auto
next
  case (2 now j i inp inputs order m)
  let ?it = "new_item now j i inp" let ?k = "key_of ?it" let ?m = "m\<lparr>mg_items := mput ?k ?it (mg_items m)\<rparr>"
  have kj: "ii_jobID ?k = j" by (rule new_item_simps(1))
  have fr: "fresh_item ?k ?it" by (simp add: fresh_item_def)
  show ?case
  proof (cases "map_of (mg_items m) ?k = None")
    case False
    then show ?thesis using 2(2) by (auto simp: Let_def)
  next
    case True
    have e: "submit_items now j (i + 1) inputs (order @ [?k]) ?m = (m', r)" using 2(2) True by (simp add: Let_def)
    have IH: "m' = ?m\<lparr>mg_items := mg_items m'\<rparr>" "\<And>k. ii_jobID k \<noteq> j \<Longrightarrow> map_of (mg_items m') k = map_of (mg_items ?m) k"
      "\<And>order'. r = Inr order' \<Longrightarrow> \<exists>ks. order' = (order @ [?k]) @ ks \<and> length ks = length inputs \<and> distinct ks \<and>
       (\<forall>k. k \<notin> set ks \<longrightarrow> map_of (mg_items m') k = map_of (mg_items ?m) k) \<and>
       (\<forall>k\<in>set ks. ii_jobID k = j \<and> map_of (mg_items ?m) k = None \<and> (\<exists>it. map_of (mg_items m') k = Some it \<and> fresh_item k it))"
      using 2(1) [OF refl refl _ e] True by blast+
    have "\<exists>ks. order' = order @ ks \<and> length ks = length (inp # inputs) \<and> distinct ks \<and>
       (\<forall>k. k \<notin> set ks \<longrightarrow> map_of (mg_items m') k = map_of (mg_items m) k) \<and>
       (\<forall>k\<in>set ks. ii_jobID k = j \<and> map_of (mg_items m) k = None \<and> (\<exists>it. map_of (mg_items m') k = Some it \<and> fresh_item k it))"
      if r: "r = Inr order'" for order'
    proof -
      obtain ks where ks: "order' = order @ ?k # ks" "length ks = length inputs" "distinct ks"
        "\<And>k. k \<notin> set ks \<Longrightarrow> map_of (mg_items m') k = map_of (mg_items ?m) k"
        "\<And>k. k \<in> set ks \<Longrightarrow> ii_jobID k = j \<and> map_of (mg_items ?m) k = None \<and> (\<exists>it. map_of (mg_items m') k = Some it \<and> fresh_item k it)"
        using IH(3) [OF r] by auto
      have nk: "?k \<notin> set ks" using ks(5) [of ?k] by auto
      have "map_of (mg_items m') ?k = Some ?it" using ks(4) [OF nk] by simp
      moreover have "map_of (mg_items m) k = None" if "k \<in> set ks" for k
        using ks(5) [OF that] that nk by (cases "k = ?k") auto
      ultimately show ?thesis using ks nk kj fr True
        by (intro exI [of _ "?k # ks"]) auto
    qed
    moreover have "m' = m\<lparr>mg_items := mg_items m'\<rparr>" using IH(1) by simp
    moreover have "map_of (mg_items m') k = map_of (mg_items m) k" if "ii_jobID k \<noteq> j" for k
    proof -
      have "k \<noteq> ?k" using that kj by blast
      then show ?thesis using IH(2) [OF that] by simp
    qed
    ultimately show ?thesis by blast
  qed
qed

text \<open>A job that is new to the manager, with items of its own that no order lists yet.\<close>

lemma add_job_core:
  assumes inv: "core_inv m" and i: "i = job_id t (idSeq m + 1)" and m': "mg_jobs m' = mput i job (mg_jobs m)"
      "jobOrder m' = jobOrder m @ [i]" "idSeq m' = idSeq m + 1" "itemOrder m' = itemOrder m" "mg_workers m' = mg_workers m"
      "leaseTok m' = leaseTok m" "flights m' = flights m" "panicked m' = panicked m" "defaultMaxAttempts m' = defaultMaxAttempts m"
    and items: "\<And>k. ii_jobID k \<noteq> i \<Longrightarrow> map_of (mg_items m') k = map_of (mg_items m) k"
  shows "core_inv m'" and "i \<notin> dom (map_of (mg_jobs m))"
proof -
  show fresh: "i \<notin> dom (map_of (mg_jobs m))"
  proof
    assume "i \<in> dom (map_of (mg_jobs m))"
    then obtain t' n where n: "i = job_id t' n" "0 < n" "n \<le> idSeq m" using inv unfolding core_inv_def shape_ok_def by metis
    have "0 < idSeq m + 1" using inv by (simp add: core_inv_def shape_ok_def)
    then show False using job_id_inject [of t "idSeq m + 1" t' n] n i by simp
  qed
  have pos: "0 < idSeq m + 1" using inv by (simp add: core_inv_def shape_ok_def)
  have "shape_ok m'"
    unfolding shape_ok_def
  proof (intro conjI ballI)
    show "\<not> panicked m'" "0 < defaultMaxAttempts m'" "0 \<le> idSeq m'" "gomap_wf (itemOrder m')" "gomap_wf (mg_workers m')"
      "distinct (all_keys m')" "set (jobOrder m') = dom (map_of (mg_jobs m'))"
      using inv m' by (simp_all add: core_inv_def shape_ok_def all_keys_def)
    show "fl_key f \<in> set (order_of m' (ii_jobID (fl_key f)))" if "f \<in> set (flights m')" for f
      using inv m' that by (simp add: core_inv_def shape_ok_def order_of_def)
    show "ii_jobID k \<in> dom (map_of (mg_jobs m'))" if "k \<in> dom (map_of (mg_items m'))" for k
      using inv items [of k] that by (cases "ii_jobID k = i") (auto simp: m' core_inv_def shape_ok_def dom_def)
    show "\<exists>t n. j = job_id t n \<and> 0 < n \<and> n \<le> idSeq m'" if "j \<in> dom (map_of (mg_jobs m'))" for j
    proof (cases "j = i")
      case True
      then show ?thesis using i pos m'(3) by (intro exI [of _ t] exI [of _ "idSeq m + 1"]) simp
    next
      case False
      then have "j \<in> dom (map_of (mg_jobs m))" using that m' by simp
      then obtain t n where "j = job_id t n" "0 < n" "n \<le> idSeq m" using inv unfolding core_inv_def shape_ok_def by metis
      then show ?thesis using m' by fastforce
    qed
  qed
  moreover have "orders_ok m'"
    unfolding orders_ok_def
  proof (intro allI impI)
    fix j ks assume "map_of (itemOrder m') j = Some ks"
    then obtain jb where b: "ks \<noteq> []" "\<forall>k\<in>set ks. ii_jobID k = j" "map_of (mg_jobs m) j = Some jb" "job_ok m ks jb"
      "\<forall>k\<in>set ks. \<exists>it. map_of (mg_items m) k = Some it \<and>
         item_ok (workers_of m) (jb_MaxAttempts jb) (mget_zero 0 (leaseTok m) k) (calls m k) k it"
      using inv unfolding core_inv_def orders_ok_def m'(4) by metis
    have ji: "j \<noteq> i" using b(3) fresh by auto
    have same: "map_of (mg_items m') k = map_of (mg_items m) k" if "k \<in> set ks" for k using items b(2) ji that by simp
    have v: "workers_of m' = workers_of m" "calls m' = calls m" using m' by (simp_all add: workers_of_def calls_def fun_eq_iff)
    have "job_ok m' ks jb" using b(4) job_ok_cong [of ks m' m jb] same by (simp add: state_at_def)
    then show "ks \<noteq> [] \<and> (\<forall>k\<in>set ks. ii_jobID k = j) \<and> (\<exists>job. map_of (mg_jobs m') j = Some job \<and> job_ok m' ks job \<and>
        (\<forall>k\<in>set ks. \<exists>it. map_of (mg_items m') k = Some it \<and>
           item_ok (workers_of m') (jb_MaxAttempts job) (mget_zero 0 (leaseTok m') k) (calls m' k) k it))"
      using b same ji by (simp add: m' v)
  qed
  ultimately show "core_inv m'" by (simp add: core_inv_def)
qed

lemma map_of_order_key:
  assumes "core_inv m" and "k \<in> set (all_keys m)" shows "k \<in> set (order_of m (ii_jobID k))"
proof -
  obtain j ks where j: "(j, ks) \<in> set (itemOrder m)" "k \<in> set ks" using assms(2) by (auto simp: all_keys_def)
  then have o: "map_of (itemOrder m) j = Some ks" using assms(1) by (simp add: core_inv_def shape_ok_def gomap_wf_def)
  then have "ii_jobID k = j" using assms(1) j(2) by (simp add: core_inv_def orders_ok_def)
  then show ?thesis using o j(2) by (simp add: order_of_def mget_zero_def)
qed

lemma add_order_core:
  assumes inv: "core_inv m" and job: "map_of (mg_jobs m) i = Some (new_job now i operation pool cap (length ks))" and cap: "0 < cap"
    and none: "i \<notin> dom (map_of (itemOrder m))" and ks: "ks \<noteq> []" "distinct ks"
    and items: "\<And>k. k \<in> set ks \<Longrightarrow> ii_jobID k = i \<and> (\<exists>it. map_of (mg_items m) k = Some it \<and> fresh_item k it)"
  shows "core_inv (m\<lparr>itemOrder := mput i ks (itemOrder m)\<rparr>)" (is "core_inv ?m")
proof -
  have io: "itemOrder ?m = itemOrder m @ [(i, ks)]" using mput_fresh [OF none] by simp
  have mo: "map_of (itemOrder ?m) = (map_of (itemOrder m))(i \<mapsto> ks)" by simp
  have other: "order_of ?m j = order_of m j" if "j \<noteq> i" for j using that by (simp add: order_of_def mget_zero_def)
  have nk: "ii_jobID k \<noteq> i" if "k \<in> set (all_keys m)" for k
  proof
    assume "ii_jobID k = i"
    then have "k \<in> set (order_of m i)" using map_of_order_key [OF inv that] by simp
    then show False using none by (simp add: order_of_def mget_zero_def domIff)
  qed
  have fl: "ii_jobID (fl_key f) \<noteq> i" if "f \<in> set (flights m)" for f
  proof
    assume "ii_jobID (fl_key f) = i"
    then have "fl_key f \<in> set (order_of m i)" using inv that by (auto simp: core_inv_def shape_ok_def)
    then show False using none by (simp add: order_of_def mget_zero_def domIff)
  qed
  have "distinct (all_keys ?m)"
    using inv ks(2) nk items unfolding all_keys_def io by (auto simp: core_inv_def shape_ok_def all_keys_def)
  moreover have "fl_key f \<in> set (order_of ?m (ii_jobID (fl_key f)))" if "f \<in> set (flights m)" for f
    using inv that other [OF fl [OF that]] by (simp add: core_inv_def shape_ok_def)
  ultimately have "shape_ok ?m" using inv by (simp add: core_inv_def shape_ok_def)
  moreover have v: "workers_of ?m = workers_of m" "calls ?m = calls m" by (simp_all add: workers_of_def calls_def fun_eq_iff)
  have jk: "job_ok ?m xs x = job_ok m xs x" for xs x by (rule job_ok_cong) (simp add: state_at_def)
  have st: "state_at m k = WorkItemQueued" if "k \<in> set ks" for k using items [OF that] by (auto simp: state_at_def fresh_item_def)
  have "tally P m ks = (if P WorkItemQueued then int (length ks) else 0)" for P
  proof -
    have "filter (\<lambda>k. P (state_at m k)) ks = filter (\<lambda>k. P WorkItemQueued) ks" using st by (intro filter_cong) auto
    then show ?thesis by (simp add: tally_def)
  qed
  then have new: "job_ok m ks (new_job now i operation pool cap (length ks))"
    using cap ks(1) by (simp add: job_ok_def new_job_def in_flight_def)
  have c: "calls m k = []" if "k \<in> set ks" for k using fl items [OF that] by (auto simp: calls_def filter_empty_conv)
  have "orders_ok ?m"
    unfolding orders_ok_def jk v
  proof (intro allI impI)
    fix j xs assume a: "map_of (itemOrder ?m) j = Some xs"
    show "xs \<noteq> [] \<and> (\<forall>k\<in>set xs. ii_jobID k = j) \<and> (\<exists>job. map_of (mg_jobs ?m) j = Some job \<and> job_ok m xs job \<and>
        (\<forall>k\<in>set xs. \<exists>it. map_of (mg_items ?m) k = Some it \<and>
           item_ok (workers_of m) (jb_MaxAttempts job) (mget_zero 0 (leaseTok ?m) k) (calls m k) k it))"
    proof (cases "j = i")
      case True
      then have "xs = ks" using a by simp
      moreover have "\<exists>it. map_of (mg_items m) k = Some it \<and> item_ok (workers_of m) cap (mget_zero 0 (leaseTok m) k) (calls m k) k it"
        if "k \<in> set ks" for k using items [OF that] c [OF that] cap by (auto simp: item_ok_def fresh_item_def in_flight_def)
      moreover have "jb_MaxAttempts (new_job now i operation pool cap (length ks)) = cap" by (simp add: new_job_def)
      ultimately show ?thesis using True ks(1) items job new by auto
    next
      case False
      then have "map_of (itemOrder m) j = Some xs" using a by simp
      then show ?thesis using inv unfolding core_inv_def orders_ok_def by simp
    qed
  qed
  ultimately show ?thesis by (simp add: core_inv_def)
qed

lemma persist_items_frame:
  assumes "set ks \<subseteq> dom (map_of (mg_items m))" shows "\<exists>x. fold persistItemAsync ks m = m\<lparr>outbox := x\<rparr>"
  using assms
proof (induction ks arbitrary: m)
  case Nil
  show ?case by (intro exI [of _ "outbox m"]) simp
next
  case (Cons k ks)
  then obtain it where "map_of (mg_items m) k = Some it" by auto
  then show ?case using Cons.IH [of "persistItemAsync k m"] Cons.prems by (auto simp: persist_ok)
qed

lemma add_job_zero_gap:
  assumes inv: "queue_inv m" and fresh: "i \<notin> dom (map_of (mg_jobs m))"
    and m': "mg_jobs m' = mput i job (mg_jobs m)" "jobOrder m' = jobOrder m @ [i]" "itemOrder m' = itemOrder m" "mg_workers m' = mg_workers m"
    and items: "\<And>k. ii_jobID k \<noteq> i \<Longrightarrow> map_of (mg_items m') k = map_of (mg_items m) k"
  shows "zero_gap m'"
proof -
  have core: "core_inv m" using inv by (simp add: queue_inv_def)
  have o: "order_of m' = order_of m" "free_for m' = free_for m" using m' by (simp_all add: order_of_def free_for_def fun_eq_iff)
  have "k \<notin> set (order_of m i)" for k
  proof
    assume "k \<in> set (order_of m i)"
    then show False using core fresh by (elim core_item) auto
  qed
  then have "order_of m i = []" by (cases "order_of m i") auto
  then have "job_served m' i" by (simp add: job_served_def o)
  moreover have "job_served m' j" if j: "j \<in> set (jobOrder m)" for j
  proof -
    have ji: "j \<noteq> i" using core fresh j by (auto simp: core_inv_def shape_ok_def)
    have "job_served m j" using inv j by (simp add: queue_inv_def zero_gap_def)
    moreover have "map_of (mg_items m') k = map_of (mg_items m) k" if "k \<in> set (order_of m j)" for k
      using core that ji by (elim core_item) (auto intro: items)
    ultimately show ?thesis using ji by (simp add: job_served_def served_def o m')
  qed
  ultimately show ?thesis by (auto simp: zero_gap_def m')
qed

lemma submit_cases:
  assumes inv: "queue_inv m"
  obtains (refused) "queue_inv (fst (SubmitJob now operation pool inputs maxAttempts m))"
      "keeps_settled m (fst (SubmitJob now operation pool inputs maxAttempts m))"
  | (dispatched) M x where "core_inv M" "slots_ok M" "keeps_settled m M"
      "fst (SubmitJob now operation pool inputs maxAttempts m) = (tryDispatchLocked now M)\<lparr>outbox := x\<rparr>"
proof (cases "inputs = []")
  case True
  then show ?thesis using refused inv by (simp add: SubmitJob_def keeps_settled_def)
next
  case False
  define cap where "cap = (if maxAttempts \<le> 0 then defaultMaxAttempts m else maxAttempts)"
  define i where "i = job_id now (idSeq m + 1)"
  define m2 where "m2 = m\<lparr>idSeq := idSeq m + 1, mg_jobs := mput i (new_job now i operation pool cap (length inputs)) (mg_jobs m), jobOrder := jobOrder m @ [i]\<rparr>"
  have core: "core_inv m" "slots_ok m" using inv by (simp_all add: queue_inv_def)
  have cap0: "0 < cap" using core by (simp add: cap_def core_inv_def shape_ok_def)
  obtain m3 r where s: "submit_items now i 0 inputs [] m2 = (m3, r)" by force
  note sp = submit_items_spec [OF s]
  have e: "SubmitJob now operation pool inputs maxAttempts m =
      (case r of Inl err \<Rightarrow> (m3, Inl err)
       | Inr order \<Rightarrow> let m4 = tryDispatchLocked now (m3\<lparr>itemOrder := mput i order (itemOrder m3)\<rparr>) in
           (case map_of (mg_jobs m4) i of None \<Rightarrow> (crash m4, Inl Panic)
            | Some job \<Rightarrow> (fold persistItemAsync order (persistJobAsync i m4), Inr job)))"
    using False s by (cases r) (simp_all add: SubmitJob_def nextID_def Let_def cap_def [symmetric] i_def [symmetric] m2_def [symmetric])
  have eq: "m3 = m2\<lparr>mg_items := mg_items m3\<rparr>" using sp by blast
  have m3: "mg_jobs m3 = mput i (new_job now i operation pool cap (length inputs)) (mg_jobs m)" "jobOrder m3 = jobOrder m @ [i]"
    "idSeq m3 = idSeq m + 1" "itemOrder m3 = itemOrder m" "mg_workers m3 = mg_workers m" "leaseTok m3 = leaseTok m"
    "flights m3 = flights m" "panicked m3 = panicked m" "defaultMaxAttempts m3 = defaultMaxAttempts m"
    by (subst eq, simp add: m2_def)+
  have items: "map_of (mg_items m3) k = map_of (mg_items m) k" if "ii_jobID k \<noteq> i" for k using sp that by (simp add: m2_def)
  note core3 = add_job_core [OF core(1) i_def m3 items]
  have sl: "slots_ok m3" using core(2) by (simp add: slots_ok_def busy_def m3)
  have "ii_jobID k \<noteq> i" if "map_of (mg_items m) k = Some it" for k it
    using core(1) core3(2) that unfolding core_inv_def shape_ok_def by blast
  then have kept: "keeps_settled m m3" using items by (simp add: keeps_settled_def)
  show ?thesis
  proof (cases r)
    case (Inl err)
    have "zero_gap m3" by (rule add_job_zero_gap [OF inv core3(2) m3(1,2,4,5) items])
    then show ?thesis using refused Inl e core3(1) sl kept by (simp add: queue_inv_def)
  next
    case (Inr ks)
    have ks: "length ks = length inputs" "distinct ks"
      "\<And>k. k \<in> set ks \<Longrightarrow> ii_jobID k = i \<and> (\<exists>it. map_of (mg_items m3) k = Some it \<and> fresh_item k it)" using sp Inr by auto
    have none: "i \<notin> dom (map_of (itemOrder m3))"
    proof
      assume "i \<in> dom (map_of (itemOrder m3))"
      then show False using core(1) core3(2) unfolding m3(4) core_inv_def orders_ok_def by blast
    qed
    let ?m4 = "m3\<lparr>itemOrder := mput i ks (itemOrder m3)\<rparr>" let ?m5 = "tryDispatchLocked now ?m4"
    have c4: "core_inv ?m4"
      by (rule add_order_core [OF core3(1) _ cap0 none _ ks(2,3)]) (use ks(1) False m3(1) in auto)
    have s4: "slots_ok ?m4" using sl by (simp add: slots_ok_def busy_def)
    have inv5: "queue_inv ?m5" by (rule tryDispatchLocked_inv [OF c4 s4])
    note d = tryDispatchLocked_spec(1) [OF c4, of now]
    have o5: "order_of ?m5 i = ks" using dispatches_frame(3) [OF d] by (simp add: order_of_def)
    have "ks \<noteq> []" using ks(1) False by auto
    then obtain k where "k \<in> set (order_of ?m5 i)" using o5 by (cases ks) auto
    then obtain job where job: "map_of (mg_jobs ?m5) i = Some job" using inv5 unfolding queue_inv_def by (elim conjE core_item) auto
    have sub: "set ks \<subseteq> dom (map_of (mg_items ?m5))"
    proof
      fix k assume "k \<in> set ks"
      then have "k \<in> set (order_of ?m5 i)" using o5 by simp
      then show "k \<in> dom (map_of (mg_items ?m5))" using inv5 unfolding queue_inv_def by (elim conjE core_item) auto
    qed
    obtain x where "fold persistItemAsync ks (persistJobAsync i ?m5) = ?m5\<lparr>outbox := x\<rparr>"
      using persist_items_frame [of ks "persistJobAsync i ?m5"] job sub by (auto simp: persist_ok)
    moreover have "keeps_settled m ?m4" using kept by (simp add: keeps_settled_def)
    ultimately show ?thesis using dispatched [OF c4 s4, of x] e Inr job by (simp add: Let_def)
  qed
qed

lemma submit_inv:
  assumes "queue_inv m" shows "queue_inv (fst (SubmitJob now operation pool inputs maxAttempts m))"
  by (rule submit_cases [OF assms, of now operation pool inputs maxAttempts]) (simp_all add: tryDispatchLocked_inv)

lemma new_manager_inv: "queue_inv (NewManager ttl interval maxAttempts)"
  by (simp add: queue_inv_def core_inv_def shape_ok_def orders_ok_def slots_ok_def zero_gap_def NewManager_def all_keys_def)

lemma queue_exec_inv:
  assumes "queue_inv m" shows "queue_inv (queue_exec x m)"
proof (cases x)
  case (Begin now n)
  let ?fs = "(flights m)[n := (flights m ! n)\<lparr>fl_started := True\<rparr>]"
  have "queue_inv (runItem_begin now (fl_key (flights m ! n)) (m\<lparr>flights := ?fs\<rparr>))" if n: "n < length (flights m)"
  proof (rule begin_inv)
    show "queue_inv (m\<lparr>flights := ?fs\<rparr>)" using queue_inv_flights triples_update [OF n] assms by simp
    have "fl_key (flights m ! n) \<in> set (order_of m (ii_jobID (fl_key (flights m ! n))))"
      using assms n by (simp add: queue_inv_def core_inv_def shape_ok_def)
    then show "fl_key (flights m ! n) \<in> set (order_of (m\<lparr>flights := ?fs\<rparr>) (ii_jobID (fl_key (flights m ! n))))"
      by (simp add: order_of_def)
  qed
  then show ?thesis using assms Begin by simp
qed (use assms in \<open>simp_all add: submit_inv register_inv reap_inv pause_inv cancel_inv finish_inv Let_def\<close>)

lemma queue_run_inv: "queue_inv m \<Longrightarrow> queue_inv (queue_run xs m)"
  by (induction xs arbitrary: m) (simp_all add: queue_run_def queue_exec_inv)

definition queue_init :: "manager \<Rightarrow> bool" where
  "queue_init m \<longleftrightarrow> (\<exists>ttl interval maxAttempts. m = NewManager ttl interval maxAttempts)"

definition queue_step :: "manager \<Rightarrow> manager \<Rightarrow> bool" where
  "queue_step m m' \<longleftrightarrow> (\<exists>x. m' = queue_exec x m)"

interpretation queue_states: inductive_invariant queue_init queue_step queue_inv
  by unfold_locales (auto simp: queue_init_def queue_step_def new_manager_inv queue_exec_inv)

lemma queue_run_reachable: "reachable queue_init queue_step (queue_run xs (NewManager ttl interval maxAttempts))"
proof (induction xs rule: rev_induct)
  case Nil
  then show ?case by (auto simp: queue_run_def queue_init_def intro: reachable_init)
next
  case (snoc x xs)
  then show ?case by (auto simp: queue_run_def queue_step_def intro: reachable_step)
qed

lemma queue_reachable_inv: "queue_inv (queue_run xs (NewManager ttl interval maxAttempts))"
  by (rule queue_states.reachable_inv [OF queue_run_reachable])

end
