(* ===== verification/Job_Properties.thy ===== *)
theory Job_Properties
  imports Job_Runs
begin

text \<open>
  What the queue promises, from the invariant of \<open>Job_Runs\<close>: truthful counters, final results, no
  idle slot beside a runnable item, a bounded number of calls after which every job is settled,
  and the way in which the slot accounting can be wrong.
\<close>

section \<open>Settled items and calls over a run\<close>

fun is_submit :: "queue_op \<Rightarrow> bool" where
  "is_submit (Submit _ _ _ _ _ _) = True"
| "is_submit _ = False"

text \<open>The operation returns a call that was in flight.\<close>

fun returns :: "queue_op \<Rightarrow> manager \<Rightarrow> bool" where
  "returns (Finish _ _ n _) m = (n < length (flights m) \<and> fl_started (flights m ! n))"
| "returns _ m = False"

fun returned :: "queue_op list \<Rightarrow> manager \<Rightarrow> nat" where
  "returned [] m = 0"
| "returned (x # xs) m = of_bool (returns x m) + returned xs (queue_exec x m)"

lemma tryDispatchLocked_flow: "core_inv m \<Longrightarrow> flow m (tryDispatchLocked now m)"
  by (rule dispatches_flow [OF tryDispatchLocked_spec(1)])

lemma finish_flow:
  assumes inv: "queue_inv m" and n: "n < length (flights m)" "fl_started (flights m ! n)"
  shows "Suc (potential (queue_exec (Finish now ds n out) m)) = potential m" "keeps_settled m (queue_exec (Finish now ds n out) m)"
proof -
  let ?m0 = "m\<lparr>draws := ds, flights := drop_nth n (flights m)\<rparr>" let ?r = "queue_exec (Finish now ds n out) m"
  have "flow ?m0 ?r"
  proof (rule finish_dispatch [OF inv n(1), of ds now out])
    fix M x assume M: "core_inv M" "flow ?m0 M"
      and e: "completeItem now (fl_key (flights m ! n)) (fl_workerID (flights m ! n)) (fl_token (flights m ! n)) out ?m0 =
        (tryDispatchLocked now M)\<lparr>outbox := x\<rparr>"
    have "flow (tryDispatchLocked now M) ((tryDispatchLocked now M)\<lparr>outbox := x\<rparr>)" by (rule flow_same) simp_all
    then show ?thesis using flow_trans [OF M(2)] flow_trans [OF tryDispatchLocked_flow [OF M(1)]] e n by (simp add: Let_def)
  qed
  moreover have "attempts_left ?m0 = attempts_left m" by (simp add: attempts_left_def fun_eq_iff)
  then have "Suc (potential ?m0) = potential m" using n(1) by (simp add: potential_def all_keys_def drop_nth_def)
  moreover have "keeps_settled m ?m0" by (simp add: keeps_settled_def)
  ultimately show "Suc (potential ?r) = potential m" "keeps_settled m ?r" by (simp_all add: flow_def keeps_settled_def)
qed

lemma reap_flow:
  assumes "queue_inv m" shows "flow m (reapExpiredLeases now visit m)"
proof -
  obtain m' d where e: "fold (reap_job now) visit (m, False) = (m', d)" by force
  have "core_inv m'" "flow m m'" using reap_jobs_inv [of "(m, False)" now visit] assms unfolding e queue_inv_def by auto
  then show ?thesis using tryDispatchLocked_flow flow_trans by (auto simp: reapExpiredLeases_def e)
qed

lemma register_flow:
  assumes "queue_inv m" shows "flow m (fst (RegisterWorker now w profile m))"
proof -
  obtain s u where su: "(case profile of None \<Rightarrow> (1, True)
      | Some p \<Rightarrow> if pp_Concurrency p > 0 then (pp_Concurrency p, False) else (1, True)) = (s, u)" by force
  then have "1 \<le> s" by (auto split: option.splits if_splits)
  let ?m = "m\<lparr>mg_workers := mput w \<lparr>ws_worker = w, ws_slots = s, ws_unmeasured = u, ws_active = 0\<rparr> (mg_workers m)\<rparr>"
  have "core_inv ?m" using assms \<open>1 \<le> s\<close> register_core(1) by (simp add: queue_inv_def)
  moreover have "flow m ?m" by (rule flow_same) simp_all
  ultimately show ?thesis using su tryDispatchLocked_flow flow_trans by (simp add: RegisterWorker_def)
qed

lemma pause_flow: "flow m (fst (PauseJob now j m))"
proof (cases "\<exists>job. map_of (mg_jobs m) j = Some job \<and> (jb_Status job = JobRunning \<or> jb_Status job = JobPending)")
  case True
  then obtain job where job: "map_of (mg_jobs m) j = Some job" "jb_Status job = JobRunning \<or> jb_Status job = JobPending" by blast
  show ?thesis
    by (rule flow_job [OF job(1), of "job\<lparr>jb_Status := JobPaused, jb_UpdatedAt := now\<rparr>"]) (use job in \<open>auto simp: PauseJob_def persist_ok\<close>)
qed (auto simp: PauseJob_def flow_same split: option.splits)

lemma cancel_flow:
  assumes inv: "queue_inv m" shows "flow m (fst (CancelJob now j m))"
proof (cases "\<exists>job. map_of (mg_jobs m) j = Some job \<and> jb_Status job \<notin> {JobCancelled, JobCompleted, JobCompletedWithErrors}")
  case True
  then obtain job where job: "map_of (mg_jobs m) j = Some job" "jb_Status job \<notin> {JobCancelled, JobCompleted, JobCompletedWithErrors}"
    by blast
  let ?f = "fold (cancel_item now j) (order_of m j) m"
  have core: "core_inv m" using inv by (simp add: queue_inv_def)
  then have dom: "\<forall>k\<in>set (order_of m j). ii_jobID k = j \<and> k \<in> dom (map_of (mg_items m))" by (auto elim: core_item [of m _ j])
  have "flow m ?f" using cancel_items_frame [OF dom] job(1) by auto
  moreover have "flow ?f (cancel_mark now j ?f)"
  proof -
    obtain job' where "map_of (mg_jobs ?f) j = Some job'"
      using cancel_items_commute [OF cancelled_queue_inv [OF inv job] subset_refl job(1)] by blast
    then show ?thesis
      by (intro flow_job [of ?f j job' "job'\<lparr>jb_Status := JobCancelled, jb_UpdatedAt := now\<rparr>"]) (simp_all add: cancel_mark_def persist_ok)
  qed
  ultimately show ?thesis using job flow_trans by (auto simp: CancelJob_def order_of_def)
qed (auto simp: CancelJob_def flow_same split: option.splits)

lemma begin_flow: "flow m (queue_exec (Begin now n) m)"
proof -
  let ?m = "m\<lparr>flights := (flights m)[n := (flights m ! n)\<lparr>fl_started := True\<rparr>]\<rparr>" let ?k = "fl_key (flights m ! n)"
  have a: "flow m ?m" by (rule flow_same) simp_all
  have "flow ?m (runItem_begin now k ?m)" for k
  proof (cases "\<exists>it. map_of (mg_items m) k = Some it \<and> wi_State it = WorkItemLeased")
    case True
    then obtain it where it: "map_of (mg_items m) k = Some it" "wi_State it = WorkItemLeased" by blast
    let ?m1 = "?m\<lparr>mg_items := mput k (it\<lparr>wi_State := WorkItemRunning, wi_UpdatedAt := now\<rparr>) (mg_items m)\<rparr>"
    have "attempts_left ?m1 x = attempts_left ?m x" for x using it by (simp add: attempts_left_def split: option.splits)
    then have "attempts_left ?m1 = attempts_left ?m" by (simp add: fun_eq_iff)
    then show ?thesis using it by (auto simp: runItem_begin_def flow_def potential_def keeps_settled_def settled_def all_keys_def)
  next
    case False
    then show ?thesis by (intro flow_same) (auto simp: runItem_begin_def split: option.splits)
  qed
  then show ?thesis using flow_trans [OF a] by (simp add: flow_same)
qed

lemma submit_settled:
  assumes "queue_inv m" shows "keeps_settled m (fst (SubmitJob now operation pool inputs maxAttempts m))"
proof (rule submit_cases [OF assms, of now operation pool inputs maxAttempts])
  fix M x assume M: "core_inv M" "keeps_settled m M"
    and e: "fst (SubmitJob now operation pool inputs maxAttempts m) = (tryDispatchLocked now M)\<lparr>outbox := x\<rparr>"
  show ?thesis unfolding e using M(2) tryDispatchLocked_flow [OF M(1), of now] by (simp add: flow_def keeps_settled_def)
qed simp

lemma queue_exec_settled:
  assumes "queue_inv m" shows "keeps_settled m (queue_exec x m)"
proof (cases x)
  case (Finish now ds n out)
  then show ?thesis
    using finish_flow(2) [OF assms] by (cases "n < length (flights m) \<and> fl_started (flights m ! n)") (auto simp: keeps_settled_def)
next
  case (Submit now ds op pool inputs cap)
  then show ?thesis using submit_settled [of "m\<lparr>draws := ds\<rparr>"] assms by (simp add: keeps_settled_def)
next
  case (Register now ds w p)
  then show ?thesis using register_flow [of "m\<lparr>draws := ds\<rparr>"] assms by (simp add: flow_def keeps_settled_def)
next
  case (Begin now n)
  then show ?thesis using begin_flow by (simp only: flow_def)
next
  case (Reap now ds visit)
  then show ?thesis using reap_flow [of "m\<lparr>draws := ds\<rparr>"] assms by (simp add: flow_def keeps_settled_def)
next
  case (Pause now j)
  then show ?thesis using pause_flow by (simp add: flow_def)
next
  case (Cancel now j)
  then show ?thesis using cancel_flow [OF assms] by (simp add: flow_def)
qed

lemma potential_draws [simp]: "potential (m\<lparr>draws := ds\<rparr>) = potential m"
  using flow_same [of "m\<lparr>draws := ds\<rparr>" m] by (simp add: flow_def)

lemma queue_exec_potential:
  assumes inv: "queue_inv m" and "\<not> is_submit x" shows "potential (queue_exec x m) + of_bool (returns x m) = potential m"
proof (cases x)
  case (Finish now ds n out)
  show ?thesis
  proof (cases "n < length (flights m) \<and> fl_started (flights m ! n)")
    case True
    then have "Suc (potential (queue_exec x m)) = potential m" using finish_flow(1) [OF inv] unfolding Finish by blast
    moreover have "returns x m" using True by (simp add: Finish)
    ultimately show ?thesis by simp
  next
    case False
    then show ?thesis by (auto simp: Finish)
  qed
next
  case (Begin now n)
  then show ?thesis using begin_flow [of m now n] by (simp add: flow_def del: queue_exec.simps)
next
  case (Register now ds w p)
  then show ?thesis using register_flow [of "m\<lparr>draws := ds\<rparr>"] inv by (simp add: flow_def)
next
  case (Reap now ds visit)
  then show ?thesis using reap_flow [of "m\<lparr>draws := ds\<rparr>"] inv by (simp add: flow_def)
next
  case (Pause now j)
  then show ?thesis using pause_flow [of m] by (simp add: flow_def)
next
  case (Cancel now j)
  then show ?thesis using cancel_flow [OF inv] by (simp add: flow_def)
qed (use assms(2) in simp)

lemma queue_run_settled:
  assumes "queue_inv m" "map_of (mg_items m) k = Some it" "settled it" shows "map_of (mg_items (queue_run xs m)) k = Some it"
  using assms(1,2)
proof (induction xs arbitrary: m)
  case (Cons x xs)
  have "map_of (mg_items (queue_exec x m)) k = Some it" using queue_exec_settled [OF Cons.prems(1)] Cons.prems(2) assms(3) by (simp add: keeps_settled_def)
  then show ?case using Cons.IH [OF queue_exec_inv [OF Cons.prems(1)]] by (simp add: queue_run_def)
qed (simp add: queue_run_def)

lemma queue_run_potential:
  assumes "queue_inv m" "\<forall>x\<in>set xs. \<not> is_submit x" shows "potential (queue_run xs m) + returned xs m = potential m"
  using assms
proof (induction xs arbitrary: m)
  case (Cons x xs)
  have "potential (queue_exec x m) + of_bool (returns x m) = potential m" using queue_exec_potential [OF Cons.prems(1)] Cons.prems(2) by simp
  then show ?case using Cons.IH [OF queue_exec_inv [OF Cons.prems(1)], of x] Cons.prems(2) by (simp add: queue_run_def)
qed (simp add: queue_run_def)

lemma tally_some: "0 < tally P m ks \<Longrightarrow> \<exists>k\<in>set ks. P (state_at m k)"
  by (induction ks) (auto simp: tally_Cons tally_def split: if_splits)

text \<open>When no call is in flight and there is a worker, no job with items is still to be run.\<close>

lemma quiescent_halted:
  assumes inv: "queue_inv m" and idle: "flights m = []" and worker: "mg_workers m \<noteq> []"
    and ks: "map_of (itemOrder m) j = Some ks" and job: "map_of (mg_jobs m) j = Some job"
  shows "halted job"
proof (rule ccontr)
  assume live: "\<not> halted job"
  have core: "core_inv m" and slots: "slots_ok m" and gap: "zero_gap m" using inv by (simp_all add: queue_inv_def)
  have o: "order_of m j = ks" using ks by (simp add: order_of_def mget_zero_def)
  have ok: "job_ok m ks job" using core ks job by (force simp: core_inv_def orders_ok_def)
  have none: "\<not> in_flight (state_at m k)" if "k \<in> set ks" for k
  proof -
    have "k \<in> set (order_of m j)" using that o by simp
    then obtain it cap where "map_of (mg_items m) k = Some it" "item_ok (workers_of m) cap (mget_zero 0 (leaseTok m) k) (calls m k) k it"
      using core by (elim core_item) auto
    then show ?thesis using idle by (auto simp: item_ok_def calls_def state_at_def)
  qed
  have run: "jb_Status job = JobRunning" using ok live by (auto simp: job_ok_def halted_def)
  have "\<not> 0 < tally in_flight m ks" using tally_some [of in_flight m ks] none by blast
  then have "0 < tally (\<lambda>s. s = WorkItemQueued) m ks" using ok run by (auto simp: job_ok_def)
  then obtain k where k: "k \<in> set ks" "state_at m k = WorkItemQueued" using tally_some by blast
  then obtain it where it: "map_of (mg_items m) k = Some it" "wi_State it = WorkItemQueued"
    by (auto simp: state_at_def split: option.splits)
  have item: "item_ok (workers_of m) (jb_MaxAttempts job) (mget_zero 0 (leaseTok m) k) (calls m k) k it"
    using core_item_ok [OF core _ job it(1)] k(1) o by simp
  have "workers_of m \<noteq> {}" using worker by (cases "mg_workers m") (auto simp: workers_of_def)
  then obtain w where w: "w \<in> workers_of m" "w \<notin> set (wi_TriedWorkers it)" using item it(2) by (auto simp: item_ok_def)
  then obtain ws where ws: "map_of (mg_workers m) w = Some ws" by (auto simp: workers_of_def)
  have "ws_active ws \<le> busy m w" "1 \<le> ws_slots ws" using slots ws by (auto simp: slots_ok_def)
  then have "free_for m (wi_TriedWorkers it) w" using ws w(2) idle by (auto simp: free_for_def busy_def)
  moreover have "j \<in> set (jobOrder m)" using core job by (auto simp: core_inv_def shape_ok_def)
  then have "served m k" using gap job live k(1) o by (simp add: zero_gap_def job_served_def)
  ultimately show False using it by (simp add: served_def)
qed

lemma tally_all: "tally P m ks = int (length ks) \<longleftrightarrow> (\<forall>k\<in>set ks. P (state_at m k))"
proof -
  have "tally P m ks = int (length ks) \<longleftrightarrow> filter (\<lambda>k. P (state_at m k)) ks = ks"
    unfolding tally_def by (metis length_filter_conv_card filter_id_conv length_filter_less nat_less_le of_nat_eq_iff order_refl)
  then show ?thesis by (simp add: filter_id_conv)
qed

lemma tally_zero: "tally P m ks = 0 \<Longrightarrow> k \<in> set ks \<Longrightarrow> \<not> P (state_at m k)"
  using tally_pos [of k ks P m] by auto

lemma completed_items:
  assumes inv: "queue_inv m" and ks: "map_of (itemOrder m) j = Some ks" and job: "map_of (mg_jobs m) j = Some job" and k: "k \<in> set ks"
  shows "jb_Status job = JobCompleted \<Longrightarrow> state_at m k = WorkItemSuccess"
    and "jb_Status job = JobCompletedWithErrors \<Longrightarrow> state_at m k \<in> {WorkItemSuccess, WorkItemFailed}"
proof -
  have core: "core_inv m" using inv by (simp add: queue_inv_def)
  have ok: "job_ok m ks job" using core ks job by (force simp: core_inv_def orders_ok_def)
  have "k \<in> set (order_of m j)" using ks k by (simp add: order_of_def mget_zero_def)
  then obtain it where "map_of (mg_items m) k = Some it" "item_ok (workers_of m) (jb_MaxAttempts job) (mget_zero 0 (leaseTok m) k) (calls m k) k it"
    using core job by (elim core_item) auto
  then have st: "state_at m k \<in> {WorkItemQueued, WorkItemLeased, WorkItemRunning, WorkItemSuccess, WorkItemFailed, WorkItemCancelled}"
    by (simp add: item_ok_def state_at_def)
  have *: "state_at m k \<in> {WorkItemSuccess, WorkItemFailed}" if d: "jb_Status job \<in> {JobCompleted, JobCompletedWithErrors}"
  proof -
    have "tally (\<lambda>s. s = WorkItemQueued) m ks + tally in_flight m ks = 0" "tally (\<lambda>s. s = WorkItemCancelled) m ks = 0"
      using ok d by (auto simp: job_ok_def)
    then have "tally (\<lambda>s. s = WorkItemQueued) m ks = 0" "tally in_flight m ks = 0" "tally (\<lambda>s. s = WorkItemCancelled) m ks = 0"
      using tally_nonneg [of "\<lambda>s. s = WorkItemQueued" m ks] tally_nonneg [of in_flight m ks] by linarith+
    then show ?thesis using st tally_zero [OF _ k, of _ m] by (fastforce simp: in_flight_def)
  qed
  then show "jb_Status job = JobCompletedWithErrors \<Longrightarrow> state_at m k \<in> {WorkItemSuccess, WorkItemFailed}" by simp
  assume c: "jb_Status job = JobCompleted"
  then have "tally (\<lambda>s. s = WorkItemFailed) m ks = 0" using ok by (simp add: job_ok_def)
  then show "state_at m k = WorkItemSuccess" using * c tally_zero [OF _ k, of "\<lambda>s. s = WorkItemFailed" m] by auto
qed

section \<open>Properties\<close>

definition sample_input :: item_input where
  "sample_input = \<lparr>ip_ItemID = '''', ip_OperationVersion = '''', ip_Payload = JObject []\<rparr>"

definition sample_done :: "string + job_result" where
  "sample_done = Inr \<lparr>jr_Output = ''out'', jr_Tokens = 1\<rparr>"

definition sample_queue :: manager where
  "sample_queue = queue_run [Register 1 [] ''w'' None, Submit 2 [] ''op'' ''pool'' [sample_input, sample_input] 3,
     Begin 3 0, Finish 4 [] 0 sample_done] (NewManager 0 0 0)"


lemma sample_queue_order: "map_of (itemOrder sample_queue) ''job-2-1'' =
    Some [itemKey ''job-2-1'' ''item-0'' ''v1'', itemKey ''job-2-1'' ''item-1'' ''v1'']"
  by code_simp


text \<open>
  C9 A settled item is final: once an item has succeeded or failed, no later operation changes
  it. A late or duplicate result, an expired lease, a cancellation or a new submission leaves its
  state and its result as they are.
\<close>

theorem settled_item_final:
  assumes "map_of (mg_items (queue_run xs (NewManager ttl interval maxAttempts))) k = Some it"
    and "wi_State it = WorkItemSuccess \<or> wi_State it = WorkItemFailed"
  shows "map_of (mg_items (queue_run (xs @ ys) (NewManager ttl interval maxAttempts))) k = Some it"
  using queue_run_settled [OF queue_reachable_inv assms(1), of ys] assms(2) by (simp add: settled_def queue_run_def)

definition sample_ops :: "queue_op list" where
  "sample_ops = [Register 1 [] ''w'' None, Submit 2 [] ''op'' ''pool'' [sample_input, sample_input] 3,
     Begin 3 0, Finish 4 [] 0 sample_done]"

definition sample_item :: work_item where
  "sample_item = the (map_of (mg_items sample_queue) (itemKey ''job-2-1'' ''item-0'' ''v1''))"

lemma sample_item_done:
  "map_of (mg_items (queue_run sample_ops (NewManager 0 0 0))) (itemKey ''job-2-1'' ''item-0'' ''v1'') = Some sample_item"
  "wi_State sample_item = WorkItemSuccess"
  by code_simp+

theorem settled_item_final_witness:
  "map_of (mg_items (queue_run (sample_ops @ [Cancel 5 ''job-2-1'', Reap 99999999999 [] [''job-2-1'']]) (NewManager 0 0 0)))
     (itemKey ''job-2-1'' ''item-0'' ''v1'') = Some sample_item"
  by (rule settled_item_final [OF sample_item_done(1) disjI1 [OF sample_item_done(2)]])


definition sample_rest :: "queue_op list" where
  "sample_rest = [Begin 5 0, Finish 6 [] 0 (Inl ''failed'')]"

lemma sample_rest_facts:
  "\<forall>y\<in>set sample_rest. \<not> is_submit y" "mg_workers (queue_run sample_rest sample_queue) \<noteq> []" "flights (queue_run sample_rest sample_queue) = []"
  "returned sample_rest sample_queue = 1" "potential sample_queue = 5" "''job-2-1'' \<in> dom (map_of (itemOrder (queue_run sample_rest sample_queue)))"
  "map_of (mg_jobs (queue_run sample_rest sample_queue)) ''job-2-1'' =
     Some (the (map_of (mg_jobs (queue_run sample_rest sample_queue)) ''job-2-1''))"
  unfolding domIff by code_simp+



definition waiting_ops :: "queue_op list" where
  "waiting_ops = [Register 1 [] ''w'' None, Submit 2 [] ''op'' ''pool'' [sample_input, sample_input] 3]"

definition waiting_queue :: manager where
  "waiting_queue = queue_run waiting_ops (NewManager 0 0 0)"

definition waiting_item :: item_identity where
  "waiting_item = itemKey ''job-2-1'' ''item-1'' ''v1''"

lemma waiting_facts:
  "\<not> halted (the (map_of (mg_jobs waiting_queue) ''job-2-1''))" "waiting_item \<in> set (order_of waiting_queue ''job-2-1'')"
  "map_of (mg_jobs waiting_queue) ''job-2-1'' = Some (the (map_of (mg_jobs waiting_queue) ''job-2-1''))"
  "map_of (mg_items waiting_queue) waiting_item = Some (the (map_of (mg_items waiting_queue) waiting_item))"
  "map_of (mg_workers waiting_queue) ''w'' = Some (the (map_of (mg_workers waiting_queue) ''w''))"
  "wi_State (the (map_of (mg_items waiting_queue) waiting_item)) = WorkItemQueued"
  by code_simp+


text \<open>
  C37 The capacity of a worker is not respected once a lease has expired. The reaper frees the slot
  of the expired call and \<open>completeItem\<close> frees it once more when the late result arrives, so
  the slot of another call is given away: here a worker with one slot has two items in flight.
\<close>

definition late_result :: "queue_op list" where
  "late_result = [Register 1 [] ''w'' None, Submit 2 [] ''op'' ''pool'' [sample_input, sample_input, sample_input] 3,
     Begin 3 0, Reap 30000000002 [] [''job-2-1''], Finish 30000000003 [] 0 (Inl ''context deadline exceeded'')]"


section \<open>Further observations\<close>

text \<open>
  A submission with a duplicate item identity is refused, but the job stays: it is listed as
  running with its items queued, none of which is ever dispatched.
\<close>

lemma duplicate_leaves_job:
  "case SubmitJob 2 ''op'' ''pool'' [sample_input\<lparr>ip_ItemID := ''a''\<rparr>, sample_input\<lparr>ip_ItemID := ''a''\<rparr>] 3
       (queue_run [Register 1 [] ''w'' None] (NewManager 0 0 0)) of
     (m, r) \<Rightarrow> r = Inl (Err ''jobs: duplicate item identity'') \<and>
       (case manager_ListJobs m of
          Inr [job] \<Rightarrow> jb_Status job = JobRunning \<and> jp_Queued (jb_Progress job) = 2 \<and> order_of m (jb_ID job) = []
        | _ \<Rightarrow> False)"
  by code_simp

text \<open>An item of a cancelled job whose lease expires is queued again and counted as retried.\<close>

lemma cancelled_item_requeued:
  "let m = queue_run [Register 1 [] ''v'' None, Register 1 [] ''w'' None, Submit 2 [0] ''op'' ''pool'' [sample_input] 3,
       Cancel 3 ''job-2-1'', Reap 40000000000 [] [''job-2-1'']] (NewManager 0 0 0)
   in state_at m (itemKey ''job-2-1'' ''item-0'' ''v1'') = WorkItemQueued \<and>
      map_option (\<lambda>job. (jb_Status job, jp_Queued (jb_Progress job), jp_Retried (jb_Progress job))) (map_of (mg_jobs m) ''job-2-1'') =
        Some (JobCancelled, 1, 1)"
  by code_simp

text \<open>
  The pending writes may reach the store in any order. Written in another order than they were
  made, the row of a completed job says that it is running.
\<close>

lemma reordered_writes_leave_stale_row:
  "let m = queue_run [Register 1 [] ''w'' None, Submit 2 [] ''op'' ''pool'' [sample_input] 3, Begin 3 0, Finish 4 [] 0 sample_done]
         (NewManager 0 0 0);
       st = fold persist (rev (outbox m)) (Some NewMemoryStore)
   in map_option jb_Status (map_of (mg_jobs m) ''job-2-1'') = Some JobCompleted \<and>
      (case st of Some s \<Rightarrow> map_option jb_Status (map_of (jobs s) ''job-2-1'') = Some JobRunning | None \<Rightarrow> False)"
  by code_simp

end
