(* ===== verification/Composition.thy ===== *)
theory Composition
  imports Checkpoints Displacement Leases Workloads Budgets Residency Transitions Node_Commands Registry Job_Queue
begin

text \<open>
  The memory store as one system: a step is any operation of any component, made on the state
  they share. Each component's operations leave the tables of the others alone, except that a
  lease grant for a recovery writes the checkpoint row it recovers and a linked reservation
  writes the workload row it pays for. With the invariants of the components this gives one
  invariant for every reachable store.
\<close>

section \<open>Steps\<close>

inductive store_step :: "memory_store \<Rightarrow> memory_store \<Rightarrow> bool" where
  step_checkpoint: "checkpoint_step m m' \<Longrightarrow> store_step m m'"
| step_displacement: "displacement_step m m' \<Longrightarrow> store_step m m'"
| step_lease: "lease_step m m' \<Longrightarrow> store_step m m'"
| step_create_workload: "store_step m (fst (CreateWorkload m w))"
| step_update_workload: "store_step m (fst (UpdateWorkload m v))"
| step_swap_workload: "store_step m (fst (CompareAndSwapWorkload m v e s c))"
| step_budget: "store_step m (budget_exec b m)"
| step_residency: "store_step m (residency_exec r m)"
| step_transition: "store_step m (fst (transition_exec t m))"
| step_command: "store_step m (command_exec n m)"
| step_registry: "store_step m (registry_exec g m)"
| step_job: "store_step m (fst (UpsertJob m j))"
| step_work_item: "store_step m (fst (UpsertWorkItem m i))"

definition store_init :: "memory_store \<Rightarrow> bool" where
  "store_init m \<longleftrightarrow> m = NewMemoryStore"

definition store_inv :: "memory_store \<Rightarrow> bool" where
  "store_inv m \<longleftrightarrow> checkpoint_inv m \<and> displacement_inv m \<and> cleanup_intents_ok m \<and> workload_inv m \<and>
     budget_inv m \<and> residency_inv m \<and> transition_inv m \<and> enrollment_inv m"

text \<open>An invariant speaks of its own tables.\<close>

lemma inv_local:
  "llmCheckpointOps m' = llmCheckpointOps m \<Longrightarrow> llmCheckpointKeys m' = llmCheckpointKeys m \<Longrightarrow> checkpoint_inv m' = checkpoint_inv m"
  "llmDisplacementOps m' = llmDisplacementOps m \<Longrightarrow> llmDisplacementKeys m' = llmDisplacementKeys m \<Longrightarrow> displacement_inv m' = displacement_inv m"
  "leaseCleanupIntents m' = leaseCleanupIntents m \<Longrightarrow> cleanup_intents_ok m' = cleanup_intents_ok m"
  "workloads m' = workloads m \<Longrightarrow> idempotency m' = idempotency m \<Longrightarrow> workload_inv m' = workload_inv m"
  "budgets m' = budgets m \<Longrightarrow> budget_inv m' = budget_inv m"
  "residencies m' = residencies m \<Longrightarrow> residency_inv m' = residency_inv m"
  "transitions m' = transitions m \<Longrightarrow> transition_inv m' = transition_inv m"
  "nodeEnrollments m' = nodeEnrollments m \<Longrightarrow> enrollment_inv m' = enrollment_inv m"
  by (simp_all add: checkpoint_inv_def slot_exclusive_def checkpoint_index_ok_def displacement_inv_def cleanup_intents_ok_def
      workload_inv_def budget_inv_def residency_inv_def transition_inv_def enrollment_inv_def)

section \<open>Frames\<close>

lemma create_workload_frame:
  "fst (CreateWorkload m w) = m\<lparr>workloads := workloads (fst (CreateWorkload m w)), idempotency := idempotency (fst (CreateWorkload m w))\<rparr>"
  by (simp add: CreateWorkload_def Let_def split: option.splits)

lemma update_workload_frame: "fst (UpdateWorkload m v) = m\<lparr>workloads := workloads (fst (UpdateWorkload m v))\<rparr>"
proof -
  obtain m' r where u: "UpdateWorkload m v = (m', r)" by force
  show ?thesis using u by (cases r) (auto dest: update_workload_errD elim!: update_workload_okD)
qed

lemma swap_workload_frame:
  "fst (CompareAndSwapWorkload m v e s c) = m\<lparr>workloads := workloads (fst (CompareAndSwapWorkload m v e s c))\<rparr>"
proof -
  obtain m' r where u: "CompareAndSwapWorkload m v e s c = (m', r)" by force
  show ?thesis using u by (cases r) (auto dest: swap_workload_errD elim!: swap_workload_okD)
qed

lemma link_frame:
  "fst (ReserveAndLinkBudgetClaim now m p w amount limit tok e s c) = m\<lparr>budgets := budgets (fst (ReserveAndLinkBudgetClaim now m p w amount limit tok e s c)),
     workloads := workloads (fst (ReserveAndLinkBudgetClaim now m p w amount limit tok e s c))\<rparr>"
proof (cases "link_refused m p w amount limit tok e s c")
  case True
  then show ?thesis by (simp add: link_refused_result)
next
  case False
  then obtain u where "map_of (workloads m) w = Some u" by (auto simp: link_refused_def split: option.splits)
  then show ?thesis
    by (cases "active_reservation m w") (simp_all add: ReserveAndLinkBudgetClaim_def Let_def)
qed

lemma link_workload_inv:
  assumes inv: "workload_inv m" shows "workload_inv (fst (ReserveAndLinkBudgetClaim now m p w amount limit tok e s c))"
proof (cases "link_refused m p w amount limit tok e s c")
  case True
  then show ?thesis using inv by (simp add: link_refused_result)
next
  case False
  then obtain u where u: "map_of (workloads m) w = Some u" by (auto simp: link_refused_def split: option.splits)
  let ?m = "fst (ReserveAndLinkBudgetClaim now m p w amount limit tok e s c)"
  have "workloads ?m = workloads m \<or> (\<exists>q. workloads ?m = mput w (link_reservation now q u) (workloads m))"
    using u by (cases "active_reservation m w") (auto simp: ReserveAndLinkBudgetClaim_def Let_def)
  moreover have "idempotency ?m = idempotency m" by (subst link_frame) simp
  moreover have "wl_ID (link_reservation now q u) = w" for q using inv u by (simp add: workload_inv_def link_reservation_def)
  ultimately show ?thesis using inv workload_inv_put [OF inv, of _ w ?m] inv_local(4) [of ?m m] by metis
qed

lemma budget_exec_frame: "budget_exec b m = m\<lparr>budgets := budgets (budget_exec b m), workloads := workloads (budget_exec b m)\<rparr>"
proof (cases b)
  case (Reserve now p w amount limit tok)
  let ?m = "fst (ReserveBudgetClaim now m p w amount limit tok)"
  have "workloads ?m = workloads m" by (subst reserve_frame) simp
  moreover have "?m = m\<lparr>budgets := budgets ?m\<rparr>" by (rule reserve_frame)
  moreover have "m\<lparr>budgets := x\<rparr> = m\<lparr>budgets := x, workloads := workloads m\<rparr>" for x by simp
  ultimately show ?thesis unfolding Reserve budget_exec.simps by metis
next
  case (ReserveLink now p w amount limit tok e s c)
  show ?thesis unfolding ReserveLink budget_exec.simps by (rule link_frame)
next
  case (Settle now w tok att actual)
  show ?thesis unfolding Settle budget_exec.simps by (simp add: SettleBudgetClaim_def Let_def split: option.splits)
next
  case (Free now w tok att)
  show ?thesis unfolding Free budget_exec.simps by (simp add: ReleaseBudgetClaim_def split: option.splits)
qed

lemma budget_exec_workloads:
  assumes "workload_inv m" shows "workload_inv (budget_exec b m)"
proof (cases b)
  case (ReserveLink now p w amount limit tok e s c)
  then show ?thesis using link_workload_inv [OF assms] by simp
next
  case (Reserve now p w amount limit tok)
  have "workload_inv (fst (ReserveBudgetClaim now m p w amount limit tok))" by (subst reserve_frame) (use assms in \<open>simp add: workload_inv_def\<close>)
  then show ?thesis using Reserve by simp
next
  case (Settle now w tok att actual)
  then show ?thesis using assms by (simp add: SettleBudgetClaim_def Let_def workload_inv_def split: option.splits)
next
  case (Free now w tok att)
  then show ?thesis using assms by (simp add: ReleaseBudgetClaim_def workload_inv_def split: option.splits)
qed

section \<open>The invariant\<close>

lemma store_inv_new: "store_inv NewMemoryStore"
proof -
  have "checkpoint_inv NewMemoryStore" "displacement_inv NewMemoryStore"
    by (simp_all add: checkpoint_inv_def slot_exclusive_def checkpoint_index_ok_def displacement_inv_def indexed_table_def
        conflict_free_def NewMemoryStore_def)
  moreover have "cleanup_intents_ok NewMemoryStore" "residency_inv NewMemoryStore" "transition_inv NewMemoryStore"
    by (simp_all add: cleanup_intents_ok_def residency_inv_def transition_inv_def NewMemoryStore_def)
  ultimately show ?thesis by (simp add: store_inv_def enrollment_inv_new budget_inv_new workload_inv_new)
qed

lemma store_inv_checkpoint:
  assumes inv: "store_inv m" and s: "checkpoint_step m m'" shows "store_inv m'"
proof -
  obtain x y where e: "m' = m\<lparr>llmCheckpointOps := x, llmCheckpointKeys := y\<rparr>" using checkpoint_step_frame [OF s] by blast
  have "checkpoint_inv m'" using checkpoint_step_inv [OF s] inv by (simp add: store_inv_def)
  then show ?thesis using inv inv_local [of m' m] unfolding store_inv_def e by simp
qed

lemma store_inv_displacement:
  assumes inv: "store_inv m" and s: "displacement_step m m'" shows "store_inv m'"
proof -
  obtain x y where e: "m' = m\<lparr>llmDisplacementOps := x, llmDisplacementKeys := y\<rparr>" using displacement_step_frame [OF s] by blast
  have "displacement_inv m'" using displacement_step_inv [OF s] inv by (simp add: store_inv_def)
  then show ?thesis using inv inv_local [of m' m] unfolding store_inv_def e by simp
qed

lemma store_inv_lease:
  assumes inv: "store_inv m" and s: "lease_step m m'" shows "store_inv m'"
proof -
  obtain x y z u where e: "m' = m\<lparr>leases := x, leaseFences := y, leaseCleanupIntents := z, llmCheckpointOps := u\<rparr>"
    using lease_step_frame [OF s] by blast
  have "checkpoint_inv m'" "cleanup_intents_ok m'"
    using lease_step_checkpoints(1) [OF s] lease_step_cleanup [OF s] inv by (simp_all add: store_inv_def)
  then show ?thesis using inv inv_local [of m' m] unfolding store_inv_def e by simp
qed

lemma store_inv_workloads:
  assumes inv: "store_inv m" and w: "workload_inv m'" and e: "m' = m\<lparr>workloads := x, idempotency := y\<rparr>" shows "store_inv m'"
  using inv w inv_local [of m' m] unfolding store_inv_def e by simp

lemma store_inv_workload_ops:
  assumes inv: "store_inv m"
  shows "store_inv (fst (CreateWorkload m w))" and "store_inv (fst (UpdateWorkload m v))"
    and "store_inv (fst (CompareAndSwapWorkload m u e s c))"
proof -
  have w: "workload_inv m" using inv by (simp add: store_inv_def)
  have i: "m\<lparr>workloads := x\<rparr> = m\<lparr>workloads := x, idempotency := idempotency m\<rparr>" for x by simp
  show "store_inv (fst (CreateWorkload m w))"
    by (rule store_inv_workloads [OF inv create_workload_inv(1) [OF w] create_workload_frame])
  show "store_inv (fst (UpdateWorkload m v))"
    by (rule store_inv_workloads [OF inv update_workload_inv [OF w prod.collapse [symmetric]] trans [OF update_workload_frame i]])
  show "store_inv (fst (CompareAndSwapWorkload m u e s c))"
    by (rule store_inv_workloads [OF inv swap_workload_inv [OF w prod.collapse [symmetric]] trans [OF swap_workload_frame i]])
qed

lemma store_inv_budget:
  assumes inv: "store_inv m" shows "store_inv (budget_exec b m)"
proof -
  obtain x y where e: "budget_exec b m = m\<lparr>budgets := x, workloads := y\<rparr>" using budget_exec_frame by blast
  have "budget_inv (budget_exec b m)" "workload_inv (budget_exec b m)"
    using inv by (simp_all add: store_inv_def budget_exec_inv budget_exec_workloads)
  then show ?thesis using inv inv_local [of "budget_exec b m" m] unfolding store_inv_def e by simp
qed

lemma store_inv_residency:
  assumes inv: "store_inv m" shows "store_inv (residency_exec r m)"
proof -
  obtain x where e: "residency_exec r m = m\<lparr>residencies := x\<rparr>" using residency_exec_frame by blast
  have "residency_inv (residency_exec r m)" using inv by (simp add: store_inv_def residency_exec_inv)
  then show ?thesis using inv inv_local [of "residency_exec r m" m] unfolding store_inv_def e by simp
qed

lemma store_inv_transition:
  assumes inv: "store_inv m" shows "store_inv (fst (transition_exec t m))"
proof -
  obtain x y where e: "fst (transition_exec t m) = m\<lparr>transitions := x, transitionKeys := y\<rparr>" using transition_exec_frame by blast
  have "transition_inv (fst (transition_exec t m))"
    using inv transition_exec_inv [OF _ prod.collapse [symmetric]] by (simp add: store_inv_def)
  then show ?thesis using inv inv_local [of "fst (transition_exec t m)" m] unfolding store_inv_def e by simp
qed

lemma store_inv_command:
  assumes inv: "store_inv m" shows "store_inv (command_exec n m)"
proof -
  obtain x y where e: "command_exec n m = m\<lparr>nodeCommands := x, nodeCommandKeys := y\<rparr>" using command_exec_frame by blast
  show ?thesis using inv inv_local [of "command_exec n m" m] unfolding store_inv_def e by simp
qed

lemma store_inv_registry:
  assumes inv: "store_inv m" shows "store_inv (registry_exec g m)"
proof -
  obtain x y z u where e: "registry_exec g m = m\<lparr>nodeEnrollments := x, runtimeProfiles := y, modelCapacities := z, interferenceProfiles := u\<rparr>"
    using registry_frame by blast
  have "enrollment_inv (registry_exec g m)" using inv by (simp add: store_inv_def registry_exec_enrollment)
  then show ?thesis using inv inv_local [of "registry_exec g m" m] unfolding store_inv_def e by simp
qed

lemma job_rows_frame:
  "\<exists>x. fst (UpsertJob m j) = m\<lparr>jobs := x\<rparr>" "\<exists>x. fst (UpsertWorkItem m i) = m\<lparr>workItems := x\<rparr>"
  by (auto simp: UpsertJob_def UpsertWorkItem_def Let_def)

lemma store_inv_jobs:
  assumes inv: "store_inv m" shows "store_inv (fst (UpsertJob m j))" and "store_inv (fst (UpsertWorkItem m i))"
proof -
  obtain x y where e: "fst (UpsertJob m j) = m\<lparr>jobs := x\<rparr>" "fst (UpsertWorkItem m i) = m\<lparr>workItems := y\<rparr>"
    using job_rows_frame by metis
  show "store_inv (fst (UpsertJob m j))" using inv inv_local [of "fst (UpsertJob m j)" m] unfolding store_inv_def e by simp
  show "store_inv (fst (UpsertWorkItem m i))" using inv inv_local [of "fst (UpsertWorkItem m i)" m] unfolding store_inv_def e by simp
qed

lemmas store_inv_ops = store_inv_checkpoint store_inv_displacement store_inv_lease store_inv_workload_ops store_inv_budget
  store_inv_residency store_inv_transition store_inv_command store_inv_registry store_inv_jobs

lemma store_step_inv: "store_step m m' \<Longrightarrow> store_inv m \<Longrightarrow> store_inv m'"
  by (induction rule: store_step.induct) (rule store_inv_ops; assumption)+

interpretation store_states: inductive_invariant store_init store_step store_inv
  by unfold_locales (auto simp: store_init_def store_inv_new intro: store_step_inv)

section \<open>Rows over time\<close>

text \<open>Every row of a table is still there later, related to what it was.\<close>

definition rows_follow :: "('v \<Rightarrow> 'v \<Rightarrow> bool) \<Rightarrow> (memory_store \<Rightarrow> (string, 'v) gomap) \<Rightarrow> memory_store \<Rightarrow> memory_store \<Rightarrow> bool" where
  "rows_follow R table m m' \<longleftrightarrow>
     (\<forall>k p. map_of (table m) k = Some p \<longrightarrow> (\<exists>q. map_of (table m') k = Some q \<and> R p q))"

lemma rows_follow_same: "table m' = table m \<Longrightarrow> (\<And>p. R p p) \<Longrightarrow> rows_follow R table m m'"
  by (simp add: rows_follow_def)

lemma rows_follow_trans:
  "rows_follow R table m m' \<Longrightarrow> rows_follow R table m' m'' \<Longrightarrow> (\<And>p q r. R p q \<Longrightarrow> R q r \<Longrightarrow> R p r) \<Longrightarrow> rows_follow R table m m''"
  unfolding rows_follow_def by metis

definition store_evolves :: "memory_store \<Rightarrow> memory_store \<Rightarrow> bool" where
  "store_evolves m m' \<longleftrightarrow> rows_follow checkpoint_evolves llmCheckpointOps m m' \<and>
     rows_follow residency_evolves residencies m m' \<and> rows_follow same_signed nodeCommands m m'"

lemma store_evolves_refl [simp]: "store_evolves m m"
  by (simp add: store_evolves_def rows_follow_same)

lemma store_evolves_trans: "store_evolves m m' \<Longrightarrow> store_evolves m' m'' \<Longrightarrow> store_evolves m m''"
  unfolding store_evolves_def
  using rows_follow_trans [of checkpoint_evolves llmCheckpointOps m m' m''] checkpoint_evolves_trans
    rows_follow_trans [of residency_evolves residencies m m' m''] residency_evolves_trans
    rows_follow_trans [of same_signed nodeCommands m m' m''] same_signed_trans by blast

text \<open>A step that leaves the three tables alone, and a step that changes one of them.\<close>

lemma store_evolves_frame:
  "llmCheckpointOps m' = llmCheckpointOps m \<Longrightarrow> residencies m' = residencies m \<Longrightarrow> nodeCommands m' = nodeCommands m \<Longrightarrow> store_evolves m m'"
  by (simp add: store_evolves_def rows_follow_same)

lemma store_evolves_checkpoints:
  "checkpoint_rows_evolve m m' \<Longrightarrow> residencies m' = residencies m \<Longrightarrow> nodeCommands m' = nodeCommands m \<Longrightarrow> store_evolves m m'"
  by (simp add: store_evolves_def rows_follow_same) (simp add: rows_follow_def checkpoint_rows_evolve_def)

lemma store_evolves_residency: "store_evolves m (residency_exec r m)"
proof -
  obtain x where e: "residency_exec r m = m\<lparr>residencies := x\<rparr>" using residency_exec_frame by blast
  have "rows_follow residency_evolves residencies m (residency_exec r m)"
    unfolding rows_follow_def using residency_exec_evolves by blast
  then show ?thesis unfolding store_evolves_def by (simp add: e rows_follow_same)
qed

lemma store_evolves_command: "store_evolves m (command_exec n m)"
proof -
  obtain x y where e: "command_exec n m = m\<lparr>nodeCommands := x, nodeCommandKeys := y\<rparr>" using command_exec_frame by blast
  have "rows_follow same_signed nodeCommands m (command_exec n m)"
    unfolding rows_follow_def using command_exec_evolves command_evolves_def by blast
  then show ?thesis unfolding store_evolves_def by (simp add: e rows_follow_same)
qed

lemma store_step_evolves: "store_step m m' \<Longrightarrow> store_inv m \<Longrightarrow> store_evolves m m'"
proof (induction rule: store_step.induct)
  case (step_checkpoint m m')
  obtain x y where "m' = m\<lparr>llmCheckpointOps := x, llmCheckpointKeys := y\<rparr>" using checkpoint_step_frame [OF step_checkpoint(1)] by blast
  then show ?case by (intro store_evolves_checkpoints checkpoint_step_evolve [OF step_checkpoint(1)]) simp_all
next
  case (step_displacement m m')
  show ?case by (rule store_evolves_frame) (subst displacement_step_frame [OF step_displacement(1)], simp)+
next
  case (step_lease m m')
  have "checkpoint_rows_evolve m m'" using lease_step_checkpoints(2) [OF step_lease(1)] step_lease(2) by (simp add: store_inv_def)
  then show ?case by (rule store_evolves_checkpoints) (subst lease_step_frame [OF step_lease(1)], simp)+
next
  case (step_create_workload m w)
  show ?case by (rule store_evolves_frame) (subst create_workload_frame, simp)+
next
  case (step_update_workload m v)
  show ?case by (rule store_evolves_frame) (subst update_workload_frame, simp)+
next
  case (step_swap_workload m v e s c)
  show ?case by (rule store_evolves_frame) (subst swap_workload_frame, simp)+
next
  case (step_budget m b)
  show ?case by (rule store_evolves_frame) (subst budget_exec_frame, simp)+
next
  case (step_transition m t)
  show ?case by (rule store_evolves_frame) (subst transition_exec_frame, simp)+
next
  case (step_registry m g)
  obtain x y z u where "registry_exec g m = m\<lparr>nodeEnrollments := x, runtimeProfiles := y, modelCapacities := z, interferenceProfiles := u\<rparr>"
    using registry_frame by blast
  then show ?case by (simp add: store_evolves_frame)
next
  case (step_job m j)
  show ?case by (rule store_evolves_frame) (simp_all add: UpsertJob_def)
next
  case (step_work_item m i)
  show ?case by (rule store_evolves_frame) (simp_all add: UpsertWorkItem_def Let_def)
qed (simp_all only: store_evolves_residency store_evolves_command)

lemma store_run:
  assumes "store_step\<^sup>*\<^sup>* m m'" and "store_inv m"
  shows "store_inv m' \<and> store_evolves m m'"
  using assms by (induction rule: rtranclp_induct) (auto intro: store_step_inv store_step_evolves store_evolves_trans)

end
