(* ===== verification/Warm_Keeper.thy ===== *)
theory Warm_Keeper
  imports Prelude "HOL-Library.Sublist"
begin

text \<open>
  The warm keeper of \<open>internal/warmkeeper\<close>: a node-local daemon that keeps recently used model
  files locked in memory. The state is the \<open>Keeper\<close> struct together with what it leaves in the
  process and on disk: the pins that are open and the state file. A tick reads the world once:
  the clock, the router's listing, the files' identities, the available memory and the outcome
  of each pin are its input, and so is the order in which \<open>range\<close> visits the pins.
\<close>

section \<open>Types\<close>

record file_id =
  fi_Path :: string
  fi_Size :: i64
  fi_Mtime :: i64
  fi_Inode :: u64

record router_model =
  rm_ID :: string
  rm_Loaded :: bool
  rm_Files :: "string list"

record keeper_config =
  kc_RouterURL :: string
  kc_BudgetBytes :: i64
  kc_FloorBytes :: i64
  kc_HeadroomBytes :: i64
  kc_Always :: "string list"
  kc_StatePath :: string
  kc_StatusPath :: string
  kc_PollEvery :: duration
  kc_TickEvery :: duration
  kc_Cooldown :: duration

record warm_model =
  wm_ID :: string
  wm_LastUsed :: time
  wm_files :: "file_id list"
  wm_bytes :: i64
  wm_present :: bool

text \<open>A \<open>Pin\<close> is the number of an open handle.\<close>

record pinned =
  pn_files :: "file_id list"
  pn_pins :: "nat list"
  pn_bytes :: i64
  pn_since :: time

datatype pin_error = ErrAborted | PinErr error

text \<open>What \<open>k.event\<close> formats, before formatting.\<close>

datatype release_reason = Memory_Pressure i64 i64 | Not_Warm | File_Changed | Shutdown

datatype keeper_event =
    Pin_Failed string pin_error
  | Pinned_Model string i64
  | Released string release_reason

record keeper =
  kp_models :: "(string, warm_model) gomap"
  kp_pins :: "(string, pinned) gomap"
  kp_cooldownUntil :: time
  kp_lastPoll :: time
  kp_lastEvent :: "keeper_event option"
  kp_dirty :: bool
  kp_open :: "nat list"
  kp_next :: nat
  kp_file :: "(string \<times> time) list option"

record tick_input =
  ti_now :: time
  ti_router :: "error + router_model list"
  ti_stat :: "string \<Rightarrow> error + file_id"
  ti_avail :: "error + i64"
  ti_pin :: "string \<Rightarrow> pin_error option"
  ti_later :: time
  ti_visit :: "string list"
  ti_write :: bool

section \<open>Configuration\<close>

definition New :: "keeper_config \<Rightarrow> keeper_config \<times> keeper" where
  "New cfg =
     (let cfg = (if kc_PollEvery cfg \<le> 0 then cfg\<lparr>kc_PollEvery := 2 * second\<rparr> else cfg);
          cfg = (if kc_TickEvery cfg \<le> 0 then cfg\<lparr>kc_TickEvery := second\<rparr> else cfg);
          cfg = (if kc_Cooldown cfg \<le> 0 then cfg\<lparr>kc_Cooldown := 120 * second\<rparr> else cfg)
      in (cfg, \<lparr>kp_models = [], kp_pins = [], kp_cooldownUntil = 0, kp_lastPoll = 0, kp_lastEvent = None,
                kp_dirty = False, kp_open = [], kp_next = 0, kp_file = None\<rparr>))"

definition size_units :: "(string \<times> int) list" where
  "size_units = [(''TiB'', 2 ^ 40), (''GiB'', 2 ^ 30), (''MiB'', 2 ^ 20), (''KiB'', 2 ^ 10),
     (''T'', 2 ^ 40), (''G'', 2 ^ 30), (''M'', 2 ^ 20), (''K'', 2 ^ 10)]"

definition has_suffix :: "string \<Rightarrow> string \<Rightarrow> bool" where
  "has_suffix s u \<longleftrightarrow> length u \<le> length s \<and> drop (length s - length u) s = u"

fun split_unit :: "(string \<times> int) list \<Rightarrow> string \<Rightarrow> string \<times> int" where
  "split_unit [] s = (s, 1)"
| "split_unit ((u, k) # us) s =
     (if has_suffix s u then (TrimSpace (take (length s - length u) s), k) else split_unit us s)"

text \<open>
  \<open>fmt.Sscanf(s, "%d", &n)\<close> followed by \<open>fmt.Sprint(n) != s\<close>: the call succeeds exactly on the
  decimal that prints as \<open>s\<close>.
\<close>

definition scan_decimal :: "string \<Rightarrow> int option" where
  "scan_decimal s =
     (let n = foldl (\<lambda>a c. 10 * a + digit_value c) 0 s
      in if show_int (int n) = s \<and> int n \<le> max_i64 then Some (int n) else None)"

definition ParseBytes :: "string \<Rightarrow> error + i64" where
  "ParseBytes text =
     (let (s, mult) = split_unit size_units (TrimSpace text)
      in case scan_decimal s of
           None \<Rightarrow> Inl (Err ''invalid byte size'')
         | Some n \<Rightarrow> if n > 2 ^ 62 div mult then Inl (Err ''byte size is too large'') else Inr (n * mult))"

fun split_comma :: "string \<Rightarrow> string \<Rightarrow> string list" where
  "split_comma w [] = [rev w]"
| "split_comma w (c # s) = (if c = CHR '','' then rev w # split_comma [] s else split_comma (c # w) s)"

definition keeper_flags :: "string \<Rightarrow> string \<Rightarrow> string \<Rightarrow> string \<Rightarrow> string \<Rightarrow> string \<Rightarrow> string \<Rightarrow> duration \<Rightarrow> duration \<Rightarrow>
    error + keeper_config" where
  "keeper_flags router budget available headroom always state status poll cooldown =
     (case (ParseBytes budget, ParseBytes available, ParseBytes headroom) of
        (Inl e, _, _) \<Rightarrow> Inl e
      | (Inr _, Inl e, _) \<Rightarrow> Inl e
      | (Inr _, Inr _, Inl e) \<Rightarrow> Inl e
      | (Inr b, Inr f, Inr h) \<Rightarrow>
      if b \<le> 0 then Inl (Err ''-budget must be positive'')
      else Inr \<lparr>kc_RouterURL = router, kc_BudgetBytes = b, kc_FloorBytes = f, kc_HeadroomBytes = h,
        kc_Always = filter (\<lambda>i. i \<noteq> '''') (map TrimSpace (split_comma [] always)),
        kc_StatePath = state, kc_StatusPath = status, kc_PollEvery = poll, kc_TickEvery = 0, kc_Cooldown = cooldown\<rparr>)"

section \<open>Observing the router\<close>

text \<open>The entries of the router's answer, after JSON decoding: id, status value and arguments.\<close>

fun model_args :: "string list \<Rightarrow> string list" where
  "model_args (a # b # r) = (if a \<in> {''--model'', ''-m'', ''--mmproj''} then b # model_args (b # r) else model_args (b # r))"
| "model_args _ = []"

definition fetchRouterModels :: "(string \<times> string \<times> string list) list \<Rightarrow> router_model list" where
  "fetchRouterModels entries =
     map (\<lambda>(i, s, args). \<lparr>rm_ID = i, rm_Loaded = (s = ''loaded'' \<or> s = ''loading''), rm_Files = model_args args\<rparr>) entries"

fun stat_files :: "(string \<Rightarrow> error + file_id) \<Rightarrow> string list \<Rightarrow> file_id list \<Rightarrow> i64 \<Rightarrow> file_id list \<times> i64" where
  "stat_files st [] files tot = (files, tot)"
| "stat_files st (p # ps) files tot =
     (case st p of Inl _ \<Rightarrow> ([], tot) | Inr i \<Rightarrow> stat_files st ps (files @ [i]) (wrap_i64 (tot + fi_Size i)))"

definition observe_model :: "tick_input \<Rightarrow> router_model \<Rightarrow> keeper \<Rightarrow> keeper" where
  "observe_model inp rm k =
     (let m = (case map_of (kp_models k) (rm_ID rm) of
                 None \<Rightarrow> \<lparr>wm_ID = rm_ID rm, wm_LastUsed = 0, wm_files = [], wm_bytes = 0, wm_present = False\<rparr>
               | Some m \<Rightarrow> m);
          (files, tot) = stat_files (ti_stat inp) (rm_Files rm) [] 0;
          present = (files \<noteq> []);
          m = m\<lparr>wm_files := files, wm_bytes := tot, wm_present := present\<rparr>
      in if rm_Loaded rm \<and> present
         then k\<lparr>kp_models := mput (rm_ID rm) (m\<lparr>wm_LastUsed := ti_now inp\<rparr>) (kp_models k),
                kp_dirty := kp_dirty k \<or> ti_now inp - wm_LastUsed m \<ge> second\<rparr>
         else k\<lparr>kp_models := mput (rm_ID rm) m (kp_models k)\<rparr>)"

definition saveState :: "keeper_config \<Rightarrow> tick_input \<Rightarrow> keeper \<Rightarrow> keeper" where
  "saveState cfg inp k =
     (let k = k\<lparr>kp_dirty := False\<rparr>
      in if kc_StatePath cfg = '''' \<or> \<not> ti_write inp then k
         else k\<lparr>kp_file := Some (sort_key fst (map (\<lambda>m. (wm_ID m, wm_LastUsed m))
                (filter (\<lambda>m. wm_LastUsed m \<noteq> 0) (mvalues (kp_models k)))))\<rparr>)"

text \<open>\<open>content\<close> is the decoded state file, \<open>None\<close> when it cannot be read or decoded.\<close>

definition loadState :: "keeper_config \<Rightarrow> (string \<times> time) list option \<Rightarrow> keeper \<Rightarrow> keeper" where
  "loadState cfg content k =
     (if kc_StatePath cfg = '''' then k
      else case content of
             None \<Rightarrow> k
           | Some ms \<Rightarrow> k\<lparr>kp_models := fold (\<lambda>(i, t) models. if i \<noteq> ''''
               then mput i \<lparr>wm_ID = i, wm_LastUsed = t, wm_files = [], wm_bytes = 0, wm_present = False\<rparr> models
               else models) ms (kp_models k)\<rparr>)"

definition observe :: "keeper_config \<Rightarrow> tick_input \<Rightarrow> keeper \<Rightarrow> keeper" where
  "observe cfg inp k =
     (case ti_router inp of
        Inl _ \<Rightarrow> k
      | Inr list \<Rightarrow>
          let k = fold (observe_model inp) list k;
              seen = map rm_ID list;
              k = k\<lparr>kp_models := map (\<lambda>(i, m). (i, if i \<in> set seen then m else m\<lparr>wm_present := False\<rparr>)) (kp_models k)\<rparr>
          in if kp_dirty k then saveState cfg inp k else k)"

section \<open>The warm set\<close>

definition always_rank :: "string list \<Rightarrow> (string, nat) gomap" where
  "always_rank ids = fold (\<lambda>(i, d) r. mput d (i + 1) r) (enumerate 0 ids) []"

definition warm_before :: "(string, nat) gomap \<Rightarrow> warm_model \<Rightarrow> warm_model \<Rightarrow> bool" where
  "warm_before rank a b =
     (let ri = mget_zero 0 rank (wm_ID a); rj = mget_zero 0 rank (wm_ID b)
      in if (ri > 0) \<noteq> (rj > 0) then ri > 0
         else if ri \<noteq> rj then ri < rj
         else if wm_LastUsed a \<noteq> wm_LastUsed b then wm_LastUsed a > wm_LastUsed b
         else wm_ID a < wm_ID b)"

text \<open>\<open>sort.Slice\<close> with a comparison that orders any two different elements.\<close>

fun insert_by :: "('a \<Rightarrow> 'a \<Rightarrow> bool) \<Rightarrow> 'a \<Rightarrow> 'a list \<Rightarrow> 'a list" where
  "insert_by lt x [] = [x]"
| "insert_by lt x (y # ys) = (if lt y x then y # insert_by lt x ys else x # y # ys)"

definition sort_by :: "('a \<Rightarrow> 'a \<Rightarrow> bool) \<Rightarrow> 'a list \<Rightarrow> 'a list" where
  "sort_by lt xs = foldr (insert_by lt) xs []"

fun fit_budget :: "i64 \<Rightarrow> i64 \<Rightarrow> warm_model list \<Rightarrow> string list" where
  "fit_budget budget used [] = []"
| "fit_budget budget used (m # ms) =
     (if wrap_i64 (used + wm_bytes m) > budget then fit_budget budget used ms
      else wm_ID m # fit_budget budget (wrap_i64 (used + wm_bytes m)) ms)"

definition warm_candidates :: "keeper_config \<Rightarrow> keeper \<Rightarrow> warm_model list" where
  "warm_candidates cfg k =
     (let rank = always_rank (kc_Always cfg)
      in sort_by (warm_before rank)
           (filter (\<lambda>m. wm_present m \<and> wm_bytes m > 0 \<and> (mget_zero 0 rank (wm_ID m) > 0 \<or> wm_LastUsed m \<noteq> 0))
              (mvalues (kp_models k))))"

definition warm_desired :: "keeper_config \<Rightarrow> keeper \<Rightarrow> string list" where
  "warm_desired cfg k = fit_budget (kc_BudgetBytes cfg) 0 (warm_candidates cfg k)"

text \<open>
  \<open>range\<close> over a map: any input list fixes an order in which every key is visited once, and
  every order is the result of some input.
\<close>

definition range_order :: "string list \<Rightarrow> (string, 'v) gomap \<Rightarrow> string list" where
  "range_order hint m = remdups (filter (\<lambda>i. i \<in> fst ` set m) hint @ map fst m)"

definition position_map :: "string list \<Rightarrow> (string, int) gomap" where
  "position_map ids = fold (\<lambda>(i, d) pos. mput d (int i) pos) (enumerate 0 ids) []"

fun worst_pin :: "(string, int) gomap \<Rightarrow> string list \<Rightarrow> string \<Rightarrow> int \<Rightarrow> string" where
  "worst_pin pos [] victim worst = victim"
| "worst_pin pos (i # is) victim worst =
     (case map_of pos i of
        None \<Rightarrow> i
      | Some p \<Rightarrow> if p > worst then worst_pin pos is i p else worst_pin pos is victim worst)"

definition lowestPriorityPin :: "keeper_config \<Rightarrow> string list \<Rightarrow> keeper \<Rightarrow> string" where
  "lowestPriorityPin cfg hint k =
     worst_pin (position_map (warm_desired cfg k)) (range_order hint (kp_pins k)) '''' (-1)"

section \<open>Pins\<close>

text \<open>The files pinned so far, the next handle, and the error that stopped the loop.\<close>

fun pin_files :: "(string \<Rightarrow> pin_error option) \<Rightarrow> file_id list \<Rightarrow> nat list \<Rightarrow> nat \<Rightarrow> nat list \<times> nat \<times> pin_error option" where
  "pin_files pin [] done nxt = (done, nxt, None)"
| "pin_files pin (f # fs) done nxt =
     (case pin (fi_Path f) of
        Some e \<Rightarrow> (done, nxt, Some e)
      | None \<Rightarrow> pin_files pin fs (done @ [nxt]) (nxt + 1))"

definition close_pins :: "nat list \<Rightarrow> keeper \<Rightarrow> keeper" where
  "close_pins hs k = k\<lparr>kp_open := filter (\<lambda>h. h \<notin> set hs) (kp_open k)\<rparr>"

definition pinModel :: "keeper_config \<Rightarrow> tick_input \<Rightarrow> warm_model \<Rightarrow> keeper \<Rightarrow> keeper" where
  "pinModel cfg inp m k =
     (case pin_files (ti_pin inp) (wm_files m) [] (kp_next k) of
        (handles, nxt, err) \<Rightarrow>
          let k = k\<lparr>kp_open := kp_open k @ handles, kp_next := nxt\<rparr>
          in (case err of
               Some e \<Rightarrow>
                 let k = close_pins handles k;
                     k = (if e = ErrAborted then k\<lparr>kp_cooldownUntil := ti_later inp + kc_Cooldown cfg\<rparr> else k)
                 in k\<lparr>kp_lastEvent := Some (Pin_Failed (wm_ID m) e)\<rparr>
             | None \<Rightarrow>
                 k\<lparr>kp_pins := mput (wm_ID m) \<lparr>pn_files = wm_files m, pn_pins = handles, pn_bytes = wm_bytes m, pn_since = ti_now inp\<rparr>
                     (kp_pins k),
                   kp_lastEvent := Some (Pinned_Model (wm_ID m) (wm_bytes m))\<rparr>))"

definition release :: "release_reason \<Rightarrow> string \<Rightarrow> keeper \<Rightarrow> keeper" where
  "release reason i k =
     (case map_of (kp_pins k) i of
        None \<Rightarrow> k
      | Some p \<Rightarrow>
          let k = close_pins (pn_pins p) k
          in k\<lparr>kp_pins := mdel i (kp_pins k), kp_lastEvent := Some (Released i reason)\<rparr>)"

definition releaseAll :: "string list \<Rightarrow> keeper \<Rightarrow> keeper" where
  "releaseAll hint k = fold (release Shutdown) (range_order hint (kp_pins k)) k"

definition sameFiles :: "file_id list \<Rightarrow> file_id list \<Rightarrow> bool" where
  "sameFiles a b \<longleftrightarrow> length a = length b \<and> list_all2 (=) a b"

section \<open>A tick\<close>

definition prune_pin :: "string list \<Rightarrow> string \<Rightarrow> keeper \<Rightarrow> keeper" where
  "prune_pin want i k =
     (case map_of (kp_pins k) i of
        None \<Rightarrow> k
      | Some p \<Rightarrow>
          if i \<notin> set want then release Not_Warm i k
          else (case map_of (kp_models k) i of
                 None \<Rightarrow> k
               | Some m \<Rightarrow> if \<not> sameFiles (pn_files p) (wm_files m) then release File_Changed i k else k))"

fun pin_next :: "keeper_config \<Rightarrow> tick_input \<Rightarrow> i64 \<Rightarrow> string list \<Rightarrow> keeper \<Rightarrow> keeper" where
  "pin_next cfg inp avail [] k = k"
| "pin_next cfg inp avail (i # is) k =
     (if map_of (kp_pins k) i \<noteq> None then pin_next cfg inp avail is k
      else case map_of (kp_models k) i of
             None \<Rightarrow> k
           | Some m \<Rightarrow>
               if wrap_i64 (avail - wm_bytes m) < wrap_i64 (kc_FloorBytes cfg + kc_HeadroomBytes cfg) then k
               else pinModel cfg inp m k)"

definition reconcile :: "keeper_config \<Rightarrow> tick_input \<Rightarrow> keeper \<Rightarrow> keeper" where
  "reconcile cfg inp k =
     (case ti_avail inp of
        Inl _ \<Rightarrow> k
      | Inr avail \<Rightarrow>
          if avail < kc_FloorBytes cfg
          then (let victim = lowestPriorityPin cfg (ti_visit inp) k
                in if victim \<noteq> ''''
                   then (release (Memory_Pressure avail (kc_FloorBytes cfg)) victim k)\<lparr>kp_cooldownUntil := ti_now inp + kc_Cooldown cfg\<rparr>
                   else k)
          else (let want = warm_desired cfg k;
                    k = fold (prune_pin want) (range_order (ti_visit inp) (kp_pins k)) k
                in if ti_now inp < kp_cooldownUntil k then k
                   else pin_next cfg inp avail want k))"

definition Tick :: "keeper_config \<Rightarrow> tick_input \<Rightarrow> keeper \<Rightarrow> keeper" where
  "Tick cfg inp k =
     (let k = (if kp_lastPoll k = 0 \<or> ti_now inp - kp_lastPoll k \<ge> kc_PollEvery cfg
               then observe cfg inp (k\<lparr>kp_lastPoll := ti_now inp\<rparr>) else k)
      in reconcile cfg inp k)"

text \<open>\<open>Run\<close> restores the state, ticks until its context ends and releases every pin.\<close>

definition Run :: "keeper_config \<Rightarrow> (string \<times> time) list option \<Rightarrow> tick_input list \<Rightarrow> string list \<Rightarrow> keeper \<Rightarrow> keeper" where
  "Run cfg content inputs hint k = releaseAll hint (fold (Tick cfg) inputs (loadState cfg content k))"

text \<open>\<open>Status\<close> reports every model that is present or pinned; \<open>k.now()\<close> is read once here.\<close>

record model_status =
  ms_ID :: string
  ms_Bytes :: i64
  ms_Pinned :: bool
  ms_Desired :: bool
  ms_LastUsed :: "time option"

record keeper_status =
  ks_Updated :: time
  ks_BudgetBytes :: i64
  ks_PinnedBytes :: i64
  ks_FloorBytes :: i64
  ks_MemAvailable :: i64
  ks_CooldownUntil :: "time option"
  ks_LastEvent :: "keeper_event option"
  ks_Models :: "model_status list"

definition Status :: "keeper_config \<Rightarrow> time \<Rightarrow> error + i64 \<Rightarrow> keeper \<Rightarrow> keeper_status" where
  "Status cfg now avail k =
     (let want = warm_desired cfg k;
          shown = filter (\<lambda>m. wm_present m \<or> map_of (kp_pins k) (wm_ID m) \<noteq> None) (mvalues (kp_models k))
      in \<lparr>ks_Updated = now, ks_BudgetBytes = kc_BudgetBytes cfg,
          ks_PinnedBytes = foldl (\<lambda>t m. case map_of (kp_pins k) (wm_ID m) of None \<Rightarrow> t | Some p \<Rightarrow> wrap_i64 (t + pn_bytes p)) 0 shown,
          ks_FloorBytes = kc_FloorBytes cfg,
          ks_MemAvailable = (case avail of Inl _ \<Rightarrow> 0 | Inr a \<Rightarrow> a),
          ks_CooldownUntil = (if now < kp_cooldownUntil k then Some (kp_cooldownUntil k) else None),
          ks_LastEvent = kp_lastEvent k,
          ks_Models = sort_key ms_ID (map (\<lambda>m. \<lparr>ms_ID = wm_ID m, ms_Bytes = wm_bytes m,
            ms_Pinned = (map_of (kp_pins k) (wm_ID m) \<noteq> None), ms_Desired = (wm_ID m \<in> set want),
            ms_LastUsed = (if wm_LastUsed m = 0 then None else Some (wm_LastUsed m))\<rparr>) shown)\<rparr>)"

section \<open>Locking a file\<close>

text \<open>
  \<open>PinFile\<close> maps a file and locks it chunk by chunk. The answers of the kernel and of the
  \<open>abort\<close> callback are its input; its result comes with the system calls that took effect.
\<close>

datatype syscall = Sys_Open int | Sys_Close int | Sys_Mmap nat | Sys_Munmap | Sys_Mlock nat nat

record pin_kernel =
  pk_open :: "error + int"
  pk_fstat :: "error + i64"
  pk_mmap :: "error option"
  pk_mlock :: "nat \<Rightarrow> nat \<Rightarrow> error option"
  pk_abort :: "nat \<Rightarrow> bool"

definition pinChunk :: nat where
  "pinChunk = 256 * 2 ^ 20"

lemma pinChunk_pos [simp]: "0 < pinChunk"
  by (simp add: pinChunk_def)

function pin_chunks :: "pin_kernel \<Rightarrow> nat \<Rightarrow> nat \<Rightarrow> nat \<Rightarrow> pin_error option \<times> syscall list" where
  "pin_chunks os len n off =
     (if off \<ge> len then (None, [])
      else if pk_abort os n then (Some ErrAborted, [])
      else let e = (if off + pinChunk > len then len else off + pinChunk)
           in case pk_mlock os off e of
                Some err \<Rightarrow> (Some (PinErr err), [])
              | None \<Rightarrow> (case pin_chunks os len (n + 1) (off + pinChunk) of (r, t) \<Rightarrow> (r, Sys_Mlock off e # t)))"
  by pat_completeness auto
termination by (relation "measure (\<lambda>(os, len, n, off). len - off)") (simp_all add: diff_less_mono2)

declare pin_chunks.simps [simp del]

definition PinFile :: "pin_kernel \<Rightarrow> (pin_error + int) \<times> syscall list" where
  "PinFile os =
     (case pk_open os of
        Inl e \<Rightarrow> (Inl (PinErr e), [])
      | Inr fd \<Rightarrow>
          (case pk_fstat os of
             Inl e \<Rightarrow> (Inl (PinErr e), [Sys_Open fd, Sys_Close fd])
           | Inr sz \<Rightarrow>
               if sz \<le> 0 then (Inl (PinErr (Err ''is empty'')), [Sys_Open fd, Sys_Close fd])
               else (case pk_mmap os of
                  Some e \<Rightarrow> (Inl (PinErr e), [Sys_Open fd, Sys_Close fd])
                | None \<Rightarrow>
                    (case pin_chunks os (nat sz) 0 0 of
                       (Some e, t) \<Rightarrow> (Inl e, [Sys_Open fd, Sys_Mmap (nat sz)] @ t @ [Sys_Munmap, Sys_Close fd])
                     | (None, t) \<Rightarrow> (Inr fd, [Sys_Open fd, Sys_Mmap (nat sz)] @ t)))))"

section \<open>Sorting and the budget\<close>

lemma mset_insert_by [simp]: "mset (insert_by lt x ys) = add_mset x (mset ys)"
  by (induction ys) auto

lemma mset_sort_by [simp]: "mset (sort_by lt xs) = mset xs"
  by (induction xs) (simp_all add: sort_by_def)

lemma set_sort_by [simp]: "set (sort_by lt xs) = set xs"
  using mset_sort_by by (rule mset_eq_setD)

lemma sorted_insert_by:
  assumes "\<And>a b c. lt a b \<Longrightarrow> lt b c \<Longrightarrow> lt a c" and "\<And>a. a \<in> set ys \<Longrightarrow> lt a x \<or> lt x a"
    and "sorted_wrt lt ys"
  shows "sorted_wrt lt (insert_by lt x ys)"
  using assms(2,3)
proof (induction ys)
  case (Cons y ys)
  have s: "set (insert_by lt x ys) = insert x (set ys)" using mset_insert_by by (metis set_mset_add_mset_insert set_mset_mset)
  show ?case
  proof (cases "lt y x")
    case True
    then show ?thesis using Cons s by auto
  next
    case False
    then have "lt x y" using Cons.prems(1) by auto
    then show ?thesis using False Cons.prems(2) assms(1) by auto
  qed
qed simp

lemma warm_before_trans: "warm_before rank a b \<Longrightarrow> warm_before rank b c \<Longrightarrow> warm_before rank a c"
  unfolding warm_before_def Let_def by (auto split: if_splits)

lemma warm_before_total:
  assumes ne: "wm_ID a \<noteq> wm_ID b" shows "warm_before rank a b \<or> warm_before rank b a"
proof -
  let ?r = "mget_zero 0 rank"
  consider "?r (wm_ID a) < ?r (wm_ID b)" | "?r (wm_ID b) < ?r (wm_ID a)" | "?r (wm_ID a) = ?r (wm_ID b)" by (rule linorder_cases)
  then show ?thesis
  proof cases
    case 3
    have "wm_ID a < wm_ID b \<or> wm_ID b < wm_ID a" using ne by (metis linorder_neqE)
    moreover have "wm_LastUsed a > wm_LastUsed b \<or> wm_LastUsed b > wm_LastUsed a \<or> wm_LastUsed a = wm_LastUsed b" by arith
    ultimately show ?thesis unfolding warm_before_def Let_def 3 by (elim disjE) simp_all
  qed (cases "?r (wm_ID a) > 0"; cases "?r (wm_ID b) > 0"; simp add: warm_before_def Let_def)+
qed

lemma sorted_sort_by:
  assumes "distinct (map wm_ID ms)" shows "sorted_wrt (warm_before rank) (sort_by (warm_before rank) ms)"
  using assms
proof (induction ms)
  case (Cons m ms)
  have "warm_before rank a m \<or> warm_before rank m a" if "a \<in> set (sort_by (warm_before rank) ms)" for a
    using that Cons.prems warm_before_total by (metis distinct.simps(2) image_eqI list.set_map list.simps(9) set_sort_by)
  from sorted_insert_by [where lt = "warm_before rank", OF warm_before_trans this] show ?case using Cons by (simp add: sort_by_def)
qed (simp add: sort_by_def)

text \<open>What the models in the table satisfy: their size is that of their files.\<close>

definition files_bytes :: "file_id list \<Rightarrow> i64" where
  "files_bytes fs = foldl (\<lambda>t f. wrap_i64 (t + fi_Size f)) 0 fs"

definition model_ok :: "string \<Rightarrow> warm_model \<Rightarrow> bool" where
  "model_ok i m \<longleftrightarrow> wm_ID m = i \<and> (wm_present m \<longrightarrow> files_bytes (wm_files m) = wm_bytes m \<and> wm_bytes m < 2 ^ 62)"

definition models_ok :: "keeper \<Rightarrow> bool" where
  "models_ok k \<longleftrightarrow> gomap_wf (kp_models k) \<and> (\<forall>i m. map_of (kp_models k) i = Some m \<longrightarrow> model_ok i m)"

text \<open>A router listing whose models are smaller than 4 EiB, as \<open>ParseBytes\<close> requires of the budget.\<close>

definition small_listing :: "tick_input \<Rightarrow> bool" where
  "small_listing inp = (case ti_router inp of Inl _ \<Rightarrow> True
     | Inr ms \<Rightarrow> list_all (\<lambda>rm. snd (stat_files (ti_stat inp) (rm_Files rm) [] 0) < 2 ^ 62) ms)"

lemma stat_files_bytes:
  "stat_files st ps fs t = (gs, u) \<Longrightarrow> gs \<noteq> [] \<Longrightarrow> t = files_bytes fs \<Longrightarrow> u = files_bytes gs"
proof (induction st ps fs t rule: stat_files.induct)
  case (2 st p ps fs t)
  then show ?case by (cases "st p") (auto simp: files_bytes_def)
qed auto

lemma model_ids:
  assumes "models_ok k" shows "map wm_ID (mvalues (kp_models k)) = map fst (kp_models k)"
  using assms unfolding models_ok_def mvalues_def model_ok_def gomap_wf_def by (fastforce intro: map_of_is_SomeI)

lemma candidates_ok:
  assumes "models_ok k"
  shows "distinct (map wm_ID (warm_candidates cfg k))"
    and "m \<in> set (warm_candidates cfg k) \<Longrightarrow> map_of (kp_models k) (wm_ID m) = Some m \<and> 0 < wm_bytes m \<and> wm_bytes m < 2 ^ 62 \<and>
      files_bytes (wm_files m) = wm_bytes m"
proof -
  have d: "distinct (map wm_ID (mvalues (kp_models k)))" using assms by (simp add: model_ids models_ok_def gomap_wf_def)
  have "distinct (map wm_ID (sort_by lt xs)) = distinct (map wm_ID xs)" for lt :: "warm_model \<Rightarrow> warm_model \<Rightarrow> bool" and xs
    by (metis mset_eq_imp_distinct_iff mset_map mset_sort_by)
  then show "distinct (map wm_ID (warm_candidates cfg k))" using d by (simp add: warm_candidates_def Let_def distinct_map_filter)
  assume m: "m \<in> set (warm_candidates cfg k)"
  then have p: "m \<in> set (mvalues (kp_models k))" "wm_present m" "0 < wm_bytes m" by (auto simp: warm_candidates_def Let_def)
  then obtain i where i: "map_of (kp_models k) i = Some m" using assms unfolding models_ok_def by (metis mvalues_iff)
  then have "model_ok i m" using assms unfolding models_ok_def by blast
  then show "map_of (kp_models k) (wm_ID m) = Some m \<and> 0 < wm_bytes m \<and> wm_bytes m < 2 ^ 62 \<and> files_bytes (wm_files m) = wm_bytes m"
    using p i unfolding model_ok_def by blast
qed

lemma fit_budget_subseq: "subseq (fit_budget b u ms) (map wm_ID ms)"
  by (induction b u ms rule: fit_budget.induct) auto

lemma fit_budget_sum:
  assumes "\<And>m. m \<in> set ms \<Longrightarrow> 0 < wm_bytes m \<and> wm_bytes m < 2 ^ 62 \<and> f (wm_ID m) = wm_bytes m"
    and "0 \<le> u" "u \<le> b" "b \<le> 2 ^ 62"
  shows "u + sum_list (map f (fit_budget b u ms)) \<le> b"
  using assms
proof (induction b u ms rule: fit_budget.induct)
  case (2 b u m ms)
  have w: "wrap_i64 (u + wm_bytes m) = u + wm_bytes m"
    using 2(3) [of m] 2(4-6) by (intro wrap_i64_id) (simp add: in_i64_def max_i64_def)
  show ?case
  proof (cases "wrap_i64 (u + wm_bytes m) > b")
    case True
    then show ?thesis using 2 by simp
  next
    case False
    have m: "0 < wm_bytes m" "f (wm_ID m) = wm_bytes m" using 2(3) [of m] by simp_all
    have "wrap_i64 (u + wm_bytes m) + sum_list (map f (fit_budget b (wrap_i64 (u + wm_bytes m)) ms)) \<le> b"
    proof (rule 2(2) [OF False])
      show "0 < wm_bytes m' \<and> wm_bytes m' < 2 ^ 62 \<and> f (wm_ID m') = wm_bytes m'" if "m' \<in> set ms" for m'
        using 2(3) [of m'] that by simp
      show "0 \<le> wrap_i64 (u + wm_bytes m)" using w m(1) 2(4) by simp
    qed (use False 2(6) in simp_all)
    then show ?thesis using False m(2) w by simp
  qed
qed simp

lemma desired_facts:
  assumes ok: "models_ok k"
  shows "distinct (warm_desired cfg k)"
    and "i \<in> set (warm_desired cfg k) \<Longrightarrow> \<exists>m. map_of (kp_models k) i = Some m \<and> wm_ID m = i \<and> 0 < wm_bytes m \<and> wm_bytes m < 2 ^ 62 \<and>
      files_bytes (wm_files m) = wm_bytes m"
proof -
  have s: "subseq (warm_desired cfg k) (map wm_ID (warm_candidates cfg k))" unfolding warm_desired_def by (rule fit_budget_subseq)
  then obtain N where n: "warm_desired cfg k = nths (map wm_ID (warm_candidates cfg k)) N" by (auto simp: subseq_conv_nths)
  show "distinct (warm_desired cfg k)" unfolding n using candidates_ok(1) [OF ok] by (rule distinct_nthsI)
  assume "i \<in> set (warm_desired cfg k)"
  then have "i \<in> set (map wm_ID (warm_candidates cfg k))" unfolding n by (rule in_set_nthsD)
  then show "\<exists>m. map_of (kp_models k) i = Some m \<and> wm_ID m = i \<and> 0 < wm_bytes m \<and> wm_bytes m < 2 ^ 62 \<and> files_bytes (wm_files m) = wm_bytes m"
    using candidates_ok(2) [OF ok] by auto
qed

definition model_bytes :: "keeper \<Rightarrow> string \<Rightarrow> i64" where
  "model_bytes k i = (case map_of (kp_models k) i of None \<Rightarrow> 0 | Some m \<Rightarrow> wm_bytes m)"

lemma desired_fits:
  assumes "models_ok k" and "0 \<le> kc_BudgetBytes cfg" "kc_BudgetBytes cfg \<le> 2 ^ 62"
  shows "sum_list (map (model_bytes k) (warm_desired cfg k)) \<le> kc_BudgetBytes cfg"
proof -
  have "0 < wm_bytes m \<and> wm_bytes m < 2 ^ 62 \<and> model_bytes k (wm_ID m) = wm_bytes m" if "m \<in> set (warm_candidates cfg k)" for m
    using candidates_ok(2) [OF assms(1) that] unfolding model_bytes_def by (metis option.simps(5))
  from fit_budget_sum [OF this _ assms(2,3)] show ?thesis by (simp add: warm_desired_def)
qed

section \<open>The invariant\<close>

text \<open>
  Every open pin belongs to exactly one pinned model, and the pinned models fit the budget.
\<close>

definition handles :: "keeper \<Rightarrow> nat list" where
  "handles k = concat (map pn_pins (mvalues (kp_pins k)))"

definition handles_ok :: "keeper \<Rightarrow> bool" where
  "handles_ok k \<longleftrightarrow> distinct (kp_open k) \<and> mset (kp_open k) = mset (handles k) \<and> (\<forall>h\<in>set (kp_open k). h < kp_next k)"

definition pinned_total :: "(string, pinned) gomap \<Rightarrow> int" where
  "pinned_total ps = sum_list (map pn_bytes (mvalues ps))"

definition pins_ok :: "keeper_config \<Rightarrow> keeper \<Rightarrow> bool" where
  "pins_ok cfg k \<longleftrightarrow> gomap_wf (kp_pins k) \<and> pinned_total (kp_pins k) \<le> kc_BudgetBytes cfg \<and>
     (\<forall>i p. map_of (kp_pins k) i = Some p \<longrightarrow> 0 < pn_bytes p \<and> files_bytes (pn_files p) = pn_bytes p)"

definition keeper_inv :: "keeper_config \<Rightarrow> keeper \<Rightarrow> bool" where
  "keeper_inv cfg k \<longleftrightarrow> models_ok k \<and> pins_ok cfg k \<and> handles_ok k"

subsection \<open>Observation\<close>

definition same_pins :: "keeper \<Rightarrow> keeper \<Rightarrow> bool" where
  "same_pins k k' \<longleftrightarrow> kp_pins k' = kp_pins k \<and> kp_open k' = kp_open k \<and> kp_next k' = kp_next k \<and> kp_cooldownUntil k' = kp_cooldownUntil k"

lemma same_pins_inv: "same_pins k k' \<Longrightarrow> pins_ok cfg k' = pins_ok cfg k \<and> handles_ok k' = handles_ok k"
  by (simp add: same_pins_def pins_ok_def handles_ok_def handles_def)

lemma save_frame [simp]: "kp_models (saveState cfg inp k) = kp_models k" "same_pins k (saveState cfg inp k')= same_pins k k'"
  by (simp_all add: saveState_def same_pins_def Let_def)

lemma observe_model_pins: "same_pins k (observe_model inp rm k)"
  by (simp add: observe_model_def same_pins_def Let_def split: prod.splits)

lemma observe_models_pins: "same_pins k (fold (observe_model inp) rms k)"
proof (induction rms arbitrary: k)
  case (Cons rm rms)
  show ?case using Cons [of "observe_model inp rm k"] observe_model_pins [of k inp rm] by (simp add: same_pins_def)
qed (simp add: same_pins_def)

lemma observe_pins: "same_pins k (observe cfg inp k)"
proof (cases "ti_router inp")
  case (Inl e)
  then show ?thesis by (simp add: observe_def same_pins_def)
next
  case (Inr rms)
  then show ?thesis using observe_models_pins [of k inp rms] by (simp add: observe_def Let_def) (simp add: same_pins_def)
qed

lemma models_ok_put: "models_ok k \<Longrightarrow> model_ok i m \<Longrightarrow> kp_models k' = mput i m (kp_models k) \<Longrightarrow> models_ok k'"
  by (simp add: models_ok_def)

lemma observe_model_ok:
  assumes ok: "models_ok k" and small: "snd (stat_files (ti_stat inp) (rm_Files rm) [] 0) < 2 ^ 62"
  shows "models_ok (observe_model inp rm k)"
proof -
  obtain fs t where st: "stat_files (ti_stat inp) (rm_Files rm) [] 0 = (fs, t)" by fastforce
  have t: "fs \<noteq> [] \<Longrightarrow> t = files_bytes fs" using stat_files_bytes [OF st] by (simp add: files_bytes_def)
  obtain m where m: "wm_ID m = rm_ID rm" and o: "kp_models (observe_model inp rm k) = mput (rm_ID rm) (m\<lparr>wm_files := fs, wm_bytes := t, wm_present := (fs \<noteq> [])\<rparr>) (kp_models k)"
  proof (cases "map_of (kp_models k) (rm_ID rm)")
    case None
    show ?thesis
      by (rule that [of "\<lparr>wm_ID = rm_ID rm, wm_LastUsed = if rm_Loaded rm \<and> fs \<noteq> [] then ti_now inp else 0, wm_files = [], wm_bytes = 0, wm_present = False\<rparr>"])
        (simp_all add: observe_model_def Let_def st None)
  next
    case (Some m)
    then have "wm_ID m = rm_ID rm" using ok by (auto simp: models_ok_def model_ok_def)
    then show ?thesis
      by (intro that [of "if rm_Loaded rm \<and> fs \<noteq> [] then m\<lparr>wm_LastUsed := ti_now inp\<rparr> else m"]) (cases m; simp add: observe_model_def Let_def st Some)+
  qed
  have "model_ok (rm_ID rm) (m\<lparr>wm_files := fs, wm_bytes := t, wm_present := (fs \<noteq> [])\<rparr>)" 
    using m t small st unfolding model_ok_def by (cases "fs = []") (simp, fastforce)
  from models_ok_put [OF ok this o] show ?thesis .
qed

lemma observe_models_ok:
  "models_ok k \<Longrightarrow> list_all (\<lambda>rm. snd (stat_files (ti_stat inp) (rm_Files rm) [] 0) < 2 ^ 62) rms \<Longrightarrow> models_ok (fold (observe_model inp) rms k)"
  by (induction rms arbitrary: k) (simp_all add: observe_model_ok)

lemma map_of_map_pairs: "map_of (map (\<lambda>(i, m). (i, f i m)) ms) i = map_option (f i) (map_of ms i)"
  by (induction ms) auto

lemma models_ok_map:
  assumes ok: "models_ok k" and e: "kp_models k' = map (\<lambda>(i, m). (i, f i m)) (kp_models k)"
    and f: "\<And>i m. model_ok i m \<Longrightarrow> model_ok i (f i m)"
  shows "models_ok k'"
proof -
  have "map fst (kp_models k') = map fst (kp_models k)" unfolding e by (simp add: case_prod_beta)
  then have "gomap_wf (kp_models k')" using ok by (simp add: models_ok_def gomap_wf_def)
  moreover have "model_ok i m'" if "map_of (kp_models k') i = Some m'" for i m'
    using that ok f unfolding e map_of_map_pairs models_ok_def by blast
  ultimately show ?thesis unfolding models_ok_def by blast
qed

lemma observe_ok:
  assumes "models_ok k" and "small_listing inp" shows "models_ok (observe cfg inp k)"
proof (cases "ti_router inp")
  case (Inl e)
  then show ?thesis using assms by (simp add: observe_def)
next
  case (Inr rms)
  let ?k = "fold (observe_model inp) rms k"
  let ?f = "\<lambda>i m. if i \<in> set (map rm_ID rms) then m else m\<lparr>wm_present := False\<rparr>"
  have ok: "models_ok ?k" using observe_models_ok [OF assms(1)] assms(2) Inr by (simp add: small_listing_def)
  have "kp_models (observe cfg inp k) = map (\<lambda>(i, m). (i, ?f i m)) (kp_models ?k)" using Inr by (simp add: observe_def Let_def)
  moreover have "model_ok i (?f i m)" if "model_ok i m" for i m using that by (cases "wm_present m") (auto simp: model_ok_def)
  ultimately show ?thesis by (rule models_ok_map [OF ok])
qed

subsection \<open>Releasing pins\<close>

lemma set_range_order: "set (range_order hint m) = fst ` set m"
  by (auto simp: range_order_def)

lemma mdel_split:
  assumes "gomap_wf ps" and "map_of ps i = Some p"
  obtains xs ys where "ps = xs @ (i, p) # ys" "mdel i ps = xs @ ys"
proof -
  obtain xs ys where s: "ps = xs @ (i, p) # ys" using assms(2) by (meson map_of_SomeD split_list)
  then have i: "i \<notin> fst ` set xs" "i \<notin> fst ` set ys" using assms(1) by (auto simp: gomap_wf_def)
  have "mdel i ps = mdel i xs @ mdel i ys" unfolding s by (simp add: AList.delete_eq)
  then have "mdel i ps = xs @ ys" using i by simp
  with s that show thesis by blast
qed

lemma release_frame [simp]:
  "kp_models (release r i k) = kp_models k" "kp_next (release r i k) = kp_next k" "kp_cooldownUntil (release r i k) = kp_cooldownUntil k"
  "kp_pins (release r i k) = mdel i (kp_pins k)"
  by (simp_all add: release_def close_pins_def Let_def map_of_eq_None_iff split: option.splits)

lemma release_pins_ok:
  assumes ok: "pins_ok cfg k" shows "pins_ok cfg (release r i k)"
proof (cases "map_of (kp_pins k) i")
  case None
  then show ?thesis using ok by (simp add: release_def)
next
  case (Some p)
  have wf: "gomap_wf (kp_pins k)" using ok by (simp add: pins_ok_def)
  obtain xs ys where "kp_pins k = xs @ (i, p) # ys" "mdel i (kp_pins k) = xs @ ys" using mdel_split [OF wf Some] .
  moreover have "0 < pn_bytes p" using ok Some by (auto simp: pins_ok_def)
  ultimately have "pinned_total (mdel i (kp_pins k)) \<le> pinned_total (kp_pins k)" by (simp add: pinned_total_def mvalues_def)
  then show ?thesis using ok by (auto simp: pins_ok_def)
qed

lemma release_handles:
  assumes wf: "gomap_wf (kp_pins k)" and ok: "handles_ok k" shows "handles_ok (release r i k)"
proof (cases "map_of (kp_pins k) i")
  case None
  then show ?thesis using ok by (simp add: release_def)
next
  case (Some p)
  obtain xs ys where s: "kp_pins k = xs @ (i, p) # ys" "mdel i (kp_pins k) = xs @ ys" using mdel_split [OF wf Some] .
  let ?rest = "concat (map pn_pins (mvalues (xs @ ys)))"
  have m: "mset (kp_open k) = mset (pn_pins p) + mset ?rest" using ok s(1) by (simp add: handles_ok_def handles_def mvalues_def)
  moreover have "distinct (kp_open k)" using ok by (simp add: handles_ok_def)
  ultimately have "distinct (pn_pins p @ ?rest)" by (metis mset_append mset_eq_imp_distinct_iff)
  then have "filter (\<lambda>h. h \<notin> set (pn_pins p)) (pn_pins p @ ?rest) = ?rest" by (auto simp: filter_id_conv filter_empty_conv)
  moreover have "mset (filter P (kp_open k)) = mset (filter P (pn_pins p @ ?rest))" for P using m by (metis mset_append mset_filter)
  ultimately have "mset (filter (\<lambda>h. h \<notin> set (pn_pins p)) (kp_open k)) = mset ?rest" by metis
  then show ?thesis using ok Some s(2) by (simp add: handles_ok_def handles_def release_def close_pins_def Let_def)
qed

lemma release_inv: "keeper_inv cfg k \<Longrightarrow> keeper_inv cfg (release r i k)"
  using release_pins_ok [of cfg k r i] release_handles [of k r i] by (simp add: keeper_inv_def models_ok_def pins_ok_def)

definition keep_pin :: "keeper \<Rightarrow> string list \<Rightarrow> string \<Rightarrow> pinned \<Rightarrow> bool" where
  "keep_pin k want i p \<longleftrightarrow> i \<in> set want \<and> (\<forall>m. map_of (kp_models k) i = Some m \<longrightarrow> pn_files p = wm_files m)"

lemma sameFiles_eq [simp]: "sameFiles a b \<longleftrightarrow> a = b"
  by (auto simp: sameFiles_def list.rel_eq)

lemma prune_cases:
  "prune_pin want i k = k \<and> (\<forall>p. map_of (kp_pins k) i = Some p \<longrightarrow> keep_pin k want i p) \<or>
   (\<exists>r p. prune_pin want i k = release r i k \<and> map_of (kp_pins k) i = Some p \<and> \<not> keep_pin k want i p)"
  by (auto simp: prune_pin_def keep_pin_def split: option.splits)

lemma prune_inv: "keeper_inv cfg k \<Longrightarrow> keeper_inv cfg (prune_pin want i k)"
  using prune_cases [of want i k] release_inv by auto

lemma prune_frame [simp]: "kp_models (prune_pin want i k) = kp_models k" "kp_cooldownUntil (prune_pin want i k) = kp_cooldownUntil k"
  using prune_cases [of want i k] by auto

lemma prune_all_inv: "keeper_inv cfg k \<Longrightarrow> keeper_inv cfg (fold (prune_pin want) is k)"
  by (induction "is" arbitrary: k) (simp_all add: prune_inv)

lemma prune_all_frame [simp]:
  "kp_models (fold (prune_pin want) is k) = kp_models k" "kp_cooldownUntil (fold (prune_pin want) is k) = kp_cooldownUntil k"
  by (induction "is" arbitrary: k) simp_all

lemma prune_lookup:
  "map_of (kp_pins (prune_pin want j k)) i = (case map_of (kp_pins k) i of None \<Rightarrow> None
     | Some p \<Rightarrow> if i = j \<and> \<not> keep_pin k want i p then None else Some p)"
  using prune_cases [of want j k] by (auto split: option.splits)

lemma prune_all_lookup:
  "map_of (kp_pins (fold (prune_pin want) is k)) i = (case map_of (kp_pins k) i of None \<Rightarrow> None
     | Some p \<Rightarrow> if i \<in> set is \<and> \<not> keep_pin k want i p then None else Some p)"
proof (induction "is" arbitrary: k)
  case (Cons j js)
  have "keep_pin (prune_pin want j k) want i p = keep_pin k want i p" for p by (simp add: keep_pin_def)
  then show ?case using Cons [of "prune_pin want j k"] by (auto simp: prune_lookup split: option.splits)
qed (simp split: option.splits)

lemma pruned_pins:
  assumes "gomap_wf (kp_pins k)"
  shows "map_of (kp_pins (fold (prune_pin want) (range_order hint (kp_pins k)) k)) i = Some p \<longleftrightarrow>
    map_of (kp_pins k) i = Some p \<and> keep_pin k want i p"
proof -
  have "map_of (kp_pins k) i = Some q \<Longrightarrow> i \<in> set (range_order hint (kp_pins k))" for q
    by (metis set_range_order domI dom_map_of_conv_image_fst)
  then show ?thesis by (auto simp: prune_all_lookup split: option.splits)
qed

subsection \<open>Adding a pin\<close>

lemma pin_files_handles:
  "pin_files pin fs hs n = (hs', n', e) \<Longrightarrow> n \<le> n' \<and> hs' = hs @ [n..<n'] \<and>
     (e = None \<longleftrightarrow> (\<forall>f\<in>set fs. pin (fi_Path f) = None)) \<and> (e = None \<longrightarrow> n' = n + length fs)"
proof (induction pin fs hs n rule: pin_files.induct)
  case (2 pin f fs hs n)
  show ?case
  proof (cases "pin (fi_Path f)")
    case None
    with 2 have h: "Suc n \<le> n' \<and> hs' = (hs @ [n]) @ [Suc n..<n'] \<and> (e = None \<longleftrightarrow> (\<forall>f\<in>set fs. pin (fi_Path f) = None)) \<and>
        (e = None \<longrightarrow> n' = Suc n + length fs)" by simp
    then have "[n..<n'] = n # [Suc n..<n']" by (simp add: upt_conv_Cons)
    then show ?thesis using h None by auto
  next
    case (Some x)
    then have "hs' = hs" "n' = n" "e = Some x" using 2(2) by simp_all
    then show ?thesis using Some by simp
  qed
qed simp

lemma pinModel_cases:
  assumes ok: "handles_ok k"
  obtains (failed) n where "n \<ge> kp_next k" "kp_pins (pinModel cfg inp m k) = kp_pins k" "kp_open (pinModel cfg inp m k) = kp_open k"
      "kp_next (pinModel cfg inp m k) = n" "\<exists>f\<in>set (wm_files m). ti_pin inp (fi_Path f) \<noteq> None"
  | (locked) p where "pn_files p = wm_files m" "pn_pins p = [kp_next k..<kp_next k + length (wm_files m)]" "pn_bytes p = wm_bytes m"
      "kp_pins (pinModel cfg inp m k) = mput (wm_ID m) p (kp_pins k)" "kp_open (pinModel cfg inp m k) = kp_open k @ pn_pins p"
      "kp_next (pinModel cfg inp m k) = kp_next k + length (wm_files m)" "\<forall>f\<in>set (wm_files m). ti_pin inp (fi_Path f) = None"
proof -
  obtain hs n e where h: "pin_files (ti_pin inp) (wm_files m) [] (kp_next k) = (hs, n, e)" by (metis prod_cases3)
  note f = pin_files_handles [OF h]
  show ?thesis
  proof (cases e)
    case (Some x)
    have "filter (\<lambda>h. h \<notin> set hs) (kp_open k @ hs) = kp_open k"
      using ok f by (auto simp: handles_ok_def filter_id_conv filter_empty_conv)
    then show ?thesis using f Some h by (intro failed [of n]) (simp_all add: pinModel_def close_pins_def Let_def)
  next
    case None
    show ?thesis using f None h
      by (intro locked [of "\<lparr>pn_files = wm_files m, pn_pins = hs, pn_bytes = wm_bytes m, pn_since = ti_now inp\<rparr>"])
        (simp_all add: pinModel_def Let_def)
  qed
qed

lemma pinModel_frame [simp]: "kp_models (pinModel cfg inp m k) = kp_models k"
  by (simp add: pinModel_def close_pins_def Let_def split: prod.splits option.splits)

lemma pin_next_cases:
  obtains (none) "pin_next cfg inp avail is k = k"
      "(\<forall>j\<in>set is. map_of (kp_pins k) j \<noteq> None) \<or> (\<exists>j\<in>set is. \<forall>m. map_of (kp_models k) j = Some m \<longrightarrow>
         wrap_i64 (avail - wm_bytes m) < wrap_i64 (kc_FloorBytes cfg + kc_HeadroomBytes cfg))"
  | (pin) as i bs m where "is = as @ i # bs" "\<forall>j\<in>set as. map_of (kp_pins k) j \<noteq> None" "map_of (kp_pins k) i = None"
      "map_of (kp_models k) i = Some m" "wrap_i64 (kc_FloorBytes cfg + kc_HeadroomBytes cfg) \<le> wrap_i64 (avail - wm_bytes m)"
      "pin_next cfg inp avail is k = pinModel cfg inp m k"
proof (induction "is" arbitrary: thesis)
  case (Cons i "is")
  show ?case
  proof (cases "map_of (kp_pins k) i")
    case (Some p)
    then have e: "pin_next cfg inp avail (i # is) k = pin_next cfg inp avail is k" by simp
    show ?thesis
    proof (rule Cons.IH)
      assume "pin_next cfg inp avail is k = k" "(\<forall>j\<in>set is. map_of (kp_pins k) j \<noteq> None) \<or> (\<exists>j\<in>set is. \<forall>m. map_of (kp_models k) j = Some m \<longrightarrow>
         wrap_i64 (avail - wm_bytes m) < wrap_i64 (kc_FloorBytes cfg + kc_HeadroomBytes cfg))"
      then show ?thesis using Cons.prems(1) e Some by auto
    next
      fix as j bs m
      assume "is = as @ j # bs" "\<forall>j\<in>set as. map_of (kp_pins k) j \<noteq> None" "map_of (kp_pins k) j = None" "map_of (kp_models k) j = Some m"
        "wrap_i64 (kc_FloorBytes cfg + kc_HeadroomBytes cfg) \<le> wrap_i64 (avail - wm_bytes m)"
        "pin_next cfg inp avail is k = pinModel cfg inp m k"
      then show ?thesis using Cons.prems(2) [of "i # as" j bs m] Some e by simp
    qed
  next
    case None
    show ?thesis
    proof (cases "map_of (kp_models k) i")
      case (Some m)
      then show ?thesis
        using None Cons.prems(1) Cons.prems(2) [of "[]" i "is" m]
        by (cases "wrap_i64 (avail - wm_bytes m) < wrap_i64 (kc_FloorBytes cfg + kc_HeadroomBytes cfg)") simp_all
    qed (use None Cons.prems(1) in simp)
  qed
qed simp

text \<open>Pins that match the models they belong to, as they do once the pins are pruned.\<close>

definition pins_match :: "keeper_config \<Rightarrow> keeper \<Rightarrow> bool" where
  "pins_match cfg k \<longleftrightarrow> (\<forall>i p. map_of (kp_pins k) i = Some p \<longrightarrow> keep_pin k (warm_desired cfg k) i p)"

lemma matching_total:
  assumes inv: "keeper_inv cfg k" and match: "pins_match cfg k"
  shows "pinned_total (kp_pins k) = sum (model_bytes k) (fst ` set (kp_pins k))" and "fst ` set (kp_pins k) \<subseteq> set (warm_desired cfg k)"
proof -
  have wf: "gomap_wf (kp_pins k)" and ok: "models_ok k" and pins: "pins_ok cfg k" using inv by (simp_all add: keeper_inv_def pins_ok_def)
  have b: "pn_bytes p = model_bytes k i" and d: "i \<in> set (warm_desired cfg k)" if "(i, p) \<in> set (kp_pins k)" for i p
  proof -
    have p: "map_of (kp_pins k) i = Some p" using that wf by (simp add: gomap_wf_def)
    then have kp: "keep_pin k (warm_desired cfg k) i p" using match unfolding pins_match_def by blast
    then show "i \<in> set (warm_desired cfg k)" by (simp add: keep_pin_def)
    then obtain m where m: "map_of (kp_models k) i = Some m" "files_bytes (wm_files m) = wm_bytes m" using desired_facts(2) [OF ok] by blast
    moreover have "files_bytes (pn_files p) = pn_bytes p" using pins p unfolding pins_ok_def by blast
    ultimately show "pn_bytes p = model_bytes k i" using kp by (simp add: keep_pin_def model_bytes_def)
  qed
  show "fst ` set (kp_pins k) \<subseteq> set (warm_desired cfg k)" using d by auto
  have "map pn_bytes (mvalues (kp_pins k)) = map (model_bytes k) (map fst (kp_pins k))" using b by (simp add: mvalues_def)
  moreover have "sum_list (map (model_bytes k) (map fst (kp_pins k))) = sum (model_bytes k) (set (map fst (kp_pins k)))"
    using wf unfolding gomap_wf_def by (rule sum_list_distinct_conv_sum_set)
  ultimately show "pinned_total (kp_pins k) = sum (model_bytes k) (fst ` set (kp_pins k))" by (simp add: pinned_total_def)
qed

lemma pinned_total_add:
  assumes inv: "keeper_inv cfg k" and match: "pins_match cfg k" and budget: "0 \<le> kc_BudgetBytes cfg" "kc_BudgetBytes cfg \<le> 2 ^ 62"
    and i: "i \<in> set (warm_desired cfg k)" "map_of (kp_pins k) i = None" and p: "pn_bytes p = model_bytes k i"
  shows "pinned_total (mput i p (kp_pins k)) \<le> kc_BudgetBytes cfg"
proof -
  have ok: "models_ok k" using inv by (simp add: keeper_inv_def)
  let ?K = "fst ` set (kp_pins k)"
  have fresh: "i \<notin> ?K" using i(2) by (simp add: map_of_eq_None_iff)
  have "pinned_total (mput i p (kp_pins k)) = pinned_total (kp_pins k) + model_bytes k i"
    using i(2) p by (subst mput_fresh) (auto simp: pinned_total_def mvalues_def)
  also have "\<dots> = sum (model_bytes k) (insert i ?K)" using fresh matching_total(1) [OF inv match] by simp
  also have "\<dots> \<le> sum (model_bytes k) (set (warm_desired cfg k))"
  proof (rule sum_mono2)
    show "insert i ?K \<subseteq> set (warm_desired cfg k)" using i(1) matching_total(2) [OF inv match] by simp
    show "0 \<le> model_bytes k j" if "j \<in> set (warm_desired cfg k) - insert i ?K" for j
      using desired_facts(2) [OF ok, of j cfg] that by (auto simp: model_bytes_def)
  qed simp
  also have "\<dots> = sum_list (map (model_bytes k) (warm_desired cfg k))"
    by (rule sum_list_distinct_conv_sum_set [symmetric, OF desired_facts(1) [OF ok]])
  also have "\<dots> \<le> kc_BudgetBytes cfg" by (rule desired_fits [OF ok budget])
  finally show ?thesis .
qed

lemma pinModel_inv:
  assumes inv: "keeper_inv cfg k" and match: "pins_match cfg k" and budget: "0 \<le> kc_BudgetBytes cfg" "kc_BudgetBytes cfg \<le> 2 ^ 62"
    and i: "i \<in> set (warm_desired cfg k)" "map_of (kp_pins k) i = None" "map_of (kp_models k) i = Some m"
  shows "keeper_inv cfg (pinModel cfg inp m k)"
proof -
  have ok: "models_ok k" and pins: "pins_ok cfg k" and hs: "handles_ok k" using inv by (simp_all add: keeper_inv_def)
  have m: "wm_ID m = i" "0 < wm_bytes m" "files_bytes (wm_files m) = wm_bytes m" using desired_facts(2) [OF ok i(1)] i(3) by auto
  from hs show ?thesis
  proof (cases rule: pinModel_cases [where cfg = cfg and inp = inp and m = m])
    case (failed n)
    then show ?thesis using ok pins hs by (fastforce simp: keeper_inv_def models_ok_def pins_ok_def handles_ok_def handles_def)
  next
    case (locked p)
    have "pinned_total (mput i p (kp_pins k)) \<le> kc_BudgetBytes cfg"
      by (rule pinned_total_add [OF inv match budget i(1,2)]) (simp add: locked(3) model_bytes_def i(3))
    then have "pins_ok cfg (pinModel cfg inp m k)" using pins m locked(1,3,4) by (auto simp: pins_ok_def)
    moreover have "handles (pinModel cfg inp m k) = handles k @ pn_pins p"
      using i(2) by (simp add: handles_def locked(4) m(1) mvalues_def mput_fresh domIff)
    then have "handles_ok (pinModel cfg inp m k)" using hs by (auto simp: handles_ok_def locked(2,5,6))
    ultimately show ?thesis using ok by (simp add: keeper_inv_def models_ok_def)
  qed
qed

subsection \<open>A tick\<close>

lemma desired_cong: "kp_models k' = kp_models k \<Longrightarrow> warm_desired cfg k' = warm_desired cfg k"
  by (simp add: warm_desired_def warm_candidates_def)

lemma keeper_inv_irrelevant [simp]:
  "keeper_inv cfg (k\<lparr>kp_cooldownUntil := t\<rparr>) = keeper_inv cfg k" "keeper_inv cfg (k\<lparr>kp_lastPoll := t\<rparr>) = keeper_inv cfg k"
  by (simp_all add: keeper_inv_def models_ok_def pins_ok_def handles_ok_def handles_def)

definition pruned :: "keeper_config \<Rightarrow> tick_input \<Rightarrow> keeper \<Rightarrow> keeper" where
  "pruned cfg inp k = fold (prune_pin (warm_desired cfg k)) (range_order (ti_visit inp) (kp_pins k)) k"

lemma pruned_facts:
  assumes "keeper_inv cfg k"
  shows "keeper_inv cfg (pruned cfg inp k)" and "warm_desired cfg (pruned cfg inp k) = warm_desired cfg k"
    and "kp_models (pruned cfg inp k) = kp_models k" and "kp_cooldownUntil (pruned cfg inp k) = kp_cooldownUntil k"
    and "map_of (kp_pins (pruned cfg inp k)) i = Some p \<longleftrightarrow> map_of (kp_pins k) i = Some p \<and> keep_pin k (warm_desired cfg k) i p"
    and "pins_match cfg (pruned cfg inp k)"
proof -
  have wf: "gomap_wf (kp_pins k)" using assms by (simp add: keeper_inv_def pins_ok_def)
  show "keeper_inv cfg (pruned cfg inp k)" unfolding pruned_def by (rule prune_all_inv [OF assms])
  show m: "kp_models (pruned cfg inp k) = kp_models k" "kp_cooldownUntil (pruned cfg inp k) = kp_cooldownUntil k" by (simp_all add: pruned_def)
  show d: "warm_desired cfg (pruned cfg inp k) = warm_desired cfg k" by (rule desired_cong [OF m(1)])
  show p: "map_of (kp_pins (pruned cfg inp k)) i = Some p \<longleftrightarrow> map_of (kp_pins k) i = Some p \<and> keep_pin k (warm_desired cfg k) i p" for i p
    unfolding pruned_def by (rule pruned_pins [OF wf])
  show "pins_match cfg (pruned cfg inp k)" unfolding pins_match_def d p by (simp add: keep_pin_def m)
qed

lemma reconcile_cases:
  obtains (unread) "reconcile cfg inp k = k" "\<And>a. ti_avail inp = Inr a \<Longrightarrow> a < kc_FloorBytes cfg"
  | (pressure) a i where "ti_avail inp = Inr a" "a < kc_FloorBytes cfg" "i = lowestPriorityPin cfg (ti_visit inp) k"
      "reconcile cfg inp k = (release (Memory_Pressure a (kc_FloorBytes cfg)) i k)\<lparr>kp_cooldownUntil := ti_now inp + kc_Cooldown cfg\<rparr>"
  | (cooling) a where "ti_avail inp = Inr a" "kc_FloorBytes cfg \<le> a" "ti_now inp < kp_cooldownUntil k" "reconcile cfg inp k = pruned cfg inp k"
  | (calm) a where "ti_avail inp = Inr a" "kc_FloorBytes cfg \<le> a" "kp_cooldownUntil k \<le> ti_now inp"
      "reconcile cfg inp k = pin_next cfg inp a (warm_desired cfg k) (pruned cfg inp k)"
proof (cases "ti_avail inp")
  case (Inl e)
  then show ?thesis by (intro unread) (simp_all add: reconcile_def)
next
  case (Inr a)
  show ?thesis
  proof (cases "a < kc_FloorBytes cfg")
    case True
    then show ?thesis using Inr unread pressure [of a] by (cases "lowestPriorityPin cfg (ti_visit inp) k = ''''") (simp_all add: reconcile_def)
  next
    case False
    then show ?thesis using Inr cooling [of a] calm [of a]
      by (cases "ti_now inp < kp_cooldownUntil k") (simp_all add: reconcile_def Let_def pruned_def)
  qed
qed

lemma reconcile_inv:
  assumes inv: "keeper_inv cfg k" and budget: "0 \<le> kc_BudgetBytes cfg" "kc_BudgetBytes cfg \<le> 2 ^ 62"
  shows "keeper_inv cfg (reconcile cfg inp k)"
proof (cases rule: reconcile_cases [of cfg inp k])
  case (calm a)
  note f = pruned_facts [OF inv, of inp]
  show ?thesis unfolding calm(4)
  proof (cases rule: pin_next_cases [of cfg inp a "warm_desired cfg k" "pruned cfg inp k"])
    case (pin as i bs m)
    have "i \<in> set (warm_desired cfg (pruned cfg inp k))" using pin(1) f(2) by simp
    from pinModel_inv [OF f(1) f(6) budget this pin(3,4)] show "keeper_inv cfg (pin_next cfg inp a (warm_desired cfg k) (pruned cfg inp k))"
      unfolding pin(6) .
  qed (use f(1) in simp)
qed (simp_all add: inv release_inv pruned_facts(1))

lemma observe_inv: "keeper_inv cfg k \<Longrightarrow> small_listing inp \<Longrightarrow> keeper_inv cfg (observe cfg inp k)"
  using observe_ok same_pins_inv [OF observe_pins] by (simp add: keeper_inv_def)

lemma Tick_inv:
  assumes "keeper_inv cfg k" and "0 \<le> kc_BudgetBytes cfg" "kc_BudgetBytes cfg \<le> 2 ^ 62" and "small_listing inp"
  shows "keeper_inv cfg (Tick cfg inp k)"
  unfolding Tick_def Let_def using assms by (intro reconcile_inv) (simp_all add: observe_inv)

lemma run_inv:
  assumes "keeper_inv cfg k" and "0 \<le> kc_BudgetBytes cfg" "kc_BudgetBytes cfg \<le> 2 ^ 62" and "list_all small_listing inputs"
  shows "keeper_inv cfg (fold (Tick cfg) inputs k)"
  using assms by (induction inputs arbitrary: k) (simp_all add: Tick_inv)

section \<open>Configuration and restart\<close>

lemma split_unit_factor: "split_unit us s = (t, k) \<Longrightarrow> \<forall>(u, j)\<in>set us. 1 \<le> j \<Longrightarrow> 1 \<le> k"
  by (induction us s rule: split_unit.induct) (auto split: if_splits)

lemma ParseBytes_range:
  assumes "ParseBytes s = Inr n" shows "0 \<le> n \<and> n \<le> 2 ^ 62"
proof -
  obtain t k where u: "split_unit size_units (TrimSpace s) = (t, k)" by fastforce
  have k: "1 \<le> k" by (rule split_unit_factor [OF u]) (simp add: size_units_def)
  obtain v where v: "scan_decimal t = Some v" "v \<le> 2 ^ 62 div k" "n = v * k"
    using assms u by (auto simp: ParseBytes_def split: option.splits if_splits)
  have "v * k \<le> (2 ^ 62 div k) * k" using v(2) k by (intro mult_right_mono) simp_all
  also have "\<dots> \<le> 2 ^ 62" using div_mult_mod_eq [of "2 ^ 62" k] pos_mod_sign [of k "2 ^ 62"] k by linarith
  finally have "n \<le> 2 ^ 62" using v(3) by simp
  moreover have "0 \<le> v" using v(1) by (auto simp: scan_decimal_def Let_def split: if_splits)
  ultimately show ?thesis using v(3) k by simp
qed

lemma flags_budget:
  assumes "keeper_flags router budget available headroom always state status poll cooldown = Inr flags"
  shows "0 < kc_BudgetBytes flags" "kc_BudgetBytes flags \<le> 2 ^ 62"
    "0 \<le> kc_FloorBytes flags" "kc_FloorBytes flags \<le> 2 ^ 62" "0 \<le> kc_HeadroomBytes flags" "kc_HeadroomBytes flags \<le> 2 ^ 62"
  using assms ParseBytes_range [of budget] ParseBytes_range [of available] ParseBytes_range [of headroom]
  by (auto simp: keeper_flags_def split: sum.splits if_splits)

lemma New_facts:
  assumes "New flags = (cfg, k)"
  shows "kc_BudgetBytes cfg = kc_BudgetBytes flags" "kc_FloorBytes cfg = kc_FloorBytes flags" "kc_HeadroomBytes cfg = kc_HeadroomBytes flags"
    "kp_models k = []" "kp_pins k = []" "kp_open k = []"
  using assms by (auto simp: New_def Let_def)

lemma load_models_ok:
  assumes "models_ok k" shows "models_ok (loadState cfg content k)"
proof -
  have step: "models_ok (k\<lparr>kp_models := mput i \<lparr>wm_ID = i, wm_LastUsed = t, wm_files = [], wm_bytes = 0, wm_present = False\<rparr> ms\<rparr>)"
    if "models_ok (k\<lparr>kp_models := ms\<rparr>)" for i t ms using that by (simp add: models_ok_def model_ok_def)
  have "models_ok (k\<lparr>kp_models := fold (\<lambda>(i, t) models. if i \<noteq> ''''
      then mput i \<lparr>wm_ID = i, wm_LastUsed = t, wm_files = [], wm_bytes = 0, wm_present = False\<rparr> models else models) ts ms\<rparr>)"
    if "models_ok (k\<lparr>kp_models := ms\<rparr>)" for ts ms
    using that by (induction ts arbitrary: ms) (auto simp: step)
  from this [of "kp_models k"] show ?thesis using assms by (simp add: loadState_def split: option.splits)
qed

lemma load_pins: "same_pins k (loadState cfg content k)"
  by (simp add: loadState_def same_pins_def split: option.splits)

text \<open>A keeper that was started with flags its command accepts and has made some ticks.\<close>

definition started :: "keeper_config \<Rightarrow> keeper_config \<Rightarrow> keeper \<Rightarrow> bool" where
  "started flags cfg k \<longleftrightarrow> (\<exists>router budget available headroom always state status poll cooldown content k0 inputs.
     keeper_flags router budget available headroom always state status poll cooldown = Inr flags \<and> New flags = (cfg, k0) \<and>
     list_all small_listing inputs \<and> k = fold (Tick cfg) inputs (loadState cfg content k0))"

lemma start_inv:
  assumes n: "New flags = (cfg, k)" and b: "0 < kc_BudgetBytes flags"
  shows "keeper_inv cfg (loadState cfg content k)"
proof -
  note f = New_facts [OF n]
  have "models_ok k" using f(4) by (simp add: models_ok_def)
  moreover have "pins_ok cfg k" "handles_ok k"
    using f b by (simp_all add: pins_ok_def pinned_total_def handles_ok_def handles_def mvalues_def)
  ultimately show ?thesis using load_models_ok same_pins_inv [OF load_pins] by (simp add: keeper_inv_def)
qed

lemma started_inv:
  assumes "started flags cfg k"
  shows "keeper_inv cfg k" "kc_BudgetBytes cfg = kc_BudgetBytes flags" "0 < kc_BudgetBytes cfg" "kc_BudgetBytes cfg \<le> 2 ^ 62"
proof -
  obtain router budget available headroom always state status poll cooldown content k0 inputs where s:
    "keeper_flags router budget available headroom always state status poll cooldown = Inr flags" "New flags = (cfg, k0)"
    "list_all small_listing inputs" "k = fold (Tick cfg) inputs (loadState cfg content k0)" using assms unfolding started_def by blast
  note b = flags_budget(1,2) [OF s(1)] note f = New_facts(1) [OF s(2)]
  show "kc_BudgetBytes cfg = kc_BudgetBytes flags" "0 < kc_BudgetBytes cfg" "kc_BudgetBytes cfg \<le> 2 ^ 62" using b f by simp_all
  then show "keeper_inv cfg k" unfolding s(4) using run_inv [OF start_inv [OF s(2) b(1)] _ _ s(3)] by simp
qed

lemma started_floor:
  assumes "started flags cfg k" shows "0 \<le> kc_FloorBytes cfg" "0 \<le> kc_HeadroomBytes cfg"
proof -
  obtain router budget available headroom always state status poll cooldown k0 where
    "keeper_flags router budget available headroom always state status poll cooldown = Inr flags" "New flags = (cfg, k0)"
    using assms unfolding started_def by blast
  then show "0 \<le> kc_FloorBytes cfg" "0 \<le> kc_HeadroomBytes cfg" using flags_budget(3,5) New_facts(2,3) by metis+
qed

lemma release_all_lookup: "map_of (kp_pins (fold (release r) is k)) j = (if j \<in> set is then None else map_of (kp_pins k) j)"
  by (induction "is" arbitrary: k) auto

lemma release_all_inv: "keeper_inv cfg k \<Longrightarrow> keeper_inv cfg (fold (release r) is k)"
  by (induction "is" arbitrary: k) (simp_all add: release_inv)

lemma releaseAll_empty:
  assumes "keeper_inv cfg k" shows "kp_pins (releaseAll hint k) = [] \<and> kp_open (releaseAll hint k) = []"
proof -
  have "map_of (kp_pins (releaseAll hint k)) i = None" for i
    unfolding releaseAll_def release_all_lookup set_range_order by (simp add: map_of_eq_None_iff)
  then have e: "kp_pins (releaseAll hint k) = []" by (metis list.exhaust map_of_eq_None_iff option.simps(3) old.prod.exhaust map_of_Cons_code(2))
  have "handles_ok (releaseAll hint k)" using release_all_inv [OF assms] by (simp add: releaseAll_def keeper_inv_def)
  then show ?thesis using e by (simp add: handles_ok_def handles_def mvalues_def)
qed

lemma tick_observes:
  assumes inv: "keeper_inv cfg k" and small: "small_listing inp"
  shows "\<exists>k1. Tick cfg inp k = reconcile cfg inp k1 \<and> same_pins k k1 \<and> keeper_inv cfg k1"
proof -
  let ?k = "k\<lparr>kp_lastPoll := ti_now inp\<rparr>"
  have "same_pins k (observe cfg inp ?k)" using observe_pins [of ?k cfg inp] by (simp add: same_pins_def)
  moreover have "keeper_inv cfg (observe cfg inp ?k)" using observe_inv inv small by simp
  moreover have "same_pins k k" by (simp add: same_pins_def)
  ultimately show ?thesis unfolding Tick_def Let_def using inv by (cases "kp_lastPoll k = 0 \<or> ti_now inp - kp_lastPoll k \<ge> kc_PollEvery cfg") auto
qed

section \<open>What a tick adds\<close>

lemma reconcile_models [simp]: "kp_models (reconcile cfg inp k) = kp_models k"
proof (cases rule: reconcile_cases [of cfg inp k])
  case (calm a)
  show ?thesis unfolding calm(4)
    by (cases rule: pin_next_cases [of cfg inp a "warm_desired cfg k" "pruned cfg inp k"]) (simp_all add: pruned_def)
qed (simp_all add: pruned_def)

lemma reconcile_adds:
  assumes inv: "keeper_inv cfg k" and new: "map_of (kp_pins k) i = None" "map_of (kp_pins (reconcile cfg inp k)) i = Some p"
  obtains a m as bs where "ti_avail inp = Inr a" "kp_cooldownUntil k \<le> ti_now inp" "warm_desired cfg k = as @ i # bs"
    "map_of (kp_models k) i = Some m" "pn_bytes p = wm_bytes m" "pn_files p = wm_files m"
    "wrap_i64 (kc_FloorBytes cfg + kc_HeadroomBytes cfg) \<le> wrap_i64 (a - wm_bytes m)"
    "\<forall>j\<in>set as. map_of (kp_pins (reconcile cfg inp k)) j \<noteq> None"
    "\<forall>j. map_of (kp_pins (reconcile cfg inp k)) j \<noteq> None \<longrightarrow> j = i \<or> map_of (kp_pins k) j \<noteq> None"
proof -
  note f = pruned_facts [OF inv, of inp]
  have gone: "map_of (kp_pins (pruned cfg inp k)) i = None" using f(5) [of i] new(1) by (metis option.exhaust)
  have old: "map_of (kp_pins k) j \<noteq> None" if "map_of (kp_pins (pruned cfg inp k)) j \<noteq> None" for j using that f(5) [of j] by blast
  show ?thesis
  proof (cases rule: reconcile_cases [of cfg inp k])
    case (calm a)
    show ?thesis
    proof (cases rule: pin_next_cases [of cfg inp a "warm_desired cfg k" "pruned cfg inp k"])
      case none
      then show ?thesis using new(2) gone calm(4) by simp
    next
      case (pin as j bs m)
      have ok: "models_ok (pruned cfg inp k)" and hs: "handles_ok (pruned cfg inp k)" using f(1) by (simp_all add: keeper_inv_def)
      have "j \<in> set (warm_desired cfg (pruned cfg inp k))" using f(2) pin(1) by simp
      then have id: "wm_ID m = j" using desired_facts(2) [OF ok] pin(4) by fastforce
      have r: "reconcile cfg inp k = pinModel cfg inp m (pruned cfg inp k)" using calm(4) pin(6) by simp
      from hs show ?thesis
      proof (cases rule: pinModel_cases [where cfg = cfg and inp = inp and m = m])
        case (failed n)
        then show ?thesis using new(2) gone r by simp
      next
        case (locked q)
        have l: "map_of (kp_pins (reconcile cfg inp k)) = (map_of (kp_pins (pruned cfg inp k)))(j \<mapsto> q)" unfolding r locked(4) id by simp
        have "j = i" "q = p" using new(2) gone unfolding l by (auto split: if_splits)
        then show ?thesis using that [of a as bs m] calm(1,3) pin locked(1,3) l old f(3) by auto
      qed
    qed
  qed (use new gone in \<open>auto split: if_splits\<close>)
qed

lemma worst_unwanted: "\<exists>j\<in>set ids. map_of pos j = None \<Longrightarrow> worst_pin pos ids v w \<in> set ids \<and> map_of pos (worst_pin pos ids v w) = None"
  by (induction pos ids v w rule: worst_pin.induct) (auto split: option.splits)

lemma worst_wanted:
  assumes "\<forall>j\<in>set ids. map_of pos j = Some (f j)"
  shows "worst_pin pos ids v w = v \<and> (\<forall>j\<in>set ids. f j \<le> w) \<or>
    (let i = worst_pin pos ids v w in i \<in> set ids \<and> w < f i \<and> (\<forall>j\<in>set ids. f j \<le> f i))"
  using assms
proof (induction ids arbitrary: v w)
  case (Cons j js)
  have j: "map_of pos j = Some (f j)" using Cons.prems by simp
  show ?case
  proof (cases "f j > w")
    case True
    then have "worst_pin pos (j # js) v w = worst_pin pos js j (f j)" using j by simp
    moreover have "worst_pin pos js j (f j) = j \<and> (\<forall>i\<in>set js. f i \<le> f j) \<or>
        (let i = worst_pin pos js j (f j) in i \<in> set js \<and> f j < f i \<and> (\<forall>j\<in>set js. f j \<le> f i))" by (rule Cons.IH) (use Cons.prems in simp)
    ultimately show ?thesis using True unfolding Let_def by (elim disjE) force+
  next
    case False
    then have "worst_pin pos (j # js) v w = worst_pin pos js v w" using j by simp
    moreover have "worst_pin pos js v w = v \<and> (\<forall>i\<in>set js. f i \<le> w) \<or>
        (let i = worst_pin pos js v w in i \<in> set js \<and> w < f i \<and> (\<forall>j\<in>set js. f j \<le> f i))" by (rule Cons.IH) (use Cons.prems in simp)
    ultimately show ?thesis using False unfolding Let_def by (elim disjE) force+
  qed
qed simp

lemma positions_other: "i \<notin> set ids \<Longrightarrow> map_of (fold (\<lambda>(i, d) pos. mput d (int i) pos) (enumerate s ids) pos) i = map_of pos i"
  by (induction ids arbitrary: s pos) simp_all

lemma positions_nth:
  "distinct ids \<Longrightarrow> n < length ids \<Longrightarrow> map_of (fold (\<lambda>(i, d) pos. mput d (int i) pos) (enumerate s ids) pos) (ids ! n) = Some (int (s + n))"
proof (induction ids arbitrary: s pos n)
  case (Cons d ds)
  show ?case
  proof (cases n)
    case 0
    then show ?thesis using Cons.prems positions_other [of d ds "Suc s"] by simp
  next
    case (Suc j)
    then show ?thesis using Cons.IH [of j "Suc s" "mput d (int s) pos"] Cons.prems by simp
  qed
qed simp

lemma position_map_nth: "distinct ids \<Longrightarrow> n < length ids \<Longrightarrow> map_of (position_map ids) (ids ! n) = Some (int n)"
  using positions_nth [of ids n 0 "[]"] by (simp add: position_map_def)

lemma position_map_None: "distinct ids \<Longrightarrow> map_of (position_map ids) i = None \<longleftrightarrow> i \<notin> set ids"
  using positions_other [of i ids 0 "[]"] position_map_nth [of ids] unfolding position_map_def in_set_conv_nth by fastforce

lemma lowest_priority:
  fixes cfg :: keeper_config and hint :: "string list"
  assumes ok: "models_ok k" and ne: "kp_pins k \<noteq> []"
  defines "v \<equiv> lowestPriorityPin cfg hint k"
  shows "v \<in> fst ` set (kp_pins k)"
    and "v \<in> set (warm_desired cfg k) \<Longrightarrow> \<exists>as bs. warm_desired cfg k = as @ v # bs \<and> fst ` set (kp_pins k) \<subseteq> set (as @ [v])"
proof -
  let ?D = "warm_desired cfg k" let ?ids = "range_order hint (kp_pins k)"
  have d: "distinct ?D" by (rule desired_facts(1) [OF ok])
  have ids: "set ?ids = fst ` set (kp_pins k)" by (rule set_range_order)
  have v: "v = worst_pin (position_map ?D) ?ids '''' (-1)" by (simp add: v_def lowestPriorityPin_def)
  have main: "v \<in> set ?ids \<and> (v \<in> set ?D \<longrightarrow> (\<exists>as bs. ?D = as @ v # bs \<and> set ?ids \<subseteq> set (as @ [v])))"
  proof (cases "\<exists>j\<in>set ?ids. map_of (position_map ?D) j = None")
    case True
    from worst_unwanted [OF this] show ?thesis using position_map_None [OF d] v by metis
  next
    case False
    define f where "f j = the (map_of (position_map ?D) j)" for j
    have f: "map_of (position_map ?D) j = Some (f j)" if "j \<in> set ?ids" for j using False that by (auto simp: f_def)
    have at: "\<exists>n<length ?D. ?D ! n = j \<and> f j = int n" if "j \<in> set ?ids" for j
    proof -
      have "j \<in> set ?D" using f [OF that] position_map_None [OF d, of j] by simp
      then obtain n where "n < length ?D" "?D ! n = j" by (meson in_set_conv_nth)
      then show ?thesis using position_map_nth [OF d] by (auto simp: f_def)
    qed
    have "set ?ids \<noteq> {}" using ne by (simp add: ids)
    then obtain j where j: "j \<in> set ?ids" by (metis all_not_in_conv)
    have "\<not> f j \<le> -1" using at [OF j] by auto
    with worst_wanted [of ?ids "position_map ?D" f "''''" "-1"] f j
    have w: "v \<in> set ?ids" "\<forall>j\<in>set ?ids. f j \<le> f v" unfolding v Let_def by blast+
    obtain n where n: "n < length ?D" "?D ! n = v" "f v = int n" using at [OF w(1)] by blast
    have "j \<in> set (take n ?D @ [v])" if j: "j \<in> set ?ids" for j
    proof -
      obtain q where q: "q < length ?D" "?D ! q = j" "f j = int q" using at [OF j] by blast
      then have "q \<le> n" using w(2) j n(3) by fastforce
      moreover have "take n ?D ! q = j" "q < length (take n ?D)" if "q < n" using that q(1,2) by simp_all
      then have "q < n \<Longrightarrow> j \<in> set (take n ?D)" by (metis nth_mem)
      ultimately show ?thesis using q(2) n(2) by (cases "q = n") auto
    qed
    then show ?thesis using w(1) id_take_nth_drop [OF n(1)] n(2) by blast
  qed
  then show "v \<in> fst ` set (kp_pins k)" and "v \<in> set ?D \<Longrightarrow> \<exists>as bs. ?D = as @ v # bs \<and> fst ` set (kp_pins k) \<subseteq> set (as @ [v])"
    unfolding ids by blast+
qed

section \<open>Convergence\<close>

text \<open>
  A calm tick: the models do not change, memory is read and leaves room for every model of the
  warm set, no cooldown is running, and the files can be pinned.
\<close>

definition calm_tick :: "keeper_config \<Rightarrow> tick_input \<Rightarrow> keeper \<Rightarrow> bool" where
  "calm_tick cfg inp k \<longleftrightarrow> small_listing inp \<and> kp_models (Tick cfg inp k) = kp_models k \<and> kp_cooldownUntil k \<le> ti_now inp \<and>
     (case ti_avail inp of Inl _ \<Rightarrow> False
      | Inr a \<Rightarrow> kc_FloorBytes cfg \<le> a \<and> list_all (\<lambda>i. case map_of (kp_models k) i of None \<Rightarrow> True
          | Some m \<Rightarrow> wrap_i64 (kc_FloorBytes cfg + kc_HeadroomBytes cfg) \<le> wrap_i64 (a - wm_bytes m) \<and>
              list_all (\<lambda>f. ti_pin inp (fi_Path f) = None) (wm_files m)) (warm_desired cfg k))"

fun calm_run :: "keeper_config \<Rightarrow> tick_input list \<Rightarrow> keeper \<Rightarrow> bool" where
  "calm_run cfg [] k = True"
| "calm_run cfg (inp # inps) k = (calm_tick cfg inp k \<and> calm_run cfg inps (Tick cfg inp k))"

definition unmet :: "keeper_config \<Rightarrow> keeper \<Rightarrow> string list" where
  "unmet cfg k = filter (\<lambda>i. case map_of (kp_pins k) i of None \<Rightarrow> True | Some p \<Rightarrow> \<not> keep_pin k (warm_desired cfg k) i p) (warm_desired cfg k)"

lemma pruned_unmet:
  assumes "keeper_inv cfg k"
  shows "unmet cfg (pruned cfg inp k) = unmet cfg k" and "unmet cfg k = filter (\<lambda>i. map_of (kp_pins (pruned cfg inp k)) i = None) (warm_desired cfg k)"
proof -
  note f = pruned_facts [OF assms, of inp]
  have p: "map_of (kp_pins (pruned cfg inp k)) i =
      (case map_of (kp_pins k) i of None \<Rightarrow> None | Some p \<Rightarrow> if keep_pin k (warm_desired cfg k) i p then Some p else None)" for i
    using f(5) [of i] by (cases "map_of (kp_pins k) i"; cases "map_of (kp_pins (pruned cfg inp k)) i") (simp_all, metis+)
  show e: "unmet cfg k = filter (\<lambda>i. map_of (kp_pins (pruned cfg inp k)) i = None) (warm_desired cfg k)"
    unfolding unmet_def p by (rule filter_cong) (auto split: option.splits)
  have "keep_pin (pruned cfg inp k) (warm_desired cfg k) i q = keep_pin k (warm_desired cfg k) i q" for i q using f(3) by (simp add: keep_pin_def)
  then show "unmet cfg (pruned cfg inp k) = unmet cfg k"
    unfolding e unfolding unmet_def f(2) by (intro filter_cong) (use f(5) in \<open>auto split: option.splits\<close>)
qed

lemma filter_drop_one:
  assumes "distinct xs" "i \<in> set xs" "P i" "\<And>j. Q j \<longleftrightarrow> P j \<and> j \<noteq> i"
  shows "length (filter Q xs) = length (filter P xs) - 1"
proof -
  have "set (filter Q xs) = set (filter P xs) - {i}" using assms(4) by auto
  then have "card (set (filter Q xs)) = card (set (filter P xs)) - 1" using assms(2,3) by simp
  then show ?thesis using assms(1) by (simp only: distinct_card distinct_filter)
qed

lemma calm_reconcile:
  assumes inv: "keeper_inv cfg k" and a: "ti_avail inp = Inr a" "kc_FloorBytes cfg \<le> a" "kp_cooldownUntil k \<le> ti_now inp"
    and room: "\<And>i m. i \<in> set (warm_desired cfg k) \<Longrightarrow> map_of (kp_models k) i = Some m \<Longrightarrow>
      wrap_i64 (kc_FloorBytes cfg + kc_HeadroomBytes cfg) \<le> wrap_i64 (a - wm_bytes m) \<and> (\<forall>f\<in>set (wm_files m). ti_pin inp (fi_Path f) = None)"
  shows "pins_match cfg (reconcile cfg inp k) \<and> length (unmet cfg (reconcile cfg inp k)) = length (unmet cfg k) - 1"
proof -
  let ?k = "pruned cfg inp k" let ?D = "warm_desired cfg k"
  note f = pruned_facts [OF inv, of inp] note u = pruned_unmet [OF inv, of inp]
  have ok: "models_ok ?k" "handles_ok ?k" using f(1) by (simp_all add: keeper_inv_def)
  have r: "reconcile cfg inp k = pin_next cfg inp a ?D ?k" using a by (simp add: reconcile_def Let_def pruned_def)
  show ?thesis
  proof (cases rule: pin_next_cases [of cfg inp a ?D ?k])
    case none
    have "\<exists>m. map_of (kp_models ?k) j = Some m" if "j \<in> set ?D" for j
      using desired_facts(2) [OF ok(1), of j cfg] that unfolding f(2) by blast
    then have "\<forall>j\<in>set ?D. map_of (kp_pins ?k) j \<noteq> None" using none(2) room f(3) by (metis linorder_not_less)
    then have "unmet cfg k = []" unfolding u(2) by (simp add: filter_empty_conv)
    then show ?thesis using r none(1) f(6) u(1) by simp
  next
    case (pin as i bs m)
    have i: "i \<in> set ?D" using pin(1) by simp
    have m: "wm_ID m = i" using desired_facts(2) [OF ok(1), of i cfg] f(2) i pin(4) by auto
    have all: "\<forall>f\<in>set (wm_files m). ti_pin inp (fi_Path f) = None" using room [OF i] pin(4) f(3) by simp
    from ok(2) show ?thesis
    proof (cases rule: pinModel_cases [where cfg = cfg and inp = inp and m = m])
      case (failed n)
      then show ?thesis using all by auto
    next
      case (locked p)
      let ?r = "pinModel cfg inp m ?k"
      have l: "map_of (kp_pins ?r) = (map_of (kp_pins ?k))(i \<mapsto> p)" unfolding locked(4) m by simp
      have D: "warm_desired cfg ?r = ?D" using desired_cong [of ?r k cfg] f(3) by simp
      have kp: "keep_pin ?r ?D j q = keep_pin ?k ?D j q" for j q by (simp add: keep_pin_def)
      have new: "keep_pin ?k ?D i p" using i pin(4) locked(1) by (simp add: keep_pin_def)
      have old: "map_of (kp_pins ?k) j = Some q \<Longrightarrow> keep_pin ?k ?D j q" for j q using f(6) f(2) by (simp add: pins_match_def)
      have match: "pins_match cfg ?r" unfolding pins_match_def D kp l using new old by auto
      have "unmet cfg ?r = filter (\<lambda>j. map_of (kp_pins ?r) j = None) ?D"
        using match unfolding unmet_def D pins_match_def by (intro filter_cong) (auto split: option.splits)
      moreover have "length (filter (\<lambda>j. map_of (kp_pins ?r) j = None) ?D) = length (filter (\<lambda>j. map_of (kp_pins ?k) j = None) ?D) - 1"
        by (rule filter_drop_one [of _ i]) (use desired_facts(1) [OF ok(1), of cfg] f(2) i pin(3) l in auto)
      ultimately show ?thesis using match r pin(6) u(2) by simp
    qed
  qed
qed

lemma calm_step:
  assumes inv: "keeper_inv cfg k" and calm: "calm_tick cfg inp k"
  shows "pins_match cfg (Tick cfg inp k) \<and> length (unmet cfg (Tick cfg inp k)) = length (unmet cfg k) - 1 \<and> warm_desired cfg (Tick cfg inp k) = warm_desired cfg k"
proof -
  define k1 where "k1 = (if kp_lastPoll k = 0 \<or> ti_now inp - kp_lastPoll k \<ge> kc_PollEvery cfg then observe cfg inp (k\<lparr>kp_lastPoll := ti_now inp\<rparr>) else k)"
  have t: "Tick cfg inp k = reconcile cfg inp k1" by (simp add: Tick_def k1_def Let_def)
  have "same_pins (k\<lparr>kp_lastPoll := ti_now inp\<rparr>) (observe cfg inp (k\<lparr>kp_lastPoll := ti_now inp\<rparr>))" by (rule observe_pins)
  then have same: "same_pins k k1" by (simp add: k1_def same_pins_def)
  have models: "kp_models k1 = kp_models k" using calm unfolding calm_tick_def t by simp
  have inv': "keeper_inv cfg k1" using inv calm observe_inv by (simp add: k1_def calm_tick_def)
  have D: "warm_desired cfg k1 = warm_desired cfg k" by (rule desired_cong [OF models])
  have kp: "keep_pin k1 W i p = keep_pin k W i p" for W i p by (simp add: keep_pin_def models)
  have "unmet cfg k1 = unmet cfg k" unfolding unmet_def D kp using same by (simp add: same_pins_def)
  moreover obtain a where a: "ti_avail inp = Inr a" using calm by (auto simp: calm_tick_def split: sum.splits)
  have "pins_match cfg (reconcile cfg inp k1) \<and> length (unmet cfg (reconcile cfg inp k1)) = length (unmet cfg k1) - 1"
  proof (rule calm_reconcile [OF inv' a])
    show "kc_FloorBytes cfg \<le> a" "kp_cooldownUntil k1 \<le> ti_now inp" using calm a same by (simp_all add: calm_tick_def same_pins_def)
    show "wrap_i64 (kc_FloorBytes cfg + kc_HeadroomBytes cfg) \<le> wrap_i64 (a - wm_bytes m) \<and> (\<forall>f\<in>set (wm_files m). ti_pin inp (fi_Path f) = None)"
      if "i \<in> set (warm_desired cfg k1)" "map_of (kp_models k1) i = Some m" for i m
      using that calm a unfolding D models by (auto simp: calm_tick_def list_all_iff)
  qed
  moreover have "warm_desired cfg (Tick cfg inp k) = warm_desired cfg k" using models by (intro desired_cong) (simp add: t)
  ultimately show ?thesis unfolding t by simp
qed

lemma calm_run_unmet:
  assumes "keeper_inv cfg k" and "0 \<le> kc_BudgetBytes cfg" "kc_BudgetBytes cfg \<le> 2 ^ 62" and "calm_run cfg inps k"
  shows "length (unmet cfg (fold (Tick cfg) inps k)) = length (unmet cfg k) - length inps \<and> warm_desired cfg (fold (Tick cfg) inps k) = warm_desired cfg k \<and>
    keeper_inv cfg (fold (Tick cfg) inps k) \<and> (inps \<noteq> [] \<longrightarrow> pins_match cfg (fold (Tick cfg) inps k))"
  using assms
proof (induction inps arbitrary: k)
  case (Cons inp inps)
  have c: "calm_tick cfg inp k" "calm_run cfg inps (Tick cfg inp k)" using Cons.prems(4) by simp_all
  have i: "keeper_inv cfg (Tick cfg inp k)" using c(1) Tick_inv [OF Cons.prems(1-3)] by (simp add: calm_tick_def)
  show ?case using Cons.IH [OF i Cons.prems(2,3) c(2)] calm_step [OF Cons.prems(1) c(1)] by (cases "inps = []") auto
qed simp

section \<open>Memory pressure and locked files\<close>

text \<open>
  Below the floor a tick releases one pin, the last one in the order of the warm set or one that is
  not in it, and starts the cooldown.
\<close>

theorem pressure_releases_lowest:
  assumes inv: "keeper_inv cfg k" and a: "ti_avail inp = Inr a" "a < kc_FloorBytes cfg"
    and pins: "kp_pins k \<noteq> []" "'''' \<notin> fst ` set (kp_pins k)"
  shows "\<exists>i\<in>fst ` set (kp_pins k). kp_pins (reconcile cfg inp k) = mdel i (kp_pins k) \<and>
    kp_cooldownUntil (reconcile cfg inp k) = ti_now inp + kc_Cooldown cfg \<and>
    (i \<in> set (warm_desired cfg k) \<longrightarrow> (\<exists>as bs. warm_desired cfg k = as @ i # bs \<and> fst ` set (kp_pins k) \<subseteq> set (as @ [i])))"
proof -
  let ?i = "lowestPriorityPin cfg (ti_visit inp) k"
  have ok: "models_ok k" using inv by (simp add: keeper_inv_def)
  have i: "?i \<in> fst ` set (kp_pins k)" by (rule lowest_priority(1) [OF ok pins(1)])
  then have ne: "?i \<noteq> ''''" using pins(2) by metis
  have r: "reconcile cfg inp k = (release (Memory_Pressure a (kc_FloorBytes cfg)) ?i k)\<lparr>kp_cooldownUntil := ti_now inp + kc_Cooldown cfg\<rparr>"
    using a ne by (simp add: reconcile_def Let_def)
  show ?thesis by (rule bexI [OF _ i]) (use lowest_priority(2) [OF ok pins(1)] in \<open>simp add: r\<close>)
qed

fun covers :: "nat \<Rightarrow> nat \<Rightarrow> syscall list \<Rightarrow> bool" where
  "covers a b [] = (a = b)"
| "covers a b (Sys_Mlock x y # t) = (x = a \<and> a < y \<and> y \<le> a + pinChunk \<and> covers y b t)"
| "covers a b (_ # t) = False"

lemma pin_chunks_cover: "pin_chunks os len n off = (None, t) \<Longrightarrow> covers (min off len) len t"
proof (induction os len n off arbitrary: t rule: pin_chunks.induct)
  case (1 os len n off)
  show ?case
  proof (cases "off \<ge> len")
    case True
    then show ?thesis using 1(2) by (simp add: pin_chunks.simps [of os len n off])
  next
    case False
    define e where "e = (if off + pinChunk > len then len else off + pinChunk)"
    have go: "\<not> pk_abort os n" "pk_mlock os off e = None"
      using 1(2) False by (auto simp: pin_chunks.simps [of os len n off] Let_def e_def [symmetric] split: if_splits option.splits)
    obtain u where u: "pin_chunks os len (n + 1) (off + pinChunk) = (None, u)" "t = Sys_Mlock off e # u"
      using 1(2) False go by (auto simp: pin_chunks.simps [of os len n off] Let_def e_def [symmetric] split: prod.splits)
    have "covers (min (off + pinChunk) len) len u" using 1(1) [OF False go(1) e_def go(2) u(1)] .
    moreover have "min (off + pinChunk) len = e" by (simp add: e_def)
    ultimately show ?thesis using False u(2) pinChunk_pos by (simp add: e_def)
  qed
qed

text \<open>
  A pin that succeeds has locked the whole file, chunk after chunk without a gap; one that fails has
  closed the file and removed the mapping.
\<close>

theorem pin_file_exact:
  "case PinFile os of
     (Inr fd, t) \<Rightarrow> \<exists>sz ls. pk_fstat os = Inr sz \<and> t = [Sys_Open fd, Sys_Mmap (nat sz)] @ ls \<and> covers 0 (nat sz) ls
   | (Inl e, t) \<Rightarrow> t = [] \<or> (\<exists>fd ls. t = Sys_Open fd # ls @ [Sys_Close fd] \<and> (ls = [] \<or> last ls = Sys_Munmap))"
proof -
  have fail: "\<exists>fd' ls. [Sys_Open fd, Sys_Mmap n] @ t @ [Sys_Munmap, Sys_Close fd] = Sys_Open fd' # ls @ [Sys_Close fd'] \<and>
      (ls = [] \<or> last ls = Sys_Munmap)" for fd n t
    by (rule exI [of _ fd], rule exI [of _ "Sys_Mmap n # t @ [Sys_Munmap]"]) simp
  show ?thesis
    unfolding PinFile_def using fail pin_chunks_cover [of os _ 0 0]
    by (auto split: sum.splits if_splits option.splits prod.splits)
qed

section \<open>Properties\<close>

definition sample_flags :: keeper_config where
  "sample_flags = \<lparr>kc_RouterURL = ''u'', kc_BudgetBytes = 10, kc_FloorBytes = 2, kc_HeadroomBytes = 1, kc_Always = [],
     kc_StatePath = '''', kc_StatusPath = '''', kc_PollEvery = 5, kc_TickEvery = 0, kc_Cooldown = 7\<rparr>"

definition sample_tick :: "time \<Rightarrow> error + i64 \<Rightarrow> tick_input" where
  "sample_tick now avail = \<lparr>ti_now = now,
     ti_router = Inr [\<lparr>rm_ID = ''m'', rm_Loaded = True, rm_Files = [''f'', ''g'']\<rparr>],
     ti_stat = (\<lambda>p. Inr \<lparr>fi_Path = p, fi_Size = 4, fi_Mtime = 0, fi_Inode = 1\<rparr>),
     ti_avail = avail, ti_pin = (\<lambda>_. None), ti_later = now, ti_visit = [], ti_write = True\<rparr>"

abbreviation sample_cfg :: keeper_config where "sample_cfg \<equiv> fst (New sample_flags)"

definition sample_keeper :: keeper where
  "sample_keeper = Tick sample_cfg (sample_tick 1 (Inl Panic)) (loadState sample_cfg None (snd (New sample_flags)))"

lemma sample_started: "started sample_flags sample_cfg sample_keeper"
proof -
  have "keeper_flags ''u'' ''10'' ''2'' ''1'' '''' '''' '''' 5 7 = Inr sample_flags" by code_simp
  moreover have "list_all small_listing [sample_tick 1 (Inl Panic)]" by code_simp
  ultimately show ?thesis
    unfolding started_def using fold_simps prod.collapse [of "New sample_flags"] unfolding sample_keeper_def by metis
qed

text \<open>
  C14 The keeper never locks more than its budget: after any sequence of ticks, whatever the router
  lists, memory does and pins fail, the sizes of the pinned models add up to at most the budget that
  the command line gave, and so does the warm set \<open>desired\<close> computes. Models are assumed smaller than
  4 EiB, the bound \<open>ParseBytes\<close> puts on the budget, so that the int64 sums do not wrap.
\<close>

theorem warm_budget_respected:
  assumes "started flags cfg k"
  shows "pinned_total (kp_pins k) \<le> kc_BudgetBytes flags \<and> sum_list (map (model_bytes k) (warm_desired cfg k)) \<le> kc_BudgetBytes flags"
  using started_inv [OF assms] desired_fits [of k cfg] by (simp add: keeper_inv_def pins_ok_def)

theorem warm_budget_respected_witness:
  "pinned_total (kp_pins sample_keeper) \<le> 10 \<and> sum_list (map (model_bytes sample_keeper) (warm_desired sample_cfg sample_keeper)) \<le> 10"
proof -
  have "kc_BudgetBytes sample_flags = 10" by (simp add: sample_flags_def)
  then show ?thesis using warm_budget_respected [OF sample_started] by simp
qed

text \<open>
  C23 No pin leaks: at any time the open pins are exactly those of the pinned models, each owned once,
  and \<open>releaseAll\<close> leaves none open, in whatever order \<open>range\<close> visits them.
\<close>

theorem pins_never_leak:
  assumes "started flags cfg k"
  shows "distinct (kp_open k) \<and> mset (kp_open k) = mset (handles k) \<and>
    kp_pins (releaseAll hint k) = [] \<and> kp_open (releaseAll hint k) = []"
  using started_inv(1) [OF assms] releaseAll_empty by (auto simp: keeper_inv_def handles_ok_def)

theorem pins_never_leak_witness:
  "distinct (kp_open sample_keeper) \<and> kp_open (releaseAll [''x''] sample_keeper) = []"
  using pins_never_leak [OF sample_started] by blast



text \<open>
  C15 The warm set is reached: from any state, after at least one and at least as many calm ticks as the
  warm set has models, exactly the warm set is pinned, each model with its current files. A tick
  is calm when the models do not change, memory leaves room for each model, no cooldown runs and
  files can be pinned.
\<close>

theorem warm_set_converges:
  assumes s: "started flags cfg k" and calm: "calm_run cfg inps k" and long: "inps \<noteq> []" "length (warm_desired cfg k) \<le> length inps"
  shows "fst ` set (kp_pins (fold (Tick cfg) inps k)) = set (warm_desired cfg k) \<and>
    (\<forall>i p m. map_of (kp_pins (fold (Tick cfg) inps k)) i = Some p \<longrightarrow> map_of (kp_models (fold (Tick cfg) inps k)) i = Some m \<longrightarrow>
       pn_files p = wm_files m)"
proof -
  let ?k = "fold (Tick cfg) inps k"
  have b: "0 \<le> kc_BudgetBytes cfg" using started_inv(3) [OF s] by simp
  note c = calm_run_unmet [OF started_inv(1) [OF s] b started_inv(4) [OF s] calm]
  have "length (unmet cfg k) \<le> length (warm_desired cfg k)" by (simp add: unmet_def)
  then have "unmet cfg ?k = []" and D: "warm_desired cfg ?k = warm_desired cfg k" and match: "pins_match cfg ?k" using c long by simp_all
  then have all: "map_of (kp_pins ?k) i \<noteq> None" if "i \<in> set (warm_desired cfg k)" for i
    using that by (auto simp: unmet_def filter_empty_conv split: option.splits)
  have "i \<in> set (warm_desired cfg k)" if "map_of (kp_pins ?k) i = Some p" for i p using match that D by (auto simp: pins_match_def keep_pin_def)
  then have "dom (map_of (kp_pins ?k)) = set (warm_desired cfg k)" using all by (auto simp: dom_def)
  moreover have "pn_files p = wm_files m" if "map_of (kp_pins ?k) i = Some p" "map_of (kp_models ?k) i = Some m" for i p m
    using match that by (auto simp: pins_match_def keep_pin_def)
  ultimately show ?thesis by (simp add: dom_map_of_conv_image_fst)
qed

theorem warm_set_converges_witness:
  "fst ` set (kp_pins (fold (Tick sample_cfg) [sample_tick 2 (Inr 100)] sample_keeper)) = {''m''}"
proof -
  have "calm_run sample_cfg [sample_tick 2 (Inr 100)] sample_keeper" by code_simp
  moreover have "warm_desired sample_cfg sample_keeper = [''m'']" by code_simp
  ultimately show ?thesis using warm_set_converges [OF sample_started, of "[sample_tick 2 (Inr 100)]"] by simp
qed

end
